(* ===== verification/Prelude.thy ===== *)
theory Prelude
  imports Main "HOL-Library.Word"
begin

text \<open>
  Shared vocabulary of the development: machine words and byte strings, the exceptions the
  program raises, bounds-checked access to a \<^verbatim>\<open>std::span\<close>, decimal and
  hexadecimal formatting, and the generic interfaces (locales) that several components
  implement.

  An access of the source that C++ leaves undefined (an index or a \<^verbatim>\<open>subspan\<close>
  outside the span, a member of a destroyed object) is the value \<open>OutOfBounds\<close> or
  \<open>UseAfterFree\<close> here, so memory safety of a component is a theorem saying that it
  never returns that value.
\<close>

unbundle bit_operations_syntax

named_theorems span_simps \<open>bounds-checked span access\<close>
named_theorems layout_simps \<open>lengths and layout of encoded messages\<close>

section \<open>Words, bytes and characters\<close>

type_synonym byte = "8 word"
type_synonym u16 = "16 word"
type_synonym u32 = "32 word"
type_synonym bytes = "byte list"

definition char_of_byte :: "byte \<Rightarrow> char" where
  "char_of_byte b = char_of (unat b)"

definition byte_of_char :: "char \<Rightarrow> byte" where
  "byte_of_char c = word_of_nat (of_char c)"

abbreviation string_of_bytes :: "bytes \<Rightarrow> string" where
  "string_of_bytes bs \<equiv> map char_of_byte bs"

abbreviation bytes_of_string :: "string \<Rightarrow> bytes" where
  "bytes_of_string s \<equiv> map byte_of_char s"

lemma of_char_bound [simp]: "(of_char c :: nat) < 256"
proof -
  have "(of_char c :: nat) mod 256 < 256" by (rule mod_less_divisor) simp
  then show ?thesis by (simp only: of_char_mod_256)
qed

lemma unat_byte_less [simp]: "unat (b :: byte) < 256"
proof -
  have "unat b < 2 ^ LENGTH(8)" by (rule unsigned_less)
  then show ?thesis by simp
qed

lemma unat_u16_less [simp]: "unat (w :: u16) < 65536"
proof -
  have "unat w < 2 ^ LENGTH(16)" by (rule unsigned_less)
  then show ?thesis by simp
qed

lemma char_of_byte_of_char [simp]: "char_of_byte (byte_of_char c) = c"
  by (simp add: char_of_byte_def byte_of_char_def unsigned_of_nat take_bit_eq_mod)

lemma byte_of_char_of_byte [simp]: "byte_of_char (char_of_byte b) = b"
  by (simp add: char_of_byte_def byte_of_char_def of_char_of)

lemma bytes_of_string_of_bytes [simp]: "bytes_of_string (string_of_bytes bs) = bs"
  by (simp add: comp_def)

lemma string_of_bytes_of_string [simp]: "string_of_bytes (bytes_of_string s) = s"
  by (simp add: comp_def)

text \<open>The bytes a C function sees of a \<^verbatim>\<open>std::string\<close> passed by \<^verbatim>\<open>c_str()\<close>: those before the first NUL.\<close>

definition c_str :: "string \<Rightarrow> string" where
  "c_str s = takeWhile (\<lambda>c. c \<noteq> CHR 0x00) s"

lemma c_str_id [simp]: "CHR 0x00 \<notin> set s \<Longrightarrow> c_str s = s"
  by (simp add: c_str_def takeWhile_eq_all_conv) metis

section \<open>Exceptions and results\<close>

text \<open>
  Every \<^verbatim>\<open>throw\<close> of the program is a \<open>RuntimeError\<close> with the message of
  the source (up to a variable suffix), an exception of the JSON library is a
  \<open>JsonError\<close>, an exception of asio is a \<open>SystemError\<close>.
\<close>

datatype exn =
    OutOfBounds
  | UseAfterFree
  | RuntimeError string
  | JsonError string
  | SystemError string

type_synonym 'a result = "exn + 'a"

text \<open>Undefined behaviour cannot be caught by \<^verbatim>\<open>catch (...)\<close>; exceptions can.\<close>

fun is_ub :: "exn \<Rightarrow> bool" where
  "is_ub OutOfBounds = True"
| "is_ub UseAfterFree = True"
| "is_ub (RuntimeError m) = False"
| "is_ub (JsonError m) = False"
| "is_ub (SystemError m) = False"

definition bind_result :: "'a result \<Rightarrow> ('a \<Rightarrow> 'b result) \<Rightarrow> 'b result" where
  "bind_result m f = (case m of Inl e \<Rightarrow> Inl e | Inr x \<Rightarrow> f x)"

lemma bind_result_simps [simp]:
  "bind_result (Inl e) f = Inl e"
  "bind_result (Inr x) f = f x"
  by (simp_all add: bind_result_def)

lemma bind_result_eq_Inr:
  "bind_result m f = Inr y \<longleftrightarrow> (\<exists>x. m = Inr x \<and> f x = Inr y)"
  by (cases m) simp_all

lemma bind_result_eq_Inl:
  "bind_result m f = Inl e \<longleftrightarrow> m = Inl e \<or> (\<exists>x. m = Inr x \<and> f x = Inl e)"
  by (cases m) simp_all

lemmas bind_result_conv = bind_result_eq_Inr bind_result_eq_Inl

section \<open>Spans\<close>

definition span_at :: "bytes \<Rightarrow> nat \<Rightarrow> byte result" where
  "span_at bs i = (if i < length bs then Inr (bs ! i) else Inl OutOfBounds)"

definition span_from :: "bytes \<Rightarrow> nat \<Rightarrow> bytes result" where
  "span_from bs n = (if n \<le> length bs then Inr (drop n bs) else Inl OutOfBounds)"

definition subspan :: "bytes \<Rightarrow> nat \<Rightarrow> nat \<Rightarrow> bytes result" where
  "subspan bs off n =
     (if off + n \<le> length bs then Inr (take n (drop off bs)) else Inl OutOfBounds)"

lemma span_at_Inr [span_simps]: "i < length bs \<Longrightarrow> span_at bs i = Inr (bs ! i)"
  by (simp add: span_at_def)

lemma span_from_Inr [span_simps]: "n \<le> length bs \<Longrightarrow> span_from bs n = Inr (drop n bs)"
  by (simp add: span_from_def)

lemma subspan_Inr [span_simps]:
  "off + n \<le> length bs \<Longrightarrow> subspan bs off n = Inr (take n (drop off bs))"
  by (simp add: subspan_def)

section \<open>Big-endian 16-bit fields\<close>

text \<open>
  The Shadowsocks code and the DNS code each have their own pair of functions writing and
  reading a big-endian 16-bit field. Both implement this interface.
\<close>

locale be16_field =
  fixes put :: "u16 \<Rightarrow> bytes"
    and get :: "bytes \<Rightarrow> nat \<Rightarrow> u16 result"
  assumes put_length: "length (put v) = 2"
    and get_put: "get (xs @ put v @ ys) (length xs) = Inr v"
    and put_get: "length bs = 2 \<Longrightarrow> get bs 0 = Inr v \<Longrightarrow> put v = bs"
    and get_Inr: "i + 2 \<le> length bs \<Longrightarrow> \<exists>v. get bs i = Inr v"
begin

lemma get_head: "get (put v @ ys) 0 = Inr v"
  using get_put [of "[]" v ys] by simp

lemma put_inject: "put v = put w \<longleftrightarrow> v = w"
proof
  assume "put v = put w"
  then have "get (put v @ []) 0 = get (put w @ []) 0" by simp
  then show "v = w" by (simp only: get_head sum.inject)
qed simp

lemma fields_length: "length (concat (map put vs)) = 2 * length vs"
  by (induction vs) (simp_all add: put_length)

lemma get_field:
  assumes "i < length vs"
  shows "get (concat (map put vs) @ ys) (2 * i) = Inr (vs ! i)"
proof -
  have "concat (map put vs) @ ys
      = concat (map put (take i vs)) @ put (vs ! i) @ concat (map put (drop (Suc i) vs)) @ ys"
    by (subst id_take_nth_drop [OF assms]) simp
  moreover have "length (concat (map put (take i vs))) = 2 * i"
    using assms by (simp add: fields_length)
  ultimately show ?thesis
    by (metis get_put)
qed

end

lemma and_255: "(v :: u16) AND 0xff = take_bit 8 v"
  by (simp add: take_bit_eq_mask mask_eq_exp_minus_1)

lemma be16_join_split:
  "push_bit 8 (ucast (ucast (drop_bit 8 v) :: byte)) OR ucast (ucast (v AND 0xff) :: byte) = (v :: u16)"
  unfolding and_255 by (rule bit_word_eqI) (auto simp: bit_simps)

lemma be16_high: "ucast (drop_bit 8 (push_bit 8 (ucast (a :: byte)) OR ucast (b :: byte) :: u16)) = a"
  by (rule bit_word_eqI) (auto simp: bit_simps dest: bit_imp_le_length)

lemma be16_low: "ucast ((push_bit 8 (ucast (a :: byte)) OR ucast (b :: byte) :: u16) AND 0xff) = b"
  unfolding and_255 by (rule bit_word_eqI) (auto simp: bit_simps)

section \<open>Number formatting\<close>

text \<open>\<^verbatim>\<open>std::to_string\<close> of an unsigned value.\<close>

fun dec_string :: "nat \<Rightarrow> string" where
  "dec_string n =
     (if n < 10 then [char_of (48 + n)]
      else dec_string (n div 10) @ [char_of (48 + n mod 10)])"

declare dec_string.simps [simp del]

text \<open>\<^verbatim>\<open>%02x\<close> of a byte.\<close>

definition hex_digit :: "nat \<Rightarrow> char" where
  "hex_digit n = (if n < 10 then char_of (48 + n) else char_of (87 + n))"

definition hex02 :: "byte \<Rightarrow> string" where
  "hex02 b = [hex_digit (unat b div 16), hex_digit (unat b mod 16)]"

text \<open>Text of an IPv4 address, and groups of two bytes separated by colons.\<close>

definition ipv4_text :: "byte \<Rightarrow> byte \<Rightarrow> byte \<Rightarrow> byte \<Rightarrow> string" where
  "ipv4_text a b c d =
     dec_string (unat a) @ ''.'' @ dec_string (unat b) @ ''.'' @
     dec_string (unat c) @ ''.'' @ dec_string (unat d)"

fun hex_groups :: "bytes \<Rightarrow> string" where
  "hex_groups (a # b # x # xs) = hex02 a @ hex02 b @ '':'' @ hex_groups (x # xs)"
| "hex_groups [a, b] = hex02 a @ hex02 b"
| "hex_groups [a] = hex02 a"
| "hex_groups [] = []"

lemma dec_string_digits: "c \<in> set (dec_string n) \<Longrightarrow> 48 \<le> (of_char c :: nat) \<and> (of_char c :: nat) < 58"
proof (induction n rule: dec_string.induct)
  case (1 n)
  show ?case
  proof (cases "n < 10")
    case True
    with "1.prems" show ?thesis by (simp add: dec_string.simps [of n])
  next
    case False
    with "1.prems" consider "c \<in> set (dec_string (n div 10))" | "c = char_of (48 + n mod 10)"
      by (auto simp: dec_string.simps [of n])
    then show ?thesis
    proof cases
      case 1
      with "1.IH" False show ?thesis by simp
    next
      case 2
      have "n mod 10 < 10" by simp
      then have "(48 + n mod 10) mod 256 = 48 + n mod 10" by (simp add: mod_less)
      with 2 \<open>n mod 10 < 10\<close> show ?thesis by simp
    qed
  qed
qed

lemma of_char_hex_digit: "n < 16 \<Longrightarrow> of_char (hex_digit n) = (if n < 10 then 48 + n else 87 + n :: nat)"
  by (simp add: hex_digit_def)

lemma nul_not_in: "(\<And>c. c \<in> set s \<Longrightarrow> 0 < (of_char c :: nat)) \<Longrightarrow> CHR 0x00 \<notin> set s"
  by force

lemma ipv4_text_chars: "c \<in> set (ipv4_text w x y z) \<Longrightarrow> 46 \<le> (of_char c :: nat) \<and> (of_char c :: nat) < 58"
  by (auto simp: ipv4_text_def dest!: dec_string_digits)

lemma hex02_chars: "c \<in> set (hex02 b) \<Longrightarrow> 48 \<le> (of_char c :: nat)"
proof -
  have "unat b div 16 < 16" using unat_byte_less [of b] by linarith
  then show "c \<in> set (hex02 b) \<Longrightarrow> 48 \<le> (of_char c :: nat)"
    by (auto simp: hex02_def of_char_hex_digit)
qed

lemma hex_groups_chars: "c \<in> set (hex_groups bs) \<Longrightarrow> 48 \<le> (of_char c :: nat)"
  by (induction bs rule: hex_groups.induct) (auto dest: hex02_chars)

lemma c_str_ipv4_text [simp]: "c_str (ipv4_text w x y z) = ipv4_text w x y z"
  by (rule c_str_id, rule nul_not_in) (auto dest: ipv4_text_chars)

lemma c_str_hex_groups [simp]: "c_str (hex_groups bs) = hex_groups bs"
  by (rule c_str_id, rule nul_not_in) (auto dest: hex_groups_chars)

lemma hex_groups_length: "bs \<noteq> [] \<Longrightarrow> even (length bs) \<Longrightarrow> 2 * (length (hex_groups bs) + 1) = 5 * length bs"
  by (induction bs rule: hex_groups.induct) (auto simp: hex02_def)

section \<open>State machines\<close>

inductive reachable :: "('s \<Rightarrow> bool) \<Rightarrow> ('s \<Rightarrow> 's \<Rightarrow> bool) \<Rightarrow> 's \<Rightarrow> bool"
  for init step where
  reach_init: "init s \<Longrightarrow> reachable init step s"
| reach_step: "reachable init step s \<Longrightarrow> step s t \<Longrightarrow> reachable init step t"

locale invariant_system =
  fixes init :: "'s \<Rightarrow> bool"
    and step :: "'s \<Rightarrow> 's \<Rightarrow> bool"
    and invariant :: "'s \<Rightarrow> bool"
  assumes init_invariant: "init s \<Longrightarrow> invariant s"
    and step_invariant: "invariant s \<Longrightarrow> step s t \<Longrightarrow> invariant t"
begin

lemma reachable_invariant: "reachable init step s \<Longrightarrow> invariant s"
  by (induction rule: reachable.induct) (blast intro: init_invariant step_invariant)+

end

section \<open>Incremental decoders\<close>

text \<open>
  A decoder takes at most one chunk off the front of a buffer: it raises, asks for more
  bytes, or returns the chunk, the rest of the buffer and its new state. \<open>drain\<close> is
  the loop that calls it until it stops; its result is the chunks, the exception if there
  was one, the unconsumed buffer and the state. A decoder whose answers do not depend on
  the bytes behind the chunk delivers the same chunks however the input is cut into reads.
\<close>

type_synonym 's decoder = "'s \<Rightarrow> bytes \<Rightarrow> (bytes \<times> bytes \<times> 's) option result"
type_synonym 's drained = "bytes list \<times> exn option \<times> bytes \<times> 's"

text \<open>
  \<open>feed\<close> is a reader that appends each fragment to the buffer left over from the
  fragment before and drains it, until an exception ends the connection.
\<close>

fun feed :: "('s \<Rightarrow> bytes \<Rightarrow> 's drained) \<Rightarrow> 's \<Rightarrow> bytes \<Rightarrow> bytes list \<Rightarrow> 's drained" where
  "feed drain s buf [] = ([], None, buf, s)"
| "feed drain s buf (f # fs) =
     (case drain s (buf @ f) of
        (ps, Some e, r, t) \<Rightarrow> (ps, Some e, r, t)
      | (ps, None, r, t) \<Rightarrow>
          (case feed drain t r fs of (qs, e, r', u) \<Rightarrow> (ps @ qs, e, r', u)))"

locale stream_decoder =
  fixes dec :: "'s decoder"
    and drain :: "'s \<Rightarrow> bytes \<Rightarrow> 's drained"
  assumes dec_progress: "dec s v = Inr (Some (p, r, t)) \<Longrightarrow> length r < length v"
    and dec_chunk_extend: "dec s v = Inr (Some (p, r, t)) \<Longrightarrow> dec s (v @ w) = Inr (Some (p, r @ w, t))"
    and dec_error_extend: "dec s v = Inl e \<Longrightarrow> dec s (v @ w) = Inl e"
    and drain_unfold: "drain s v =
      (case dec s v of
         Inl e \<Rightarrow> ([], Some e, v, s)
       | Inr None \<Rightarrow> ([], None, v, s)
       | Inr (Some (p, r, t)) \<Rightarrow> (case drain t r of (ps, e, r', u) \<Rightarrow> (p # ps, e, r', u)))"
begin

lemma drain_stop:
  "dec s v = Inr None \<Longrightarrow> drain s v = ([], None, v, s)"
  "dec s v = Inl e \<Longrightarrow> drain s v = ([], Some e, v, s)"
  by (subst drain_unfold, simp)+

lemma drain_chunk:
  "dec s v = Inr (Some (p, r, t)) \<Longrightarrow> drain t r = (ps, e, r', u) \<Longrightarrow> drain s v = (p # ps, e, r', u)"
  by (subst drain_unfold) simp

lemma drain_append:
  "drain s v = (ps, e, r, t) \<Longrightarrow>
   drain s (v @ w) =
     (case e of Some x \<Rightarrow> (ps, Some x, r @ w, t)
      | None \<Rightarrow> (case drain t (r @ w) of (qs, e', r', u) \<Rightarrow> (ps @ qs, e', r', u)))"
proof (induction v arbitrary: s ps rule: length_induct)
  case (1 v)
  show ?case
  proof (cases "dec s v")
    case (Inl x)
    with "1.prems" show ?thesis
      by (auto simp: drain_stop dec_error_extend)
  next
    case (Inr m)
    show ?thesis
    proof (cases m)
      case None
      with Inr "1.prems" show ?thesis by (simp add: drain_stop split: prod.splits)
    next
      case (Some prt)
      obtain p r0 t0 where m: "dec s v = Inr (Some (p, r0, t0))"
        using Inr Some by (cases prt) auto
      obtain ps0 where d0: "drain t0 r0 = (ps0, e, r, t)" and ps: "ps = p # ps0"
        using "1.prems" m by (auto simp: drain_unfold [of s v] split: prod.splits)
      have step: "drain s (v @ w) = (case drain t0 (r0 @ w) of (qs, e', r', u) \<Rightarrow> (p # qs, e', r', u))"
        by (subst drain_unfold) (simp add: dec_chunk_extend [OF m])
      have "length r0 < length v" using m by (rule dec_progress)
      with "1.IH" d0 have "drain t0 (r0 @ w) =
          (case e of Some x \<Rightarrow> (ps0, Some x, r @ w, t)
           | None \<Rightarrow> (case drain t (r @ w) of (qs, e', r', u) \<Rightarrow> (ps0 @ qs, e', r', u)))"
        by blast
      with step ps show ?thesis by (simp split: option.splits prod.splits)
    qed
  qed
qed

text \<open>A finished drain leaves nothing the decoder would take.\<close>

lemma drain_idle: "drain s v = (ps, None, r, t) \<Longrightarrow> drain t r = ([], None, r, t)"
proof (induction v arbitrary: s ps rule: length_induct)
  case (1 v)
  show ?case
  proof (cases "\<exists>p r0 t0. dec s v = Inr (Some (p, r0, t0))")
    case True
    then obtain p r0 t0 where m: "dec s v = Inr (Some (p, r0, t0))" by blast
    then obtain ps0 where "drain t0 r0 = (ps0, None, r, t)"
      using "1.prems" by (auto simp: drain_unfold [of s v] split: prod.splits)
    with "1.IH" dec_progress [OF m] show ?thesis by blast
  next
    case False
    then have "dec s v = Inr None \<or> (\<exists>x. dec s v = Inl x)"
      by (cases "dec s v") (auto, metis option.exhaust prod_cases3)
    with "1.prems" show ?thesis by (auto simp: drain_stop)
  qed
qed

text \<open>An exception that ends a drain comes from the decoder.\<close>

lemma drain_error: "drain s v = (ps, Some e, r, t) \<Longrightarrow> \<exists>s' v'. dec s' v' = Inl e"
proof (induction v arbitrary: s ps rule: length_induct)
  case (1 v)
  consider x where "dec s v = Inl x" | "dec s v = Inr None" | p r0 t0 where "dec s v = Inr (Some (p, r0, t0))"
    by (metis Inl_Inr_False sum.exhaust option.exhaust prod_cases3)
  then show ?case
  proof cases
    case (1 x)
    with "1.prems" show ?thesis by (auto simp: drain_stop)
  next
    case 2
    with "1.prems" show ?thesis by (simp add: drain_stop)
  next
    case (3 p r0 t0)
    then obtain ps0 where "drain t0 r0 = (ps0, Some e, r, t)"
      using "1.prems" by (auto simp: drain_unfold [of s v] split: prod.splits)
    with "1.IH" dec_progress [OF 3] show ?thesis by blast
  qed
qed

text \<open>Feeding fragments delivers what draining their concatenation delivers.\<close>

lemma feed_drain:
  assumes "drain s buf = ([], None, buf, s)"
  shows "\<exists>r t. feed drain s buf fs = (fst (drain s (buf @ concat fs)), fst (snd (drain s (buf @ concat fs))), r, t)
    \<and> (fst (snd (drain s (buf @ concat fs))) = None \<longrightarrow> (r, t) = snd (snd (drain s (buf @ concat fs))))"
  using assms
proof (induction fs arbitrary: s buf)
  case Nil
  then show ?case by simp
next
  case (Cons f fs)
  obtain ps e r t where d: "drain s (buf @ f) = (ps, e, r, t)" by (metis prod_cases4)
  note app = drain_append [OF d, of "concat fs", simplified]
  show ?case
  proof (cases e)
    case (Some x)
    with d app show ?thesis by simp
  next
    case None
    with d have idle: "drain t r = ([], None, r, t)" by (simp add: drain_idle)
    from Cons.IH [OF idle] None d app show ?thesis
      by (auto split: prod.splits)
  qed
qed

end

end
