(* ===== verification/InstanceConfig.thy ===== *)
theory InstanceConfig
  imports Prelude
begin

text \<open>
  The plain data of \<^verbatim>\<open>include/ovpn2ss/InstanceConfig.h\<close> and
  \<^verbatim>\<open>include/ovpn2ss/PacketBuffer.h\<close>: configuration of an instance, of the
  in-memory tunnel, and Shadowsocks target addresses.

  A \<^verbatim>\<open>PacketBuffer\<close> owns a byte vector; its operations are those of the list of
  its bytes, so the development uses \<^typ>\<open>bytes\<close> for it. A filesystem path is the
  string it is built from.
\<close>

record ShadowsocksConfig =
  listen_host :: string
  tcp_port :: u16
  udp_port :: u16
  ss_method :: string
  password :: string

definition default_ShadowsocksConfig :: ShadowsocksConfig where
  "default_ShadowsocksConfig =
     \<lparr>listen_host = ''127.0.0.1'', tcp_port = 0, udp_port = 0,
      ss_method = ''chacha20-ietf-poly1305'', password = ''''\<rparr>"

record InstanceConfig =
  name :: string
  ovpn_path :: string
  shadowsocks :: ShadowsocksConfig
  udp_enabled :: bool
  vpn_username :: string
  vpn_password :: string

definition default_InstanceConfig :: InstanceConfig where
  "default_InstanceConfig =
     \<lparr>name = '''', ovpn_path = '''', shadowsocks = default_ShadowsocksConfig,
      udp_enabled = True, vpn_username = '''', vpn_password = ''''\<rparr>"

record ManagerConfig =
  json_path :: string
  instances :: "InstanceConfig list"

record TunAddress =
  tun_address :: string
  tun_gateway :: string
  prefix_length :: int
  tun_ipv6 :: bool
  net30 :: bool

record TunConfig =
  addresses :: "TunAddress list"
  ipv4_dns :: "string list"
  ipv6_dns :: "string list"
  mtu :: int

definition default_TunConfig :: TunConfig where
  "default_TunConfig = \<lparr>addresses = [], ipv4_dns = [], ipv6_dns = [], mtu = 1500\<rparr>"

text \<open>
  \<^verbatim>\<open>enum class AddressType : std::uint8_t\<close> has three enumerators, but a cast puts
  any byte into it; the other bytes are kept in \<open>OtherType\<close>.
\<close>

datatype AddressType = Ipv4 | Domain | Ipv6 | OtherType byte

definition AddressType_of_byte :: "byte \<Rightarrow> AddressType" where
  "AddressType_of_byte b =
     (if b = 1 then Ipv4 else if b = 3 then Domain else if b = 4 then Ipv6 else OtherType b)"

fun byte_of_AddressType :: "AddressType \<Rightarrow> byte" where
  "byte_of_AddressType Ipv4 = 1"
| "byte_of_AddressType Domain = 3"
| "byte_of_AddressType Ipv6 = 4"
| "byte_of_AddressType (OtherType b) = b"

record TargetAddress =
  addr_type :: AddressType
  host :: string
  port :: u16

lemma byte_of_AddressType_of_byte [simp]: "byte_of_AddressType (AddressType_of_byte b) = b"
  by (simp add: AddressType_of_byte_def)

lemma AddressType_of_byte_simps [simp]:
  "AddressType_of_byte 1 = Ipv4"
  "AddressType_of_byte 3 = Domain"
  "AddressType_of_byte 4 = Ipv6"
  by (simp_all add: AddressType_of_byte_def)

lemma AddressType_of_byte_eq:
  "AddressType_of_byte b = Ipv4 \<longleftrightarrow> b = 1"
  "AddressType_of_byte b = Domain \<longleftrightarrow> b = 3"
  "AddressType_of_byte b = Ipv6 \<longleftrightarrow> b = 4"
  by (auto simp: AddressType_of_byte_def)

section \<open>Packet buffers\<close>

definition PacketBuffer_new :: "nat \<Rightarrow> bytes" where
  "PacketBuffer_new n = replicate n 0"

definition PacketBuffer_append :: "bytes \<Rightarrow> bytes \<Rightarrow> bytes" where
  "PacketBuffer_append buf bs = buf @ bs"

definition PacketBuffer_resize :: "bytes \<Rightarrow> nat \<Rightarrow> bytes" where
  "PacketBuffer_resize buf n = take n buf @ replicate (n - length buf) 0"

definition PacketBuffer_release :: "bytes \<Rightarrow> bytes \<times> bytes" where
  "PacketBuffer_release buf = (buf, [])"

lemma PacketBuffer_new_length [simp]: "length (PacketBuffer_new n) = n"
  by (simp add: PacketBuffer_new_def)

lemma PacketBuffer_resize_length [simp]: "length (PacketBuffer_resize buf n) = n"
  by (simp add: PacketBuffer_resize_def)

end
