(* ===== verification/ShadowsocksAead.thy ===== *)
theory ShadowsocksAead
  imports InstanceConfig
begin

text \<open>
  The classic Shadowsocks AEAD layer, \<^verbatim>\<open>src/src/ShadowsocksAead.cpp\<close> lines
  1 to 269: key derivation, the session object with its two keys and nonces, TCP chunks and
  UDP packets. The cryptographic primitives are mbedTLS, which is not part of the
  repository: they are the record \<open>mbedtls\<close>, an argument of every operation that calls
  them, and \<open>drbg\<close> is the random generator behind \<^verbatim>\<open>random_bytes\<close>.
\<close>

section \<open>The mbedTLS interface\<close>

text \<open>
  A call whose return code is not 0 is \<open>None\<close> (or \<open>False\<close> for
  \<^verbatim>\<open>mbedtls_chachapoly_setkey\<close>).
  \<^item> \<open>md5\<close>: digest of a message;
  \<^item> \<open>hkdf_sha1 salt ikm info len\<close>: \<^verbatim>\<open>mbedtls_hkdf\<close> with SHA-1;
  \<^item> \<open>encrypt_and_tag key nonce plain\<close>: cipher text and tag, no associated data;
  \<^item> \<open>auth_decrypt key nonce tag cipher\<close>: the plain text if the tag is right.
\<close>

record mbedtls =
  md5 :: "bytes \<Rightarrow> bytes"
  hkdf_sha1 :: "bytes \<Rightarrow> bytes \<Rightarrow> bytes \<Rightarrow> nat \<Rightarrow> bytes option"
  chachapoly_setkey :: "bytes \<Rightarrow> bool"
  encrypt_and_tag :: "bytes \<Rightarrow> bytes \<Rightarrow> bytes \<Rightarrow> (bytes \<times> bytes) option"
  auth_decrypt :: "bytes \<Rightarrow> bytes \<Rightarrow> bytes \<Rightarrow> bytes \<Rightarrow> bytes option"

record drbg =
  drbg_seed :: bool
  drbg_random :: "nat \<Rightarrow> bytes option"

section \<open>Random bytes\<close>

definition Csprng_new :: "drbg \<Rightarrow> unit result" where
  "Csprng_new d =
     (if drbg_seed d then Inr () else Inl (RuntimeError ''mbedTLS CTR_DRBG seed failed''))"

definition Csprng_fill :: "drbg \<Rightarrow> nat \<Rightarrow> bytes result" where
  "Csprng_fill d n =
     (if n = 0 then Inr []
      else case drbg_random d n of
        None \<Rightarrow> Inl (RuntimeError ''mbedTLS CTR_DRBG random failed'')
      | Some bs \<Rightarrow> Inr bs)"

definition random_bytes :: "drbg \<Rightarrow> nat \<Rightarrow> bytes result" where
  "random_bytes d n = bind_result (Csprng_new d) (\<lambda>_. Csprng_fill d n)"

section \<open>Key derivation\<close>

abbreviation (input) KeySize :: nat where "KeySize \<equiv> 32"
abbreviation (input) SaltSize :: nat where "SaltSize \<equiv> 32"
abbreviation (input) TagSize :: nat where "TagSize \<equiv> 16"
abbreviation (input) NonceSize :: nat where "NonceSize \<equiv> 12"

text \<open>
  The loop of \<^verbatim>\<open>evp_bytes_to_key\<close>; \<open>digest\<close> is the 16-byte array that each
  round overwrites, \<open>key\<close> the 32-byte array that is filled from position \<open>produced\<close>.
\<close>

function evp_loop :: "mbedtls \<Rightarrow> bytes \<Rightarrow> bytes \<Rightarrow> bytes \<Rightarrow> nat \<Rightarrow> bytes" where
  "evp_loop c pw digest key produced =
     (if produced < KeySize then
        let digest' = md5 c ((if produced \<noteq> 0 then digest else []) @ pw);
            n = min 16 (KeySize - produced);
            key' = take produced key @ take n digest' @ drop (produced + n) key
        in evp_loop c pw digest' key' (produced + n)
      else key)"
  by pat_completeness auto
termination
  by (relation "measure (\<lambda>(c, pw, digest, key, produced). KeySize - produced)") auto

declare evp_loop.simps [simp del]

definition evp_bytes_to_key :: "mbedtls \<Rightarrow> string \<Rightarrow> bytes" where
  "evp_bytes_to_key c pw =
     evp_loop c (bytes_of_string pw) (replicate 16 0) (replicate KeySize 0) 0"

definition read_be16 :: "bytes \<Rightarrow> u16 result" where
  "read_be16 bs =
     bind_result (span_at bs 0) (\<lambda>b0. bind_result (span_at bs 1) (\<lambda>b1.
       Inr (push_bit 8 (ucast b0) OR ucast b1)))"

definition append_be16 :: "bytes \<Rightarrow> u16 \<Rightarrow> bytes" where
  "append_be16 out v = PacketBuffer_append out [ucast (drop_bit 8 v), ucast (v AND 0xff)]"

section \<open>The session\<close>

record ShadowsocksAeadSession =
  master_key :: bytes
  send_key :: bytes
  recv_key :: bytes
  send_nonce :: bytes
  recv_nonce :: bytes
  have_recv_key :: bool
  sent_salt :: bool

definition ShadowsocksAeadSession_new :: "bytes \<Rightarrow> ShadowsocksAeadSession" where
  "ShadowsocksAeadSession_new mk =
     \<lparr>master_key = mk, send_key = replicate KeySize 0, recv_key = replicate KeySize 0,
      send_nonce = replicate NonceSize 0, recv_nonce = replicate NonceSize 0,
      have_recv_key = False, sent_salt = False\<rparr>"

definition derive_subkey :: "mbedtls \<Rightarrow> ShadowsocksAeadSession \<Rightarrow> bytes \<Rightarrow> bytes result" where
  "derive_subkey c s salt =
     (case hkdf_sha1 c salt (master_key s) (bytes_of_string ''ss-subkey'') KeySize of
        None \<Rightarrow> Inl (RuntimeError ''mbedTLS HKDF failed'')
      | Some k \<Rightarrow> Inr k)"

text \<open>
  \<^verbatim>\<open>next\<close> has type \<^verbatim>\<open>int\<close>: the sum of an \<^verbatim>\<open>unsigned char\<close>
  and 1 is computed after integer promotion, and is narrowed only when it is stored.
\<close>

fun increment_nonce :: "bytes \<Rightarrow> bytes" where
  "increment_nonce [] = []"
| "increment_nonce (b # bs) =
     (let nxt = uint b + 1; b' = word_of_int nxt
      in if nxt \<noteq> 0 then b' # bs else b' # increment_nonce bs)"

text \<open>The result is (cipher text, tag, new nonce).\<close>

definition crypt :: "mbedtls \<Rightarrow> bytes \<Rightarrow> bytes \<Rightarrow> bytes \<Rightarrow> (bytes \<times> bytes \<times> bytes) result" where
  "crypt c key nonce input =
     (if \<not> chachapoly_setkey c key then Inl (RuntimeError ''mbedTLS chachapoly encrypt failed'')
      else case encrypt_and_tag c key nonce input of
        None \<Rightarrow> Inl (RuntimeError ''mbedTLS chachapoly encrypt failed'')
      | Some (output, tag) \<Rightarrow> Inr (output, tag, increment_nonce nonce))"

text \<open>\<open>None\<close> is the return value \<^verbatim>\<open>false\<close>, which leaves the nonce alone.\<close>

definition decrypt :: "mbedtls \<Rightarrow> bytes \<Rightarrow> bytes \<Rightarrow> bytes \<Rightarrow> bytes \<Rightarrow> (bytes \<times> bytes) option" where
  "decrypt c key nonce input tag =
     (if \<not> chachapoly_setkey c key then None
      else case auth_decrypt c key nonce tag input of
        None \<Rightarrow> None
      | Some output \<Rightarrow> Some (output, increment_nonce nonce))"

text \<open>
  A key derivation that fails may leave \<^verbatim>\<open>send_key_\<close> partly written; here it stays as it was. The
  exception closes the session, which encrypts nothing more.
\<close>

definition client_salt ::
  "mbedtls \<Rightarrow> drbg \<Rightarrow> ShadowsocksAeadSession \<Rightarrow> (bytes \<times> ShadowsocksAeadSession) result" where
  "client_salt c d s =
     bind_result (random_bytes d SaltSize) (\<lambda>salt.
     bind_result (derive_subkey c s salt) (\<lambda>k.
       Inr (salt, s\<lparr>send_key := k, send_nonce := replicate NonceSize 0, sent_salt := True\<rparr>)))"

definition set_client_salt ::
  "mbedtls \<Rightarrow> bytes \<Rightarrow> ShadowsocksAeadSession \<Rightarrow> ShadowsocksAeadSession result" where
  "set_client_salt c salt s =
     (if length salt \<noteq> SaltSize then Inl (RuntimeError ''invalid Shadowsocks AEAD salt size'')
      else bind_result (derive_subkey c s salt) (\<lambda>k.
        Inr (s\<lparr>recv_key := k, recv_nonce := replicate NonceSize 0, have_recv_key := True\<rparr>)))"

text \<open>
  The session is returned beside the result: when the second encryption fails, the nonce
  has already moved past the first.
\<close>

definition encrypt_tcp_chunk ::
  "mbedtls \<Rightarrow> bytes \<Rightarrow> ShadowsocksAeadSession \<Rightarrow> bytes result \<times> ShadowsocksAeadSession" where
  "encrypt_tcp_chunk c plain s =
     (if \<not> sent_salt s then (Inl (RuntimeError ''send salt not initialized''), s)
      else if length plain > 0x3fff then
        (Inl (RuntimeError ''Shadowsocks AEAD TCP chunk too large''), s)
      else
        let n = word_of_nat (length plain) :: u16;
            len_plain = [ucast (drop_bit 8 n), ucast (n AND 0xff)]
        in case crypt c (send_key s) (send_nonce s) len_plain of
             Inl e \<Rightarrow> (Inl e, s)
           | Inr (len_cipher, len_tag, nonce1) \<Rightarrow>
             (let s1 = s\<lparr>send_nonce := nonce1\<rparr>;
                  out = PacketBuffer_append (PacketBuffer_append [] len_cipher) len_tag
              in case crypt c (send_key s1) (send_nonce s1) plain of
                   Inl e \<Rightarrow> (Inl e, s1)
                 | Inr (payload_cipher, payload_tag, nonce2) \<Rightarrow>
                   (Inr (PacketBuffer_append (PacketBuffer_append out payload_cipher) payload_tag),
                    s1\<lparr>send_nonce := nonce2\<rparr>)))"

text \<open>
  \<^verbatim>\<open>decrypt_tcp_chunk\<close> writes \<^verbatim>\<open>recv_nonce_\<close> and the caller's view only
  when it returns a chunk: the result is the chunk, the rest of the view and the session.
\<close>

definition decrypt_tcp_chunk ::
  "mbedtls \<Rightarrow> ShadowsocksAeadSession \<Rightarrow> bytes \<Rightarrow>
     (bytes \<times> bytes \<times> ShadowsocksAeadSession) option result" where
  "decrypt_tcp_chunk c s stream =
     (if \<not> have_recv_key s \<or> length stream < 2 + TagSize then Inr None
      else
        bind_result (subspan stream 0 2) (\<lambda>len_cipher.
        bind_result (subspan stream 2 TagSize) (\<lambda>len_tag.
        case decrypt c (recv_key s) (recv_nonce s) len_cipher len_tag of
          None \<Rightarrow> Inl (RuntimeError ''invalid Shadowsocks AEAD TCP length tag'')
        | Some (len_plain, trial_nonce) \<Rightarrow>
          bind_result (read_be16 len_plain) (\<lambda>len16.
          let payload_len = unat (len16 AND 0x3fff);
              need = 2 + TagSize + payload_len + TagSize
          in if length stream < need then Inr None
             else
               bind_result (subspan stream (2 + TagSize) payload_len) (\<lambda>payload.
               bind_result (subspan stream (2 + TagSize + payload_len) TagSize) (\<lambda>payload_tag.
               case decrypt c (recv_key s) trial_nonce payload payload_tag of
                 None \<Rightarrow> Inl (RuntimeError ''invalid Shadowsocks AEAD TCP payload tag'')
               | Some (plain, trial_nonce') \<Rightarrow>
                 bind_result (span_from stream need) (\<lambda>rest.
                   Inr (Some (plain, rest, s\<lparr>recv_nonce := trial_nonce'\<rparr>)))))))))"

definition encrypt_udp_packet ::
  "mbedtls \<Rightarrow> drbg \<Rightarrow> bytes \<Rightarrow> ShadowsocksAeadSession \<Rightarrow> bytes result \<times> ShadowsocksAeadSession" where
  "encrypt_udp_packet c d plain s =
     (case client_salt c d s of
        Inl e \<Rightarrow> (Inl e, s)
      | Inr (salt, s1) \<Rightarrow>
        (case crypt c (send_key s1) (send_nonce s1) plain of
           Inl e \<Rightarrow> (Inl e, s1)
         | Inr (cipher, tag, nonce1) \<Rightarrow>
           (Inr (PacketBuffer_append (PacketBuffer_append (PacketBuffer_append [] salt) cipher) tag),
            s1\<lparr>send_nonce := nonce1\<rparr>)))"

definition decrypt_udp_packet ::
  "mbedtls \<Rightarrow> ShadowsocksAeadSession \<Rightarrow> bytes \<Rightarrow> bytes option result" where
  "decrypt_udp_packet c s encrypted =
     (if length encrypted < SaltSize + TagSize then Inr None
      else
        bind_result (subspan encrypted 0 SaltSize) (\<lambda>salt.
        bind_result (derive_subkey c s salt) (\<lambda>key.
        let body_len = length encrypted - SaltSize - TagSize
        in
        bind_result (subspan encrypted SaltSize body_len) (\<lambda>body.
        bind_result (subspan encrypted (SaltSize + body_len) TagSize) (\<lambda>tag.
        case decrypt c key (replicate NonceSize 0) body tag of
          None \<Rightarrow> Inr None
        | Some (plain, _) \<Rightarrow> Inr (Some plain))))))"

record ShadowsocksAeadFactory =
  factory_key :: bytes

definition ShadowsocksAeadFactory_new :: "mbedtls \<Rightarrow> string \<Rightarrow> ShadowsocksAeadFactory" where
  "ShadowsocksAeadFactory_new c pw = \<lparr>factory_key = evp_bytes_to_key c pw\<rparr>"

definition make_session :: "ShadowsocksAeadFactory \<Rightarrow> ShadowsocksAeadSession" where
  "make_session f = ShadowsocksAeadSession_new (factory_key f)"

text \<open>
  The loop \<^verbatim>\<open>while (auto chunk = crypto_.decrypt_tcp_chunk(view))\<close> of
  \<^verbatim>\<open>TcpRelaySession::read_encrypted_stream\<close>, without what the session does with
  each chunk. It ends because each chunk is taken off the view.
\<close>

lemma decrypt_tcp_chunk_shorter:
  "decrypt_tcp_chunk c s v = Inr (Some (p, r, t)) \<Longrightarrow> length r < length v"
  by (auto simp: decrypt_tcp_chunk_def Let_def bind_result_conv span_from_def
      split: if_splits option.splits)

function decrypt_all :: "mbedtls \<Rightarrow> ShadowsocksAeadSession \<Rightarrow> bytes \<Rightarrow> ShadowsocksAeadSession drained" where
  "decrypt_all c s v =
     (case decrypt_tcp_chunk c s v of
        Inl e \<Rightarrow> ([], Some e, v, s)
      | Inr None \<Rightarrow> ([], None, v, s)
      | Inr (Some (p, r, t)) \<Rightarrow>
          (case decrypt_all c t r of (ps, e, r', u) \<Rightarrow> (p # ps, e, r', u)))"
  by pat_completeness auto
termination
  by (relation "measure (\<lambda>(c, s, v). length v)") (auto dest: decrypt_tcp_chunk_shorter)

declare decrypt_all.simps [simp del]

section \<open>What the code relies on of mbedTLS\<close>

text \<open>
  \<open>mbedtls_buffers\<close>: each call fills an output buffer of a fixed size. \<open>aead_laws\<close>:
  with a 32-byte key and a 12-byte nonce the calls succeed, and decrypting with the same
  key and nonce undoes the encryption. \<open>hkdf_total\<close>: the key derivation succeeds for
  every length it supports, 255 times the size of a SHA-1 hash. \<open>drbg_laws\<close>: the generator is
  seeded and delivers requests up to its limit of 1024 bytes. The code asks both for 32 bytes.
\<close>

definition mbedtls_buffers :: "mbedtls \<Rightarrow> bool" where
  "mbedtls_buffers c \<longleftrightarrow>
     (\<forall>m. length (md5 c m) = 16) \<and>
     (\<forall>salt ikm info n k. hkdf_sha1 c salt ikm info n = Some k \<longrightarrow> length k = n) \<and>
     (\<forall>k n m ct tag. encrypt_and_tag c k n m = Some (ct, tag) \<longrightarrow>
        length ct = length m \<and> length tag = TagSize) \<and>
     (\<forall>k n tag ct m. auth_decrypt c k n tag ct = Some m \<longrightarrow> length m = length ct)"

definition aead_laws :: "mbedtls \<Rightarrow> bool" where
  "aead_laws c \<longleftrightarrow>
     (\<forall>k n m. length k = KeySize \<longrightarrow> length n = NonceSize \<longrightarrow>
        chachapoly_setkey c k \<and>
        (\<exists>ct tag. encrypt_and_tag c k n m = Some (ct, tag) \<and> auth_decrypt c k n tag ct = Some m))"

definition hkdf_total :: "mbedtls \<Rightarrow> bool" where
  "hkdf_total c \<longleftrightarrow> (\<forall>salt ikm info n. n \<le> 255 * 20 \<longrightarrow> hkdf_sha1 c salt ikm info n \<noteq> None)"

definition drbg_laws :: "drbg \<Rightarrow> bool" where
  "drbg_laws d \<longleftrightarrow> drbg_seed d \<and> (\<forall>n \<le> 1024. \<exists>bs. drbg_random d n = Some bs \<and> length bs = n)"

text \<open>A call of the generator that succeeds has filled the buffer it was given.\<close>

definition drbg_fills :: "drbg \<Rightarrow> bool" where
  "drbg_fills d \<longleftrightarrow> (\<forall>n bs. drbg_random d n = Some bs \<longrightarrow> length bs = n)"

section \<open>Nonces\<close>

lemma increment_nonce_Cons: "increment_nonce (b # bs) = (b + 1) # bs"
proof -
  have "0 \<le> uint b" by simp
  then have "uint b + 1 \<noteq> 0" by linarith
  then show ?thesis by (simp add: Let_def)
qed

lemma increment_nonce_length [simp]: "length (increment_nonce n) = length n"
  by (induction n rule: increment_nonce.induct) (simp_all add: Let_def)

lemma increment_nonce_funpow:
  "(increment_nonce ^^ k) (b # bs) = (b + word_of_nat k) # bs"
  by (induction k) (simp_all add: increment_nonce_Cons ac_simps del: increment_nonce.simps)

lemma increment_nonce_period: "(increment_nonce ^^ 256) n = n"
proof (cases n)
  case Nil
  have "(increment_nonce ^^ k) [] = []" for k by (induction k) simp_all
  with Nil show ?thesis by simp
next
  case (Cons b bs)
  then show ?thesis by (simp only: increment_nonce_funpow) simp
qed

lemma increment_nonce_distinct:
  assumes "n \<noteq> []" and "i < 256" and "j < 256" and "(increment_nonce ^^ i) n = (increment_nonce ^^ j) n"
  shows "i = j"
proof -
  obtain b bs where n: "n = b # bs" using assms(1) by (cases n) auto
  with assms(4) have "(word_of_nat i :: byte) = word_of_nat j"
    by (simp only: increment_nonce_funpow) simp
  then have "unat (word_of_nat i :: byte) = unat (word_of_nat j :: byte)" by simp
  with assms(2,3) show ?thesis by (simp add: unsigned_of_nat take_bit_nat_eq_self)
qed

section \<open>The length field\<close>

definition get_be16 :: "bytes \<Rightarrow> nat \<Rightarrow> u16 result" where
  "get_be16 bs i = bind_result (span_from bs i) read_be16"

lemma read_be16_Inr: "2 \<le> length bs \<Longrightarrow> read_be16 bs = Inr (push_bit 8 (ucast (bs ! 0)) OR ucast (bs ! 1))"
  by (cases bs rule: list.exhaust; cases "tl bs" rule: list.exhaust)
    (auto simp: read_be16_def span_at_def)

interpretation ss16: be16_field "append_be16 []" get_be16
proof
  fix v :: u16 and xs ys bs :: bytes and i :: nat
  show "length (append_be16 [] v) = 2"
    by (simp add: append_be16_def PacketBuffer_append_def)
  show "get_be16 (xs @ append_be16 [] v @ ys) (length xs) = Inr v"
    by (simp add: get_be16_def append_be16_def PacketBuffer_append_def span_simps read_be16_Inr
        be16_join_split)
  show "append_be16 [] v = bs" if "length bs = 2" and "get_be16 bs 0 = Inr v"
  proof -
    from that(1) obtain a b where bs: "bs = [a, b]"
      by (auto simp: numeral_2_eq_2 length_Suc_conv)
    with that(2) have "v = push_bit 8 (ucast a) OR ucast b"
      by (simp add: get_be16_def span_simps read_be16_Inr)
    then have "append_be16 [] v = [ucast (drop_bit 8 (push_bit 8 (ucast a) OR ucast b :: u16)),
        ucast ((push_bit 8 (ucast a) OR ucast b :: u16) AND 0xff)]"
      by (simp only: append_be16_def PacketBuffer_append_def append_Nil)
    then show ?thesis by (simp only: bs be16_high be16_low)
  qed
  show "\<exists>v. get_be16 bs i = Inr v" if "i + 2 \<le> length bs"
    using that by (simp add: get_be16_def span_simps read_be16_Inr)
qed

lemma read_be16_append [simp]: "read_be16 (append_be16 [] v) = Inr v"
  using ss16.get_head [of v "[]"] by (simp add: get_be16_def span_simps)

lemma read_be16_len_bytes: "read_be16 [ucast (drop_bit 8 v), ucast (v AND 0xff)] = Inr v"
  using read_be16_append [of v] by (simp add: append_be16_def PacketBuffer_append_def)

lemma and_3fff: "(v :: u16) AND 0x3fff = take_bit 14 v"
  by (simp add: take_bit_eq_mask mask_eq_exp_minus_1)

lemma payload_len_bound: "unat ((v :: u16) AND 0x3fff) \<le> 0x3fff"
proof -
  have "unat (take_bit 14 v) < 2 ^ 14"
    unfolding unsigned_take_bit_eq by (rule take_bit_nat_less_exp)
  then show ?thesis by (simp add: and_3fff)
qed

lemma payload_len_decode: "n \<le> 0x3fff \<Longrightarrow> unat ((word_of_nat n :: u16) AND 0x3fff) = n"
  by (simp add: and_3fff unsigned_take_bit_eq unsigned_of_nat take_bit_nat_eq_self)

section \<open>The TCP decoder\<close>

lemma decrypt_tcp_chunk_eq:
  "decrypt_tcp_chunk c s v =
     (if \<not> have_recv_key s \<or> length v < 18 then Inr None
      else case decrypt c (recv_key s) (recv_nonce s) (take 2 v) (take 16 (drop 2 v)) of
        None \<Rightarrow> Inl (RuntimeError ''invalid Shadowsocks AEAD TCP length tag'')
      | Some (len_plain, trial) \<Rightarrow>
        bind_result (read_be16 len_plain) (\<lambda>len16.
          if length v < 34 + unat (len16 AND 0x3fff) then Inr None
          else case decrypt c (recv_key s) trial (take (unat (len16 AND 0x3fff)) (drop 18 v))
                 (take 16 (drop (18 + unat (len16 AND 0x3fff)) v)) of
            None \<Rightarrow> Inl (RuntimeError ''invalid Shadowsocks AEAD TCP payload tag'')
          | Some (plain, trial') \<Rightarrow>
            Inr (Some (plain, drop (34 + unat (len16 AND 0x3fff)) v, s\<lparr>recv_nonce := trial'\<rparr>))))"
  by (auto simp: decrypt_tcp_chunk_def Let_def span_simps add.assoc bind_result_def
      split: option.splits sum.splits)

lemma decrypt_tcp_chunk_extend_chunk:
  assumes "decrypt_tcp_chunk c s v = Inr (Some (p, r, t))"
  shows "decrypt_tcp_chunk c s (v @ w) = Inr (Some (p, r @ w, t))"
proof -
  from assms obtain lp tr n tr' where "have_recv_key s" "18 \<le> length v"
    "decrypt c (recv_key s) (recv_nonce s) (take 2 v) (take 16 (drop 2 v)) = Some (lp, tr)"
    "read_be16 lp = Inr n" "34 + unat (n AND 0x3fff) \<le> length v"
    "decrypt c (recv_key s) tr (take (unat (n AND 0x3fff)) (drop 18 v))
       (take 16 (drop (18 + unat (n AND 0x3fff)) v)) = Some (p, tr')"
    "r = drop (34 + unat (n AND 0x3fff)) v" "t = s\<lparr>recv_nonce := tr'\<rparr>"
    by (auto simp: decrypt_tcp_chunk_eq bind_result_conv split: if_splits option.splits)
  then show ?thesis by (simp add: decrypt_tcp_chunk_eq)
qed

lemma decrypt_tcp_chunk_extend_error:
  assumes "decrypt_tcp_chunk c s v = Inl e"
  shows "decrypt_tcp_chunk c s (v @ w) = Inl e"
proof -
  from assms have len: "have_recv_key s" "18 \<le> length v"
    by (auto simp: decrypt_tcp_chunk_eq split: if_splits)
  show ?thesis
  proof (cases "decrypt c (recv_key s) (recv_nonce s) (take 2 v) (take 16 (drop 2 v))")
    case None
    with assms len show ?thesis by (simp add: decrypt_tcp_chunk_eq)
  next
    case (Some q)
    with assms len show ?thesis
      by (cases q, cases "read_be16 (fst q)")
        (auto simp: decrypt_tcp_chunk_eq split: if_splits option.splits)
  qed
qed

interpretation tcp_stream: stream_decoder "decrypt_tcp_chunk c" "decrypt_all c" for c
proof
  fix s v p r t w e
  show "length r < length v" if "decrypt_tcp_chunk c s v = Inr (Some (p, r, t))"
    using that by (rule decrypt_tcp_chunk_shorter)
  show "decrypt_tcp_chunk c s (v @ w) = Inr (Some (p, r @ w, t))"
    if "decrypt_tcp_chunk c s v = Inr (Some (p, r, t))"
    using that by (rule decrypt_tcp_chunk_extend_chunk)
  show "decrypt_tcp_chunk c s (v @ w) = Inl e" if "decrypt_tcp_chunk c s v = Inl e"
    using that by (rule decrypt_tcp_chunk_extend_error)
  show "decrypt_all c s v =
    (case decrypt_tcp_chunk c s v of
       Inl e \<Rightarrow> ([], Some e, v, s)
     | Inr None \<Rightarrow> ([], None, v, s)
     | Inr (Some (p, r, t)) \<Rightarrow> (case decrypt_all c t r of (ps, e, r', u) \<Rightarrow> (p # ps, e, r', u)))"
    by (rule decrypt_all.simps)
qed

section \<open>Encryption followed by decryption\<close>

lemma aead_seal:
  assumes "mbedtls_buffers c" "aead_laws c" "length k = KeySize" "length n = NonceSize"
  obtains ct tag where "crypt c k n m = Inr (ct, tag, increment_nonce n)"
    and "decrypt c k n ct tag = Some (m, increment_nonce n)"
    and "length ct = length m" and "length tag = TagSize"
proof -
  from assms(2-4) obtain ct tag where setkey: "chachapoly_setkey c k"
    and enc: "encrypt_and_tag c k n m = Some (ct, tag)" and dec: "auth_decrypt c k n tag ct = Some m"
    unfolding aead_laws_def by blast
  moreover from assms(1) enc have "length ct = length m" "length tag = TagSize"
    unfolding mbedtls_buffers_def by blast+
  ultimately show thesis
    by (intro that [of ct tag]) (simp_all add: crypt_def decrypt_def)
qed

text \<open>A sender and a receiver that agree on key and nonce.\<close>

definition in_sync :: "ShadowsocksAeadSession \<Rightarrow> ShadowsocksAeadSession \<Rightarrow> bool" where
  "in_sync tx rx \<longleftrightarrow>
     sent_salt tx \<and> have_recv_key rx \<and> recv_key rx = send_key tx \<and>
     recv_nonce rx = send_nonce tx \<and>
     length (send_key tx) = KeySize \<and> length (send_nonce tx) = NonceSize"

lemma encrypt_tcp_chunk_sync:
  assumes "mbedtls_buffers c" "aead_laws c" "in_sync tx rx" "length plain \<le> 0x3fff"
  obtains out where
    "encrypt_tcp_chunk c plain tx =
       (Inr out, tx\<lparr>send_nonce := increment_nonce (increment_nonce (send_nonce tx))\<rparr>)"
    and "length out = length plain + 34"
    and "\<And>rest. decrypt_tcp_chunk c rx (out @ rest) =
       Inr (Some (plain, rest, rx\<lparr>recv_nonce := increment_nonce (increment_nonce (send_nonce tx))\<rparr>))"
    and "\<And>part rest. out = part @ rest \<Longrightarrow> rest \<noteq> [] \<Longrightarrow> decrypt_tcp_chunk c rx part = Inr None"
proof -
  let ?k = "send_key tx" and ?n = "send_nonce tx"
  let ?l = "word_of_nat (length plain) :: u16"
  let ?lp = "[ucast (drop_bit 8 ?l), ucast (?l AND 0xff)] :: bytes"
  from assms(3) have len: "length ?k = KeySize" "length ?n = NonceSize" "length (increment_nonce ?n) = NonceSize"
    and s: "sent_salt tx" "have_recv_key rx" "recv_key rx = ?k" "recv_nonce rx = ?n"
    by (simp_all add: in_sync_def)
  obtain lc lt where L: "crypt c ?k ?n ?lp = Inr (lc, lt, increment_nonce ?n)"
    "decrypt c ?k ?n lc lt = Some (?lp, increment_nonce ?n)" "length lc = 2" "length lt = 16"
    using aead_seal [OF assms(1,2) len(1,2), of ?lp] by (metis (no_types, lifting) length_Cons list.size(3) numeral_2_eq_2)
  obtain pc pt where P: "crypt c ?k (increment_nonce ?n) plain = Inr (pc, pt, increment_nonce (increment_nonce ?n))"
    "decrypt c ?k (increment_nonce ?n) pc pt = Some (plain, increment_nonce (increment_nonce ?n))"
    "length pc = length plain" "length pt = 16"
    using aead_seal [OF assms(1,2) len(1,3), of plain] by metis
  note plen = payload_len_decode [OF assms(4)]
  let ?out = "lc @ lt @ pc @ pt"
  show thesis
  proof (rule that [of ?out])
    show "encrypt_tcp_chunk c plain tx = (Inr ?out, tx\<lparr>send_nonce := increment_nonce (increment_nonce ?n)\<rparr>)"
      using L(1) P(1) s(1) assms(4)
      by (simp add: encrypt_tcp_chunk_def Let_def PacketBuffer_append_def)
    show "length ?out = length plain + 34"
      using L P by simp
    show "decrypt_tcp_chunk c rx (?out @ rest) =
       Inr (Some (plain, rest, rx\<lparr>recv_nonce := increment_nonce (increment_nonce ?n)\<rparr>))" for rest
      using L P s by (simp add: decrypt_tcp_chunk_eq read_be16_len_bytes plen)
    show "decrypt_tcp_chunk c rx part = Inr None" if "?out = part @ rest" "rest \<noteq> []" for part rest
    proof (cases "length part < 18")
      case False
      have "length part < length ?out" using that by (metis length_append less_add_same_cancel1 length_greater_0_conv)
      moreover have "take 2 part = lc" "take 16 (drop 2 part) = lt"
        using arg_cong [OF that(1), of "take 2"] arg_cong [OF that(1), of "\<lambda>x. take 16 (drop 2 x)"] L(3,4) False
        by simp_all
      ultimately show ?thesis
        using L P s by (simp add: decrypt_tcp_chunk_eq read_be16_len_bytes plen)
    qed (simp add: decrypt_tcp_chunk_eq)
  qed
qed

text \<open>A sender encrypting a list of chunks, one call after the other.\<close>

fun encrypt_all :: "mbedtls \<Rightarrow> bytes list \<Rightarrow> ShadowsocksAeadSession \<Rightarrow> bytes result \<times> ShadowsocksAeadSession" where
  "encrypt_all c [] s = (Inr [], s)"
| "encrypt_all c (p # ps) s =
     (case encrypt_tcp_chunk c p s of
        (Inl e, t) \<Rightarrow> (Inl e, t)
      | (Inr out, t) \<Rightarrow>
          (case encrypt_all c ps t of
             (Inl e, u) \<Rightarrow> (Inl e, u)
           | (Inr outs, u) \<Rightarrow> (Inr (out @ outs), u)))"

lemma encrypt_all_sync:
  assumes "mbedtls_buffers c" "aead_laws c" "in_sync tx rx" "\<forall>p\<in>set ps. length p \<le> 0x3fff"
  shows "\<exists>out tx' rx'. encrypt_all c ps tx = (Inr out, tx') \<and> in_sync tx' rx' \<and>
    send_key tx' = send_key tx \<and>
    decrypt_all c rx out = (ps, None, [], rx')"
  using assms(3,4)
proof (induction ps arbitrary: tx rx)
  case Nil
  have "decrypt_all c rx [] = ([], None, [], rx)"
    by (subst decrypt_all.simps) (simp add: decrypt_tcp_chunk_eq)
  with Nil.prems show ?case by auto
next
  case (Cons p ps)
  let ?n = "increment_nonce (increment_nonce (send_nonce tx))"
  obtain out where E: "encrypt_tcp_chunk c p tx = (Inr out, tx\<lparr>send_nonce := ?n\<rparr>)"
    and D: "\<And>rest. decrypt_tcp_chunk c rx (out @ rest) = Inr (Some (p, rest, rx\<lparr>recv_nonce := ?n\<rparr>))"
    by (rule encrypt_tcp_chunk_sync [OF assms(1,2) Cons.prems(1), of p])
      (use Cons.prems(2) that in auto)
  have "in_sync (tx\<lparr>send_nonce := ?n\<rparr>) (rx\<lparr>recv_nonce := ?n\<rparr>)"
    using Cons.prems(1) by (simp add: in_sync_def)
  from Cons.IH [OF this] Cons.prems(2) obtain outs tx' rx' where
    R: "encrypt_all c ps (tx\<lparr>send_nonce := ?n\<rparr>) = (Inr outs, tx')" "in_sync tx' rx'"
      "send_key tx' = send_key tx"
      "decrypt_all c (rx\<lparr>recv_nonce := ?n\<rparr>) outs = (ps, None, [], rx')"
    by auto
  with E tcp_stream.drain_chunk [OF D R(4)] show ?case by auto
qed

lemma encrypt_tcp_chunk_nonce:
  "encrypt_tcp_chunk c p s = (Inr out, t) \<Longrightarrow>
   t = s\<lparr>send_nonce := increment_nonce (increment_nonce (send_nonce s))\<rparr>"
  by (auto simp: encrypt_tcp_chunk_def crypt_def Let_def split: if_splits sum.splits option.splits)

lemma encrypt_all_nonce:
  "encrypt_all c ps s = (Inr out, t) \<Longrightarrow>
   t = s\<lparr>send_nonce := (increment_nonce ^^ (2 * length ps)) (send_nonce s)\<rparr>"
proof (induction ps arbitrary: s out)
  case Nil
  then show ?case by simp
next
  case (Cons p ps)
  then obtain o1 s1 o2 where 1: "encrypt_tcp_chunk c p s = (Inr o1, s1)"
    and 2: "encrypt_all c ps s1 = (Inr o2, t)"
    by (auto split: sum.splits prod.splits)
  from Cons.IH [OF 2] encrypt_tcp_chunk_nonce [OF 1] have
    "t = s\<lparr>send_nonce := (increment_nonce ^^ (2 * length ps)) (increment_nonce (increment_nonce (send_nonce s)))\<rparr>"
    by simp
  moreover have "2 * length (p # ps) = Suc (Suc (2 * length ps))" by simp
  ultimately show ?case by (simp only: funpow_Suc_right o_apply)
qed

section \<open>Key agreement\<close>

lemma random_bytes_ok: "drbg_laws d \<Longrightarrow> n \<le> 1024 \<Longrightarrow> \<exists>bs. random_bytes d n = Inr bs \<and> length bs = n"
proof -
  assume "drbg_laws d" "n \<le> 1024"
  then obtain bs where "drbg_seed d" "drbg_random d n = Some bs" "length bs = n"
    unfolding drbg_laws_def by blast
  then show ?thesis by (cases "n = 0") (auto simp: random_bytes_def Csprng_new_def Csprng_fill_def)
qed

lemma derive_subkey_ok:
  assumes "mbedtls_buffers c" "hkdf_total c"
  shows "\<exists>k. derive_subkey c s salt = Inr k \<and> length k = KeySize"
proof -
  obtain k where "hkdf_sha1 c salt (master_key s) (bytes_of_string ''ss-subkey'') KeySize = Some k"
    using assms(2) unfolding hkdf_total_def by fastforce
  moreover from this assms(1) have "length k = KeySize"
    unfolding mbedtls_buffers_def by blast
  ultimately show ?thesis by (simp add: derive_subkey_def)
qed

lemma derive_subkey_master: "master_key s = master_key t \<Longrightarrow> derive_subkey c s salt = derive_subkey c t salt"
  by (simp add: derive_subkey_def)

lemma salt_handshake:
  assumes "mbedtls_buffers c" "hkdf_total c" "drbg_laws d" "master_key tx = master_key rx"
  shows "\<exists>salt tx' rx'. client_salt c d tx = Inr (salt, tx') \<and> set_client_salt c salt rx = Inr rx' \<and>
    length salt = SaltSize \<and> in_sync tx' rx'"
proof -
  obtain salt where r: "random_bytes d SaltSize = Inr salt" "length salt = SaltSize"
    using random_bytes_ok [OF assms(3), of SaltSize] by auto
  obtain k where k: "derive_subkey c tx salt = Inr k" "length k = KeySize"
    using derive_subkey_ok [OF assms(1,2)] by blast
  with derive_subkey_master [OF assms(4)] have "derive_subkey c rx salt = Inr k" by metis
  with r k show ?thesis by (auto simp: client_salt_def set_client_salt_def in_sync_def)
qed

lemma client_salt_length: "drbg_fills d \<Longrightarrow> client_salt c d s = Inr (salt, t) \<Longrightarrow> length salt = SaltSize"
  by (auto simp: client_salt_def random_bytes_def Csprng_fill_def drbg_fills_def bind_result_conv
      split: if_splits option.splits)

lemma client_salt_sync:
  assumes "mbedtls_buffers c" "client_salt c d tx = Inr (salt, tx')" "length salt = SaltSize" "master_key rx = master_key tx"
  shows "\<exists>rx'. set_client_salt c salt rx = Inr rx' \<and> in_sync tx' rx'"
proof -
  from assms(2) obtain k where k: "derive_subkey c tx salt = Inr k"
    and tx': "tx' = tx\<lparr>send_key := k, send_nonce := replicate NonceSize 0, sent_salt := True\<rparr>"
    by (auto simp: client_salt_def bind_result_conv)
  have "derive_subkey c rx salt = Inr k" using derive_subkey_master [OF assms(4)] k by metis
  moreover have "length k = KeySize"
    using k assms(1) by (auto simp: derive_subkey_def mbedtls_buffers_def split: option.splits)
  ultimately show ?thesis using assms(3) by (simp add: set_client_salt_def in_sync_def tx')
qed

lemma encrypt_all_bound: "encrypt_all c ps s = (Inr out, t) \<Longrightarrow> \<forall>p\<in>set ps. length p \<le> 0x3fff"
proof (induction ps arbitrary: s out)
  case (Cons p ps)
  then obtain o1 s1 o2 where 1: "encrypt_tcp_chunk c p s = (Inr o1, s1)" and 2: "encrypt_all c ps s1 = (Inr o2, t)"
    by (auto split: sum.splits prod.splits)
  from 1 have "length p \<le> 0x3fff" by (auto simp: encrypt_tcp_chunk_def split: if_splits)
  with Cons.IH [OF 2] show ?case by simp
qed simp

section \<open>UDP packets\<close>

lemma udp_packet_roundtrip:
  assumes "mbedtls_buffers c" "aead_laws c" "hkdf_total c" "drbg_laws d" "master_key tx = master_key rx"
  shows "\<exists>out tx'. encrypt_udp_packet c d plain tx = (Inr out, tx') \<and>
    length out = length plain + 48 \<and> decrypt_udp_packet c rx out = Inr (Some plain)"
proof -
  obtain salt where r: "random_bytes d SaltSize = Inr salt" "length salt = SaltSize"
    using random_bytes_ok [OF assms(4), of SaltSize] by auto
  obtain k where k: "derive_subkey c tx salt = Inr k" "length k = KeySize"
    using derive_subkey_ok [OF assms(1,3)] by blast
  with derive_subkey_master [OF assms(5)] have kr: "derive_subkey c rx salt = Inr k" by metis
  have z: "length (replicate NonceSize 0 :: bytes) = NonceSize" by simp
  obtain ct tag where A: "crypt c k (replicate NonceSize 0) plain = Inr (ct, tag, increment_nonce (replicate NonceSize 0))"
    "decrypt c k (replicate NonceSize 0) ct tag = Some (plain, increment_nonce (replicate NonceSize 0))"
    "length ct = length plain" "length tag = TagSize"
    by (rule aead_seal [OF assms(1,2) k(2) z])
  let ?out = "salt @ ct @ tag"
  have "decrypt_udp_packet c rx ?out = Inr (Some plain)"
    using r(2) A(2-4) kr by (simp add: decrypt_udp_packet_def Let_def span_simps)
  moreover have "\<exists>tx'. encrypt_udp_packet c d plain tx = (Inr ?out, tx')"
    using r k A(1) by (simp add: encrypt_udp_packet_def client_salt_def PacketBuffer_append_def)
  ultimately show ?thesis using r(2) A(3,4) by auto
qed

lemma decrypt_udp_packet_short: "length bs < 48 \<Longrightarrow> decrypt_udp_packet c s bs = Inr None"
  by (simp add: decrypt_udp_packet_def)

section \<open>Password to key\<close>

lemma evp_bytes_to_key_eq:
  assumes "mbedtls_buffers c"
  shows "evp_bytes_to_key c pw =
    md5 c (bytes_of_string pw) @ md5 c (md5 c (bytes_of_string pw) @ bytes_of_string pw)"
proof -
  have md5: "length (md5 c m) = 16" for m
    using assms by (simp add: mbedtls_buffers_def)
  show ?thesis
    unfolding evp_bytes_to_key_def
    by (simp add: evp_loop.simps [of c _ _ _ 0] evp_loop.simps [of c _ _ _ 16]
        evp_loop.simps [of c _ _ _ 32] Let_def md5)
qed

lemma evp_bytes_to_key_length: "mbedtls_buffers c \<Longrightarrow> length (evp_bytes_to_key c pw) = KeySize"
  by (simp add: evp_bytes_to_key_eq mbedtls_buffers_def)

section \<open>Memory safety\<close>

lemma decrypt_tcp_chunk_in_bounds:
  assumes "mbedtls_buffers c"
  shows "decrypt_tcp_chunk c s v \<noteq> Inl OutOfBounds"
proof -
  have len: "read_be16 lp \<noteq> Inl OutOfBounds"
    if "decrypt c k n (take 2 v) tag = Some (lp, t)" "18 \<le> length v" for k n tag lp t
  proof -
    from that(1) have "auth_decrypt c k n tag (take 2 v) = Some lp"
      by (auto simp: decrypt_def split: if_splits option.splits)
    with assms have "length lp = length (take 2 v)" unfolding mbedtls_buffers_def by blast
    with that(2) show ?thesis by (simp add: read_be16_Inr)
  qed
  show ?thesis
    by (auto simp: decrypt_tcp_chunk_eq bind_result_eq_Inl dest: len split: if_splits option.splits)
qed

lemma decrypt_udp_packet_in_bounds: "decrypt_udp_packet c s bs \<noteq> Inl OutOfBounds"
  by (auto simp: decrypt_udp_packet_def Let_def span_simps bind_result_eq_Inl derive_subkey_def
      split: if_splits option.splits)

section \<open>An instance of the primitives\<close>

text \<open>
  A cipher that is not secure but has the laws: it shows that the hypotheses about mbedTLS
  can hold together. Keys are checked for their length, the cipher text is the plain text
  xor the first key byte, the tag is made of the nonce and the start of the key.
\<close>

definition xor_mbedtls :: mbedtls where
  "xor_mbedtls =
     \<lparr>md5 = (\<lambda>m. replicate 16 (foldr (XOR) m 0)),
      hkdf_sha1 = (\<lambda>salt ikm info n. Some (take n (map2 (XOR) salt ikm @ replicate n 0))),
      chachapoly_setkey = (\<lambda>k. length k = KeySize),
      encrypt_and_tag = (\<lambda>k n m. if length k = KeySize \<and> length n = NonceSize
         then Some (map (\<lambda>b. b XOR hd k) m, n @ take 4 k) else None),
      auth_decrypt = (\<lambda>k n tag ct. if tag = n @ take 4 k then Some (map (\<lambda>b. b XOR hd k) ct) else None)\<rparr>"

definition counting_drbg :: drbg where
  "counting_drbg = \<lparr>drbg_seed = True, drbg_random = (\<lambda>n. Some (map word_of_nat [0..<n]))\<rparr>"

lemma xor_mbedtls_laws: "mbedtls_buffers xor_mbedtls" "aead_laws xor_mbedtls" "hkdf_total xor_mbedtls"
  by (auto simp: mbedtls_buffers_def aead_laws_def hkdf_total_def xor_mbedtls_def xor.assoc comp_def)

lemma counting_drbg_laws: "drbg_laws counting_drbg" "drbg_fills counting_drbg"
  by (simp_all add: drbg_laws_def drbg_fills_def counting_drbg_def)

text \<open>A sender in the middle of a connection.\<close>

definition example_sender :: ShadowsocksAeadSession where
  "example_sender = (ShadowsocksAeadSession_new (replicate 32 5))\<lparr>sent_salt := True, have_recv_key := True\<rparr>"

lemma example_sender_sync: "in_sync example_sender example_sender"
  by (simp add: in_sync_def example_sender_def ShadowsocksAeadSession_new_def)

lemma example_sender_encrypts:
  "\<forall>p\<in>set ps. length p \<le> 0x3fff \<Longrightarrow> \<exists>out t. encrypt_all xor_mbedtls ps example_sender = (Inr out, t)"
  using encrypt_all_sync [OF xor_mbedtls_laws(1,2) example_sender_sync] by blast

section \<open>Properties\<close>

text \<open>
  (C1) Whatever the network does to segment boundaries, a receiver that feeds the fragments
  of the stream to \<^verbatim>\<open>decrypt_tcp_chunk\<close> as they arrive obtains exactly the chunks
  the sender encrypted, in order, with nothing left over. Both ends have a session from a
  factory with the same password; the sender's salt opens the stream.
\<close>

theorem tcp_stream_roundtrip:
  assumes "mbedtls_buffers c" "aead_laws c" "hkdf_total c" "drbg_laws d"
    and "\<forall>p\<in>set ps. length p \<le> 0x3fff"
  shows "\<exists>salt tx out tx' rx rx'.
    client_salt c d (make_session (ShadowsocksAeadFactory_new c pw)) = Inr (salt, tx) \<and>
    encrypt_all c ps tx = (Inr out, tx') \<and>
    set_client_salt c salt (make_session (ShadowsocksAeadFactory_new c pw)) = Inr rx \<and>
    (\<forall>fs. concat fs = out \<longrightarrow> feed (decrypt_all c) rx [] fs = (ps, None, [], rx'))"
proof -
  obtain salt tx rx where h:
    "client_salt c d (make_session (ShadowsocksAeadFactory_new c pw)) = Inr (salt, tx)"
    "set_client_salt c salt (make_session (ShadowsocksAeadFactory_new c pw)) = Inr rx" "in_sync tx rx"
    using salt_handshake [OF assms(1,3,4) refl] by blast
  obtain out tx' rx' where e: "encrypt_all c ps tx = (Inr out, tx')" "decrypt_all c rx out = (ps, None, [], rx')"
    using encrypt_all_sync [OF assms(1,2) h(3) assms(5)] by blast
  have "decrypt_all c rx [] = ([], None, [], rx)"
    by (rule tcp_stream.drain_stop) (simp add: decrypt_tcp_chunk_eq)
  from tcp_stream.feed_drain [OF this] e(2)
  have "feed (decrypt_all c) rx [] fs = (ps, None, [], rx')" if "concat fs = out" for fs
    using that by (metis append_Nil fst_conv snd_conv)
  with h e show ?thesis by blast
qed

theorem tcp_stream_roundtrip_witness:
  "\<exists>salt tx out tx' rx rx'.
    client_salt xor_mbedtls counting_drbg (make_session (ShadowsocksAeadFactory_new xor_mbedtls ''pw'')) = Inr (salt, tx) \<and>
    encrypt_all xor_mbedtls [[1, 2, 3], [], [4]] tx = (Inr out, tx') \<and>
    set_client_salt xor_mbedtls salt (make_session (ShadowsocksAeadFactory_new xor_mbedtls ''pw'')) = Inr rx \<and>
    (\<forall>fs. concat fs = out \<longrightarrow> feed (decrypt_all xor_mbedtls) rx [] fs = ([[1, 2, 3], [], [4]], None, [], rx'))"
  by (rule tcp_stream_roundtrip) (simp_all add: xor_mbedtls_laws counting_drbg_laws)

text \<open>
  A datagram encrypted by one session is decrypted to the same bytes by any session with
  the same master key, and grows by exactly the salt and the tag.
\<close>

theorem udp_datagram_roundtrip:
  assumes "mbedtls_buffers c" "aead_laws c" "hkdf_total c" "drbg_laws d" "master_key tx = master_key rx"
  shows "\<exists>out tx'. encrypt_udp_packet c d plain tx = (Inr out, tx') \<and>
    length out = length plain + SaltSize + TagSize \<and> decrypt_udp_packet c rx out = Inr (Some plain)"
  using udp_packet_roundtrip [OF assms, of plain] by (simp add: add.commute)

theorem udp_datagram_roundtrip_witness:
  "\<exists>out tx'. encrypt_udp_packet xor_mbedtls counting_drbg [7, 8] (ShadowsocksAeadSession_new (replicate 32 5)) = (Inr out, tx') \<and>
    length out = length ([7, 8] :: bytes) + SaltSize + TagSize \<and>
    decrypt_udp_packet xor_mbedtls (ShadowsocksAeadSession_new (replicate 32 5)) out = Inr (Some [7, 8])"
  by (rule udp_datagram_roundtrip) (simp_all add: xor_mbedtls_laws counting_drbg_laws)

text \<open>
  (C34) The sender's nonces repeat: after 128 chunks the whole sending session, its key and its
  nonce included, is the one it started from, because \<^verbatim>\<open>increment_nonce\<close> never
  carries out of the first byte. The next chunk is encrypted with a (key, nonce) pair that
  was used already.
\<close>

theorem send_nonce_wraps:
  assumes "encrypt_all c ps s = (Inr out, t)" "length ps = 128"
  shows "t = s"
  using encrypt_all_nonce [OF assms(1)] assms(2) increment_nonce_period [of "send_nonce s"] by simp

theorem send_nonce_wraps_witness:
  "\<exists>out t. encrypt_all xor_mbedtls (replicate 128 [1, 2]) example_sender = (Inr out, t) \<and> t = example_sender"
proof -
  obtain out t where e: "encrypt_all xor_mbedtls (replicate 128 [1, 2]) example_sender = (Inr out, t)"
    using example_sender_encrypts [of "replicate 128 [1, 2]"] by auto
  with send_nonce_wraps [OF e] show ?thesis by simp
qed

text \<open>
  Below that bound nonces are fresh: with fewer than 128 chunks behind it, a session is
  about to use a nonce it has not used for any earlier chunk, neither for its length field
  nor for its payload.
\<close>

theorem send_nonce_fresh:
  assumes "encrypt_all c ps s = (Inr o1, t)" "encrypt_all c qs s = (Inr o2, u)"
    and "length ps < length qs" "length qs < 128" "send_nonce s \<noteq> []"
  shows "send_nonce u \<noteq> send_nonce t \<and> send_nonce u \<noteq> increment_nonce (send_nonce t) \<and>
    increment_nonce (send_nonce u) \<noteq> send_nonce t \<and>
    increment_nonce (send_nonce u) \<noteq> increment_nonce (send_nonce t)"
proof -
  let ?n = "send_nonce s"
  have t: "send_nonce t = (increment_nonce ^^ (2 * length ps)) ?n"
    "increment_nonce (send_nonce t) = (increment_nonce ^^ (2 * length ps + 1)) ?n"
    using encrypt_all_nonce [OF assms(1)] by simp_all
  have u: "send_nonce u = (increment_nonce ^^ (2 * length qs)) ?n"
    "increment_nonce (send_nonce u) = (increment_nonce ^^ (2 * length qs + 1)) ?n"
    using encrypt_all_nonce [OF assms(2)] by simp_all
  have ne: "(increment_nonce ^^ i) ?n \<noteq> (increment_nonce ^^ j) ?n" if "j < i" "i < 256" for i j
    using increment_nonce_distinct [OF assms(5), of i j] that by auto
  show ?thesis
  proof (intro conjI)
    show "send_nonce u \<noteq> send_nonce t"
      unfolding t(1) u(1) by (rule ne) (use assms(3,4) in simp_all)
    show "send_nonce u \<noteq> increment_nonce (send_nonce t)"
      unfolding t(2) u(1) by (rule ne) (use assms(3,4) in simp_all)
    show "increment_nonce (send_nonce u) \<noteq> send_nonce t"
      unfolding t(1) u(2) by (rule ne) (use assms(3,4) in simp_all)
    show "increment_nonce (send_nonce u) \<noteq> increment_nonce (send_nonce t)"
      unfolding t(2) u(2) by (rule ne) (use assms(3,4) in simp_all)
  qed
qed

theorem send_nonce_fresh_witness:
  "\<exists>o1 o2 t u. encrypt_all xor_mbedtls [[1]] (example_sender) = (Inr o1, t) \<and>
     encrypt_all xor_mbedtls [[1], [2]] (example_sender) = (Inr o2, u) \<and>
     send_nonce u \<noteq> send_nonce t"
proof -
  obtain o1 t where 1: "encrypt_all xor_mbedtls [[1]] example_sender = (Inr o1, t)"
    using example_sender_encrypts [of "[[1]]"] by auto
  obtain o2 u where 2: "encrypt_all xor_mbedtls [[1], [2]] example_sender = (Inr o2, u)"
    using example_sender_encrypts [of "[[1], [2]]"] by auto
  have "send_nonce example_sender \<noteq> []" by (simp add: example_sender_def ShadowsocksAeadSession_new_def)
  with send_nonce_fresh [OF 1 2] 1 2 show ?thesis by auto
qed

text \<open>
  (C35) The TCP decoder never reads outside the stream buffer or outside the decrypted length
  field, whatever bytes the network delivers and whatever key and nonce the session has.
\<close>

theorem decrypt_tcp_chunk_memory_safe:
  assumes "mbedtls_buffers c"
  shows "decrypt_tcp_chunk c s v \<noteq> Inl OutOfBounds \<and> fst (snd (decrypt_all c s v)) \<noteq> Some OutOfBounds"
proof
  show "fst (snd (decrypt_all c s v)) \<noteq> Some OutOfBounds"
    using tcp_stream.drain_error [of c s v] decrypt_tcp_chunk_in_bounds [OF assms]
    by (cases "decrypt_all c s v") fastforce
qed (rule decrypt_tcp_chunk_in_bounds [OF assms])

theorem decrypt_tcp_chunk_memory_safe_witness:
  "decrypt_tcp_chunk xor_mbedtls example_sender (replicate 40 0xff) \<noteq> Inl OutOfBounds"
  using decrypt_tcp_chunk_memory_safe [OF xor_mbedtls_laws(1), of example_sender "replicate 40 0xff"] by blast

text \<open>
  The key derived from a password is the EVP construction of the protocol: the digest of
  the password, followed by the digest of that digest and the password, 32 bytes in all.
\<close>

theorem evp_bytes_to_key_spec:
  assumes "mbedtls_buffers c"
  shows "evp_bytes_to_key c pw =
      md5 c (bytes_of_string pw) @ md5 c (md5 c (bytes_of_string pw) @ bytes_of_string pw) \<and>
    length (evp_bytes_to_key c pw) = KeySize"
  using evp_bytes_to_key_eq [OF assms] evp_bytes_to_key_length [OF assms] by blast

theorem evp_bytes_to_key_spec_witness:
  "length (evp_bytes_to_key xor_mbedtls ''secret'') = KeySize"
  using evp_bytes_to_key_spec [OF xor_mbedtls_laws(1), of "''secret''"] by blast

end
