(* ===== verification/LwipIpAddr.thy ===== *)
theory LwipIpAddr
  imports Prelude
begin

text \<open>
  lwIP's address conversions as the program uses them, from
  \<^verbatim>\<open>src/third_party/lwip/src/core\<close>: \<open>ip4addr_aton\<close>, \<open>ip4addr_ntoa_r\<close>,
  \<open>ip6addr_aton\<close>, \<open>ip6addr_ntoa_r\<close> and the dispatchers \<open>ipaddr_aton\<close> and
  \<open>ipaddr_ntoa\<close>, on a little-endian host (lwIP's default \<^verbatim>\<open>BYTE_ORDER\<close>) with
  IPv4 and IPv6 enabled. An address is kept as lwIP keeps it, in words whose bytes in memory
  are in network order. Strings are C strings: the list of the characters before the NUL.
\<close>

section \<open>Byte order and addresses\<close>

definition lwip_htonl :: "u32 \<Rightarrow> u32" where
  "lwip_htonl x =
     push_bit 24 (x AND 0x000000ff) OR push_bit 8 (x AND 0x0000ff00) OR
     drop_bit 8 (x AND 0x00ff0000) OR drop_bit 24 (x AND 0xff000000)"

definition LWIP_MAKEU32 :: "byte \<Rightarrow> byte \<Rightarrow> byte \<Rightarrow> byte \<Rightarrow> u32" where
  "LWIP_MAKEU32 a b c d =
     push_bit 24 (ucast a) OR push_bit 16 (ucast b) OR push_bit 8 (ucast c) OR ucast d"

datatype ip_addr_t = IP_V4 u32 | IP_V6 u32 u32 u32 u32

definition IP_IS_V6 :: "ip_addr_t \<Rightarrow> bool" where
  "IP_IS_V6 a = (case a of IP_V4 _ \<Rightarrow> False | IP_V6 _ _ _ _ \<Rightarrow> True)"

definition IP_ADDR4 :: "byte \<Rightarrow> byte \<Rightarrow> byte \<Rightarrow> byte \<Rightarrow> ip_addr_t" where
  "IP_ADDR4 a b c d = IP_V4 (lwip_htonl (LWIP_MAKEU32 a b c d))"

definition IP_ADDR6 :: "u32 \<Rightarrow> u32 \<Rightarrow> u32 \<Rightarrow> u32 \<Rightarrow> ip_addr_t" where
  "IP_ADDR6 w0 w1 w2 w3 = IP_V6 w0 w1 w2 w3"

text \<open>The bytes of a word in the memory of a little-endian host, and of an address.\<close>

definition mem_bytes :: "u32 \<Rightarrow> bytes" where
  "mem_bytes w = [ucast w, ucast (drop_bit 8 w), ucast (drop_bit 16 w), ucast (drop_bit 24 w)]"

fun ip_addr_bytes :: "ip_addr_t \<Rightarrow> bytes" where
  "ip_addr_bytes (IP_V4 w) = mem_bytes w"
| "ip_addr_bytes (IP_V6 w0 w1 w2 w3) = mem_bytes w0 @ mem_bytes w1 @ mem_bytes w2 @ mem_bytes w3"

section \<open>Character classes\<close>

text \<open>
  The classes of \<^verbatim>\<open>ctype.h\<close> in the C locale, which the program never changes, as the stack
  uses them through \<^verbatim>\<open>arch.h\<close>.
\<close>

definition lwip_in_range :: "char \<Rightarrow> char \<Rightarrow> char \<Rightarrow> bool" where
  "lwip_in_range c lo up \<longleftrightarrow> (of_char c :: nat) \<ge> of_char lo \<and> (of_char c :: nat) \<le> of_char up"

definition lwip_isdigit :: "char \<Rightarrow> bool" where
  "lwip_isdigit c = lwip_in_range c CHR ''0'' CHR ''9''"

definition lwip_isxdigit :: "char \<Rightarrow> bool" where
  "lwip_isxdigit c \<longleftrightarrow>
     lwip_isdigit c \<or> lwip_in_range c CHR ''a'' CHR ''f'' \<or> lwip_in_range c CHR ''A'' CHR ''F''"

definition lwip_islower :: "char \<Rightarrow> bool" where
  "lwip_islower c = lwip_in_range c CHR ''a'' CHR ''z''"

definition lwip_isspace :: "char \<Rightarrow> bool" where
  "lwip_isspace c \<longleftrightarrow>
     c = CHR '' '' \<or> c = CHR 0x0C \<or> c = CHR 0x0A \<or> c = CHR 0x0D \<or> c = CHR 0x09 \<or> c = CHR 0x0B"

section \<open>IPv4 text to address\<close>

text \<open>The digits of one part: the inner loop of \<^verbatim>\<open>ip4addr_aton\<close>.\<close>

fun aton_digits :: "nat \<Rightarrow> u32 \<Rightarrow> string \<Rightarrow> u32 \<times> string" where
  "aton_digits base val [] = (val, [])"
| "aton_digits base val (c # cs) =
     (if lwip_isdigit c then
        aton_digits base (val * word_of_nat base + word_of_nat (of_char c - 48)) cs
      else if base = 16 \<and> lwip_isxdigit c then
        aton_digits base
          (push_bit 4 val OR word_of_nat (of_char c + 10 - (if lwip_islower c then 97 else 65))) cs
      else (val, c # cs))"

definition aton_number :: "string \<Rightarrow> (u32 \<times> string) option" where
  "aton_number s =
     (case s of
        [] \<Rightarrow> None
      | c # cs \<Rightarrow>
          if \<not> lwip_isdigit c then None
          else if c = CHR ''0'' then
            (case cs of
               x # xs \<Rightarrow>
                 if x = CHR ''x'' \<or> x = CHR ''X'' then Some (aton_digits 16 0 xs)
                 else Some (aton_digits 8 0 cs)
             | [] \<Rightarrow> Some (aton_digits 8 0 cs))
          else Some (aton_digits 10 0 s))"

lemma aton_digits_length: "aton_digits base val s = (v, r) \<Longrightarrow> length r \<le> length s"
proof (induction s arbitrary: val)
  case (Cons c s)
  then show ?case by (force split: if_splits)
qed simp

lemma aton_number_length: "aton_number s = Some (v, r) \<Longrightarrow> length r \<le> length s"
  by (auto simp: aton_number_def split: list.splits if_splits dest: aton_digits_length)

text \<open>The outer loop: the parts before the last dot, the last value, the characters left.\<close>

function aton_parts :: "u32 list \<Rightarrow> string \<Rightarrow> (u32 list \<times> u32 \<times> string) option" where
  "aton_parts parts s =
     (case aton_number s of
        None \<Rightarrow> None
      | Some (val, r) \<Rightarrow>
          (case r of
             c # cs \<Rightarrow>
               if c = CHR ''.'' then
                 if length parts \<ge> 3 then None else aton_parts (parts @ [val]) cs
               else Some (parts, val, r)
           | [] \<Rightarrow> Some (parts, val, r)))"
  by pat_completeness auto
termination
  by (relation "measure (\<lambda>(parts, s). length s)") (auto dest: aton_number_length)

declare aton_parts.simps [simp del]

definition ip4addr_aton :: "string \<Rightarrow> u32 option" where
  "ip4addr_aton cp =
     (case aton_parts [] cp of
        None \<Rightarrow> None
      | Some (parts, val, r) \<Rightarrow>
          if (case r of [] \<Rightarrow> False | c # _ \<Rightarrow> \<not> lwip_isspace c) then None
          else
            (case parts of
               [] \<Rightarrow> Some (lwip_htonl val)
             | [p0] \<Rightarrow>
                 if val > 0xffffff then None
                 else if p0 > 0xff then None
                 else Some (lwip_htonl (val OR push_bit 24 p0))
             | [p0, p1] \<Rightarrow>
                 if val > 0xffff then None
                 else if p0 > 0xff \<or> p1 > 0xff then None
                 else Some (lwip_htonl (val OR (push_bit 24 p0 OR push_bit 16 p1)))
             | [p0, p1, p2] \<Rightarrow>
                 if val > 0xff then None
                 else if p0 > 0xff \<or> p1 > 0xff \<or> p2 > 0xff then None
                 else Some (lwip_htonl (val OR (push_bit 24 p0 OR push_bit 16 p1 OR push_bit 8 p2)))
             | _ \<Rightarrow> None))"

section \<open>IPv4 address to text\<close>

text \<open>The \<^verbatim>\<open>do ... while (*ap)\<close> loop: decimal digits, least significant first.\<close>

function inv_digits :: "byte \<Rightarrow> string" where
  "inv_digits b =
     char_of (48 + unat b mod 10 :: nat) #
     (if unat b div 10 = 0 then [] else inv_digits (word_of_nat (unat b div 10)))"
  by pat_completeness auto
termination
  by (relation "measure unat") (auto simp: unsigned_of_nat take_bit_eq_mod)

declare inv_digits.simps [simp del]

text \<open>Writing characters to a buffer of \<open>buflen\<close>: \<^verbatim>\<open>if (len++ >= buflen) return NULL\<close> for each.\<close>

definition put_chars :: "nat \<Rightarrow> string \<Rightarrow> string \<Rightarrow> string option" where
  "put_chars buflen buf cs = (if length buf + length cs \<le> buflen then Some (buf @ cs) else None)"

fun ntoa_bytes :: "nat \<Rightarrow> string \<Rightarrow> bytes \<Rightarrow> string option" where
  "ntoa_bytes buflen buf [] = Some buf"
| "ntoa_bytes buflen buf (b # bs) =
     (case put_chars buflen buf (rev (inv_digits b)) of
        None \<Rightarrow> None
      | Some buf1 \<Rightarrow>
          (case put_chars buflen buf1 ''.'' of
             None \<Rightarrow> None
           | Some buf2 \<Rightarrow> ntoa_bytes buflen buf2 bs))"

definition ip4addr_ntoa_r :: "u32 \<Rightarrow> nat \<Rightarrow> string option" where
  "ip4addr_ntoa_r addr buflen = map_option butlast (ntoa_bytes buflen [] (mem_bytes addr))"

definition ip4addr_ntoa :: "u32 \<Rightarrow> string option" where
  "ip4addr_ntoa addr = ip4addr_ntoa_r addr 16"

section \<open>IPv6 text to address\<close>

text \<open>
  Counting the colons: \<open>None\<close> is the early \<^verbatim>\<open>return 0\<close>; otherwise
  \<^verbatim>\<open>zero_blocks\<close> and \<^verbatim>\<open>check_ipv4_mapped\<close>.
\<close>

fun count_blocks :: "u32 \<Rightarrow> string \<Rightarrow> (u32 \<times> bool) option" where
  "count_blocks zb [] = Some (zb, False)"
| "count_blocks zb (c # cs) =
     (if c = CHR '':'' then count_blocks (zb - 1) cs
      else if c = CHR ''.'' then
        if zb = 5 \<or> zb = 2 then Some (zb - 1, True) else None
      else if \<not> lwip_isxdigit c then Some (zb, False)
      else count_blocks zb cs)"

record ip6_parse =
  addr_words :: "u32 list"
  addr_index :: nat
  block_index :: nat
  block_value :: u32
  zero_blocks :: u32

definition store_block :: "ip6_parse \<Rightarrow> ip6_parse" where
  "store_block p =
     (if odd (block_index p) then
        p\<lparr>addr_words := (addr_words p)[addr_index p := (addr_words p ! addr_index p) OR block_value p],
          addr_index := addr_index p + 1\<rparr>
      else
        p\<lparr>addr_words := (addr_words p)[addr_index p := push_bit 16 (block_value p)]\<rparr>)"

text \<open>The zeros of a double colon; \<open>None\<close> is \<^verbatim>\<open>address too long\<close>.\<close>

function zero_fill :: "ip6_parse \<Rightarrow> ip6_parse option" where
  "zero_fill p =
     (if zero_blocks p > 0 then
        let p1 = p\<lparr>zero_blocks := zero_blocks p - 1\<rparr>;
            p2 = (if odd (block_index p1) then p1\<lparr>addr_index := addr_index p1 + 1\<rparr>
                  else p1\<lparr>addr_words := (addr_words p1)[addr_index p1 := 0]\<rparr>);
            p3 = p2\<lparr>block_index := block_index p2 + 1\<rparr>
        in if block_index p3 > 7 then None else zero_fill p3
      else Some p)"
  by pat_completeness auto
termination
  by (relation "measure (\<lambda>p. 8 - block_index p)") (auto simp: Let_def split: if_splits)

declare zero_fill.simps [simp del]

datatype ip6_loop = Ip6Fail | Ip6Mapped ip6_parse | Ip6Break ip6_parse

definition hex_value :: "char \<Rightarrow> u32" where
  "hex_value c =
     (if lwip_isdigit c then word_of_nat (of_char c - 48)
      else word_of_nat (10 + (if lwip_islower c then of_char c - 97 else of_char c - 65)))"

function ip6_blocks :: "bool \<Rightarrow> string \<Rightarrow> ip6_parse \<Rightarrow> ip6_loop" where
  "ip6_blocks mapped [] p = Ip6Break p"
| "ip6_blocks mapped (c # cs) p =
     (if c = CHR '':'' then
        let p1 = store_block p; p2 = p1\<lparr>block_index := block_index p1 + 1\<rparr>;
            ip4 = (if mapped \<and> block_index p2 = 6 then ip4addr_aton cs else None)
        in case ip4 of
             Some w \<Rightarrow>
               Ip6Mapped (p2\<lparr>addr_words := (addr_words p2)[3 := lwip_htonl w],
                             block_index := block_index p2 + 1\<rparr>)
           | None \<Rightarrow>
             (let p3 = p2\<lparr>block_value := 0\<rparr>
              in if block_index p3 > 7 then Ip6Fail
                 else if take 1 cs = '':'' then
                   if take 1 (drop 1 cs) = '':'' then Ip6Fail
                   else
                     (case zero_fill p3 of
                        None \<Rightarrow> Ip6Fail
                      | Some p4 \<Rightarrow> ip6_blocks mapped (drop 1 cs) p4)
                 else ip6_blocks mapped cs p3)
      else if lwip_isxdigit c then
        ip6_blocks mapped cs (p\<lparr>block_value := push_bit 4 (block_value p) + hex_value c\<rparr>)
      else Ip6Break p)"
  by pat_completeness auto
termination
  by (relation "measure (\<lambda>(m, s, p). length s)") auto

definition ip6addr_aton :: "string \<Rightarrow> ip_addr_t option" where
  "ip6addr_aton cp =
     (case count_blocks 8 cp of
        None \<Rightarrow> None
      | Some (zb, mapped) \<Rightarrow>
          (let finish = (\<lambda>p.
             if block_index p \<noteq> 7 then None
             else Some (IP_V6 (lwip_htonl (addr_words p ! 0)) (lwip_htonl (addr_words p ! 1))
                              (lwip_htonl (addr_words p ! 2)) (lwip_htonl (addr_words p ! 3))))
           in case ip6_blocks mapped cp
                \<lparr>addr_words = [0, 0, 0, 0], addr_index = 0, block_index = 0, block_value = 0,
                 zero_blocks = zb\<rparr> of
                Ip6Fail \<Rightarrow> None
              | Ip6Mapped p \<Rightarrow> finish p
              | Ip6Break p \<Rightarrow> finish (store_block p)))"

section \<open>Dispatch\<close>

text \<open>A colon before the first dot selects IPv6.\<close>

definition ipaddr_aton :: "string \<Rightarrow> ip_addr_t option" where
  "ipaddr_aton cp =
     (case dropWhile (\<lambda>c. c \<noteq> CHR '':'' \<and> c \<noteq> CHR ''.'') cp of
        c # _ \<Rightarrow> if c = CHR '':'' then ip6addr_aton cp else map_option IP_V4 (ip4addr_aton cp)
      | [] \<Rightarrow> map_option IP_V4 (ip4addr_aton cp))"

section \<open>Byte order\<close>

lemma u32_masks:
  "(x :: u32) AND 0x000000ff = take_bit 8 x"
  "x AND 0x0000ff00 = push_bit 8 (take_bit 8 (drop_bit 8 x))"
  "x AND 0x00ff0000 = push_bit 16 (take_bit 8 (drop_bit 16 x))"
  "x AND 0xff000000 = push_bit 24 (take_bit 8 (drop_bit 24 x))"
proof -
  have m: "(0xff :: u32) = mask 8" "(0xff00 :: u32) = push_bit 8 (mask 8)"
    "(0xff0000 :: u32) = push_bit 16 (mask 8)" "(0xff000000 :: u32) = push_bit 24 (mask 8)"
    by (simp_all add: mask_eq_exp_minus_1 push_bit_eq_mult)
  show "x AND 0x000000ff = take_bit 8 x"
    unfolding m by (simp add: take_bit_eq_mask)
  show "x AND 0x0000ff00 = push_bit 8 (take_bit 8 (drop_bit 8 x))"
    unfolding m by (rule bit_word_eqI) (auto simp: bit_simps)
  show "x AND 0x00ff0000 = push_bit 16 (take_bit 8 (drop_bit 16 x))"
    unfolding m by (rule bit_word_eqI) (auto simp: bit_simps)
  show "x AND 0xff000000 = push_bit 24 (take_bit 8 (drop_bit 24 x))"
    unfolding m by (rule bit_word_eqI) (auto simp: bit_simps)
qed

lemma mem_bytes_htonl [simp]: "mem_bytes (lwip_htonl (LWIP_MAKEU32 a b c d)) = [a, b, c, d]"
proof -
  let ?w = "lwip_htonl (LWIP_MAKEU32 a b c d)"
  have "ucast ?w = a" "ucast (drop_bit 8 ?w) = b" "ucast (drop_bit 16 ?w) = c" "ucast (drop_bit 24 ?w) = d"
    unfolding lwip_htonl_def u32_masks LWIP_MAKEU32_def
    by (rule bit_word_eqI; auto simp: bit_simps dest: bit_imp_le_length)+
  then show ?thesis by (simp add: mem_bytes_def)
qed

lemma mem_bytes_inject: "mem_bytes v = mem_bytes w \<longleftrightarrow> v = w"
proof
  assume eq: "mem_bytes v = mem_bytes w"
  show "v = w"
  proof (rule bit_word_eqI)
    fix n assume "n < LENGTH(32)"
    then have n: "n < 32" by simp
    have b: "bit v (k + i) = bit w (k + i)" if "(ucast (drop_bit k v) :: byte) = ucast (drop_bit k w)" "i < 8" for k i
      using arg_cong [OF that(1), of "\<lambda>x. bit x i"] that(2) by (simp add: bit_simps)
    have e: "(ucast (drop_bit 0 v) :: byte) = ucast (drop_bit 0 w)" "(ucast (drop_bit 8 v) :: byte) = ucast (drop_bit 8 w)"
      "(ucast (drop_bit 16 v) :: byte) = ucast (drop_bit 16 w)" "(ucast (drop_bit 24 v) :: byte) = ucast (drop_bit 24 w)"
      using eq by (simp_all add: mem_bytes_def)
    consider "n < 8" | "8 \<le> n" "n - 8 < 8" | "16 \<le> n" "n - 16 < 8" | "24 \<le> n" "n - 24 < 8"
      using n by linarith
    then show "bit v n = bit w n"
      using b [OF e(1), of n] b [OF e(2), of "n - 8"] b [OF e(3), of "n - 16"] b [OF e(4), of "n - 24"]
      by cases simp_all
  qed
qed simp

section \<open>IPv4 round trip\<close>

lemma isdigit_dec: "d < 10 \<Longrightarrow> lwip_isdigit (char_of (48 + d :: nat))"
  by (simp add: lwip_isdigit_def lwip_in_range_def)

lemma aton_digits_dec:
  "aton_digits 10 v (dec_string n @ rest) = aton_digits 10 (v * 10 ^ length (dec_string n) + word_of_nat n) rest"
proof (induction n arbitrary: rest rule: dec_string.induct)
  case (1 n)
  show ?case
  proof (cases "n < 10")
    case True
    then show ?thesis by (simp add: dec_string.simps [of n] isdigit_dec)
  next
    case False
    have d: "n mod 10 < 10" by simp
    then have dm: "(48 + n mod 10) mod 256 = 48 + n mod 10" by simp
    have "(word_of_nat n :: u32) = word_of_nat (n div 10 * 10 + n mod 10)" by simp
    then have "(word_of_nat n :: u32) = word_of_nat (n div 10) * 10 + word_of_nat (n mod 10)"
      by (simp only: of_nat_add of_nat_mult of_nat_numeral)
    with False isdigit_dec [OF d] dm "1.IH" [OF False] show ?thesis
      by (simp add: dec_string.simps [of n] algebra_simps)
  qed
qed

lemma dec_string_hd:
  "0 < n \<Longrightarrow> \<exists>d cs. dec_string n = char_of (48 + d :: nat) # cs \<and> 0 < d \<and> d < 10"
proof (induction n rule: dec_string.induct)
  case (1 n)
  show ?case
  proof (cases "n < 10")
    case True
    with "1.prems" show ?thesis by (intro exI [of _ n]) (simp add: dec_string.simps [of n])
  next
    case False
    then have "0 < n div 10" by (simp add: div_greater_zero_iff)
    with "1.IH" [OF False] obtain d cs where "dec_string (n div 10) = char_of (48 + d :: nat) # cs" "0 < d" "d < 10"
      by blast
    with False show ?thesis by (intro exI [of _ d]) (simp add: dec_string.simps [of n])
  qed
qed

lemma dec_string_0: "dec_string 0 = ''0''"
proof -
  have "(of_char CHR ''0'' :: nat) = 48" by simp
  then have "char_of (48 :: nat) = CHR ''0''" by (metis char_of_char)
  then show ?thesis by (simp add: dec_string.simps [of 0])
qed

definition ends_part :: "string \<Rightarrow> bool" where
  "ends_part r \<longleftrightarrow> r = [] \<or> hd r = CHR ''.''"

lemma aton_digits_stop: "ends_part r \<Longrightarrow> aton_digits base v r = (v, r)"
  by (cases r) (auto simp: ends_part_def lwip_isxdigit_def lwip_isdigit_def lwip_in_range_def)

lemma aton_number_dec:
  assumes "ends_part r"
  shows "aton_number (dec_string n @ r) = Some (word_of_nat n, r)"
proof (cases "n = 0")
  case True
  with assms show ?thesis
    by (cases r) (auto simp: dec_string_0 aton_number_def lwip_isdigit_def lwip_in_range_def
        ends_part_def aton_digits_stop)
next
  case False
  then obtain d cs where d: "dec_string n = char_of (48 + d :: nat) # cs" "0 < d" "d < 10"
    using dec_string_hd by blast
  have "char_of (48 + d :: nat) \<noteq> CHR ''0''"
  proof
    assume "char_of (48 + d :: nat) = CHR ''0''"
    then have "(of_char (char_of (48 + d :: nat) :: char) :: nat) = of_char CHR ''0''" by simp
    with d(2,3) show False by simp
  qed
  with d isdigit_dec [of d] have "aton_number (dec_string n @ r) = Some (aton_digits 10 0 (dec_string n @ r))"
    by (simp add: aton_number_def)
  with assms show ?thesis by (simp add: aton_digits_dec aton_digits_stop)
qed

lemma ends_part_simps [simp]: "ends_part []" "ends_part (CHR ''.'' # r)"
  by (simp_all add: ends_part_def)

lemma aton_parts_last: "aton_parts ps (dec_string n) = Some (ps, word_of_nat n, [])"
  using aton_number_dec [of "[]" n] by (simp add: aton_parts.simps [of ps])

lemma aton_parts_dot:
  "length ps < 3 \<Longrightarrow> aton_parts ps (dec_string n @ CHR ''.'' # r) = aton_parts (ps @ [word_of_nat n]) r"
  using aton_number_dec [of "CHR ''.'' # r" n] by (simp add: aton_parts.simps [of ps])

lemma ucast_byte_le: "\<not> (0xff :: u32) < ucast (b :: byte)"
proof -
  have "unat b < 2 ^ 32" by (rule order.strict_trans [OF unat_byte_less]) simp
  then have "unat (ucast b :: u32) = unat b"
    by (simp add: unsigned_ucast_eq take_bit_nat_eq_self)
  moreover have "\<not> 255 < unat b" using unat_byte_less [of b] by linarith
  ultimately show ?thesis by (simp add: word_less_nat_alt)
qed

lemma ip4addr_aton_text: "ip4addr_aton (ipv4_text a b c d) = Some (lwip_htonl (LWIP_MAKEU32 a b c d))"
proof -
  have "aton_parts [] (ipv4_text a b c d) = Some ([ucast a, ucast b, ucast c], ucast d, [])"
    by (simp add: ipv4_text_def aton_parts_dot aton_parts_last)
  moreover have "(ucast d :: u32) OR (push_bit 24 (ucast a) OR push_bit 16 (ucast b) OR push_bit 8 (ucast c))
      = LWIP_MAKEU32 a b c d"
    by (simp add: LWIP_MAKEU32_def ac_simps)
  ultimately show ?thesis by (simp add: ip4addr_aton_def ucast_byte_le)
qed

lemma rev_inv_digits: "rev (inv_digits b) = dec_string (unat b)"
proof (induction b rule: inv_digits.induct)
  case (1 b)
  show ?case
  proof (cases "unat b < 10")
    case True
    then show ?thesis by (simp add: inv_digits.simps [of b] dec_string.simps [of "unat b"])
  next
    case False
    then have "unat b div 10 \<noteq> 0" by (simp add: div_eq_0_iff)
    moreover have "unat b div 10 < 2 ^ 8" by (rule le_less_trans [OF div_le_dividend]) simp
    then have "unat (word_of_nat (unat b div 10) :: byte) = unat b div 10"
      by (simp add: unsigned_of_nat take_bit_nat_eq_self)
    ultimately show ?thesis
      using False "1.IH" by (simp add: inv_digits.simps [of b] dec_string.simps [of "unat b"])
  qed
qed

lemma dec_string_length:
  "n < 10 \<Longrightarrow> length (dec_string n) = 1"
  "n < 100 \<Longrightarrow> length (dec_string n) \<le> 2"
  "n < 1000 \<Longrightarrow> length (dec_string n) \<le> 3"
proof -
  show one: "length (dec_string n) = 1" if "n < 10" for n using that by (simp add: dec_string.simps [of n])
  show two: "length (dec_string n) \<le> 2" if "n < 100" for n
    using that one [of "n div 10"] one [of n] by (cases "n < 10") (auto simp: dec_string.simps [of n])
  show "length (dec_string n) \<le> 3" if "n < 1000"
    using that two [of "n div 10"] one [of n] by (cases "n < 10") (auto simp: dec_string.simps [of n])
qed

lemma ip4addr_ntoa_text:
  "ip4addr_ntoa w = Some (ipv4_text (mem_bytes w ! 0) (mem_bytes w ! 1) (mem_bytes w ! 2) (mem_bytes w ! 3))"
proof -
  have len: "length (dec_string (unat (b :: byte))) \<le> 3" for b
    using unat_byte_less [of b] by (intro dec_string_length) linarith
  let ?m = "\<lambda>i. dec_string (unat (mem_bytes w ! i))"
  have "length (?m 0) + length (?m 1) + length (?m 2) + length (?m 3) \<le> 12"
    using len [of "mem_bytes w ! 0"] len [of "mem_bytes w ! 1"] len [of "mem_bytes w ! 2"] len [of "mem_bytes w ! 3"]
    by linarith
  then show ?thesis
    by (simp add: ip4addr_ntoa_def ip4addr_ntoa_r_def mem_bytes_def rev_inv_digits put_chars_def
        ipv4_text_def butlast_append)
qed

lemma mem_bytes_4: "mem_bytes w = [mem_bytes w ! 0, mem_bytes w ! 1, mem_bytes w ! 2, mem_bytes w ! 3]"
  by (simp add: mem_bytes_def)

lemma ip4_aton_ntoa: "\<exists>s. ip4addr_ntoa w = Some s \<and> ip4addr_aton s = Some w"
proof -
  let ?v = "lwip_htonl (LWIP_MAKEU32 (mem_bytes w ! 0) (mem_bytes w ! 1) (mem_bytes w ! 2) (mem_bytes w ! 3))"
  have "mem_bytes ?v = mem_bytes w" by (metis mem_bytes_htonl mem_bytes_4)
  then have "?v = w" by (simp only: mem_bytes_inject)
  then show ?thesis by (simp add: ip4addr_ntoa_text ip4addr_aton_text)
qed

section \<open>IPv6: the full form\<close>

lemma hex_digit_class:
  assumes "n < 16"
  shows "lwip_isxdigit (hex_digit n)" and "hex_digit n \<noteq> CHR '':''" and "hex_digit n \<noteq> CHR ''.''"
    and "hex_value (hex_digit n) = word_of_nat n"
proof -
  note o = of_char_hex_digit [OF assms]
  show "lwip_isxdigit (hex_digit n)"
    using assms by (auto simp: lwip_isxdigit_def lwip_isdigit_def lwip_in_range_def o)
  show "hex_digit n \<noteq> CHR '':''" "hex_digit n \<noteq> CHR ''.''"
    using o assms by (auto split: if_splits)
  show "hex_value (hex_digit n) = word_of_nat n"
    using assms by (auto simp: hex_value_def lwip_isdigit_def lwip_islower_def lwip_in_range_def o)
qed

lemma byte_nibbles:
  fixes b :: byte
  shows "unat b div 16 < 16" "unat b mod 16 < 16"
  using unat_byte_less [of b] by (auto simp: less_mult_imp_div_less)

lemma ip6_blocks_hex:
  "ip6_blocks m (hex02 a @ s) p =
   ip6_blocks m s (p\<lparr>block_value := push_bit 8 (block_value p) + ucast a\<rparr>)"
proof -
  have "push_bit 4 (push_bit 4 v + word_of_nat (unat a div 16)) + word_of_nat (unat a mod 16)
      = push_bit 8 v + (ucast a :: u32)" for v :: u32
  proof -
    have "(ucast a :: u32) = word_of_nat (unat a div 16 * 16 + unat a mod 16)" by simp
    also have "\<dots> = word_of_nat (unat a div 16) * 16 + word_of_nat (unat a mod 16)"
      by (simp only: of_nat_add of_nat_mult of_nat_numeral)
    finally show ?thesis by (simp add: push_bit_eq_mult algebra_simps)
  qed
  then show ?thesis
    by (simp add: hex02_def hex_digit_class [OF byte_nibbles(1)] hex_digit_class [OF byte_nibbles(2)])
qed

lemma word_add_or:
  "push_bit 8 (ucast (a :: byte)) + ucast (b :: byte) = (push_bit 8 (ucast a) OR ucast b :: u32)"
  by (rule disjunctive_add_eq_or) (rule bit_word_eqI, auto simp: bit_simps dest: bit_imp_le_length)

lemma word_of_blocks:
  "push_bit 16 (push_bit 8 (ucast a) + ucast b) OR (push_bit 8 (ucast c) + ucast d) = LWIP_MAKEU32 a b c d"
  unfolding word_add_or by (simp add: LWIP_MAKEU32_def push_bit_or ac_simps)

lemma count_blocks_hex [simp]: "count_blocks zb (hex02 a @ s) = count_blocks zb s"
  by (simp add: hex02_def hex_digit_class [OF byte_nibbles(1)] hex_digit_class [OF byte_nibbles(2)])

lemma count_blocks_hex_last [simp]: "count_blocks zb (hex02 a) = Some (zb, False)"
  using count_blocks_hex [of zb a "[]"] by simp

lemma ip6_blocks_hex_last:
  "ip6_blocks m (hex02 a) p = Ip6Break (p\<lparr>block_value := push_bit 8 (block_value p) + ucast a\<rparr>)"
  using ip6_blocks_hex [of m a "[]" p] by simp

lemma ip6_blocks_colon:
  "ip6_blocks False (CHR '':'' # hex02 a @ s) p =
     (if block_index (store_block p) + 1 > 7 then Ip6Fail
      else ip6_blocks False (hex02 a @ s)
             ((store_block p)\<lparr>block_index := block_index (store_block p) + 1, block_value := 0\<rparr>))"
proof -
  have "take 1 (hex02 a @ s) \<noteq> '':''"
    by (simp add: hex02_def hex_digit_class [OF byte_nibbles(1)])
  then show ?thesis by (simp add: Let_def)
qed

lemma list16:
  assumes "length bs = 16"
  obtains b0 b1 b2 b3 b4 b5 b6 b7 b8 b9 b10 b11 b12 b13 b14 b15
  where "bs = [b0, b1, b2, b3, b4, b5, b6, b7, b8, b9, b10, b11, b12, b13, b14, b15]"
  using assms by (auto simp: numeral_eq_Suc length_Suc_conv)

lemma ip6addr_aton_text:
  assumes "length bs = 16"
  shows "\<exists>ip. ip6addr_aton (hex_groups bs) = Some ip \<and> ip_addr_bytes ip = bs"
proof -
  obtain b0 b1 b2 b3 b4 b5 b6 b7 b8 b9 b10 b11 b12 b13 b14 b15 where
    bs: "bs = [b0, b1, b2, b3, b4, b5, b6, b7, b8, b9, b10, b11, b12, b13, b14, b15]"
    using assms by (rule list16)
  have "ip6addr_aton (hex_groups bs) = Some (IP_V6
      (lwip_htonl (LWIP_MAKEU32 b0 b1 b2 b3)) (lwip_htonl (LWIP_MAKEU32 b4 b5 b6 b7))
      (lwip_htonl (LWIP_MAKEU32 b8 b9 b10 b11)) (lwip_htonl (LWIP_MAKEU32 b12 b13 b14 b15)))"
    unfolding bs
    by (simp add: ip6addr_aton_def ip6_blocks_hex ip6_blocks_hex_last ip6_blocks_colon store_block_def word_of_blocks
        del: ip6_blocks.simps(2))
  then show ?thesis by (simp add: bs)
qed

end
