(* ===== verification/SsAddress.thy ===== *)
theory SsAddress
  imports ShadowsocksAead LwipIpAddr
begin

text \<open>
  The Shadowsocks target address header, \<^verbatim>\<open>src/src/ShadowsocksAead.cpp\<close> lines
  271 to 350: \<open>parse_ss_address\<close> and \<open>encode_ss_address\<close>. Text to binary address
  conversion on the encoding side is asio's wrapper of the system's
  \<^verbatim>\<open>inet_pton\<close>, an argument of the encoder.
\<close>

section \<open>Text of an IPv6 address\<close>

text \<open>\<^verbatim>\<open>snprintf(buf, 40, ...)\<close> keeps at most 39 characters.\<close>

definition ipv6_text :: "bytes \<Rightarrow> string" where
  "ipv6_text bs = take 39 (hex_groups bs)"

section \<open>Parsing\<close>

text \<open>The host part: \<open>None\<close> is an early \<^verbatim>\<open>return std::nullopt\<close>; the view is returned as it is left.\<close>

definition parse_ss_host :: "AddressType \<Rightarrow> bytes \<Rightarrow> (string option \<times> bytes) result" where
  "parse_ss_host atyp bs =
     (case atyp of
        Ipv4 \<Rightarrow>
          if length bs < 6 then Inr (None, bs)
          else
            bind_result (span_at bs 0) (\<lambda>b0. bind_result (span_at bs 1) (\<lambda>b1.
            bind_result (span_at bs 2) (\<lambda>b2. bind_result (span_at bs 3) (\<lambda>b3.
            bind_result (span_from bs 4) (\<lambda>rest. Inr (Some (ipv4_text b0 b1 b2 b3), rest))))))
      | Domain \<Rightarrow>
          if bs = [] then Inr (None, bs)
          else
            bind_result (span_at bs 0) (\<lambda>b0.
            bind_result (span_from bs 1) (\<lambda>bs1.
            let len = unat b0
            in if length bs1 < len + 2 then Inr (None, bs1)
               else
                 bind_result (subspan bs1 0 len) (\<lambda>h.
                 bind_result (span_from bs1 len) (\<lambda>rest. Inr (Some (string_of_bytes h), rest)))))
      | Ipv6 \<Rightarrow>
          if length bs < 18 then Inr (None, bs)
          else
            bind_result (subspan bs 0 16) (\<lambda>h.
            bind_result (span_from bs 16) (\<lambda>rest. Inr (Some (ipv6_text h), rest)))
      | OtherType _ \<Rightarrow> Inr (None, bs))"

definition parse_ss_address :: "bytes \<Rightarrow> (TargetAddress option \<times> bytes) result" where
  "parse_ss_address bs =
     (if bs = [] then Inr (None, bs)
      else
        bind_result (span_at bs 0) (\<lambda>b0.
        let atyp = AddressType_of_byte b0 in
        bind_result (span_from bs 1) (\<lambda>bs1.
        bind_result (parse_ss_host atyp bs1) (\<lambda>(h, bs2).
        case h of
          None \<Rightarrow> Inr (None, bs2)
        | Some h' \<Rightarrow>
            if length bs2 < 2 then Inr (None, bs2)
            else
              bind_result (subspan bs2 0 2) (\<lambda>pbytes.
              bind_result (read_be16 pbytes) (\<lambda>p.
              bind_result (span_from bs2 2) (\<lambda>rest.
                Inr (Some \<lparr>addr_type = atyp, host = h', port = p\<rparr>, rest))))))))"

section \<open>Encoding\<close>

record inet_pton =
  inet_pton4 :: "string \<Rightarrow> bytes option"
  inet_pton6 :: "string \<Rightarrow> bytes option"

definition encode_ss_address :: "inet_pton \<Rightarrow> TargetAddress \<Rightarrow> bytes result" where
  "encode_ss_address a target =
     (let out0 = PacketBuffer_append [] [byte_of_AddressType (addr_type target)] in
      bind_result
        (case addr_type target of
           Domain \<Rightarrow>
             if length (host target) > 255 then Inl (RuntimeError ''domain too long'')
             else
               Inr (PacketBuffer_append (PacketBuffer_append out0 [word_of_nat (length (host target))])
                      (bytes_of_string (host target)))
         | Ipv4 \<Rightarrow>
             (case inet_pton4 a (c_str (host target)) of
                None \<Rightarrow> Inl (RuntimeError ''invalid IPv4 address'')
              | Some bs \<Rightarrow> Inr (PacketBuffer_append out0 bs))
         | Ipv6 \<Rightarrow>
             (case inet_pton6 a (c_str (host target)) of
                None \<Rightarrow> Inl (RuntimeError ''invalid IPv6 address'')
              | Some bs \<Rightarrow> Inr (PacketBuffer_append out0 bs))
         | OtherType _ \<Rightarrow> Inl (RuntimeError ''invalid Shadowsocks address type''))
        (\<lambda>out1. Inr (append_be16 out1 (port target))))"

section \<open>What the code relies on of inet_pton\<close>

text \<open>
  POSIX: \<^verbatim>\<open>inet_pton\<close> accepts dotted decimal for IPv4 and eight groups of four
  hexadecimal digits for IPv6 and stores the 4 or 16 bytes in network order.
\<close>

definition inet_pton_laws :: "inet_pton \<Rightarrow> bool" where
  "inet_pton_laws a \<longleftrightarrow>
     (\<forall>w x y z. inet_pton4 a (ipv4_text w x y z) = Some [w, x, y, z]) \<and>
     (\<forall>bs. length bs = 16 \<longrightarrow> inet_pton6 a (hex_groups bs) = Some bs)"

lemma ipv6_text_full: "length bs = 16 \<Longrightarrow> ipv6_text bs = hex_groups bs"
  using hex_groups_length [of bs] by (cases bs) (auto simp: ipv6_text_def)

section \<open>Parsing: shape of the result\<close>

lemma list_split_port:
  assumes "2 \<le> length bs"
  obtains v rest where "bs = append_be16 [] v @ rest" and "read_be16 (take 2 bs) = Inr v" and "drop 2 bs = rest"
proof -
  obtain v where v: "get_be16 (take 2 bs) 0 = Inr v"
    using ss16.get_Inr [of 0 "take 2 bs"] assms by auto
  moreover have "append_be16 [] v = take 2 bs"
    using ss16.put_get [OF _ v] assms by simp
  ultimately show thesis
    using that [of v "drop 2 bs"] by (simp add: get_be16_def span_simps)
qed

lemma parse_ss_host_eq:
  "parse_ss_host atyp bs =
     Inr (case atyp of
        Ipv4 \<Rightarrow> if length bs < 6 then (None, bs)
               else (Some (ipv4_text (bs ! 0) (bs ! 1) (bs ! 2) (bs ! 3)), drop 4 bs)
      | Domain \<Rightarrow> if bs = [] then (None, bs)
                 else if length (tl bs) < unat (hd bs) + 2 then (None, tl bs)
                 else (Some (string_of_bytes (take (unat (hd bs)) (tl bs))), drop (unat (hd bs)) (tl bs))
      | Ipv6 \<Rightarrow> if length bs < 18 then (None, bs)
               else (Some (ipv6_text (take 16 bs)), drop 16 bs)
      | OtherType _ \<Rightarrow> (None, bs))"
proof (cases atyp)
  case Ipv4
  then show ?thesis by (simp add: parse_ss_host_def span_at_def span_simps)
next
  case Domain
  then show ?thesis by (cases bs) (auto simp: parse_ss_host_def span_at_def span_from_def subspan_def Let_def)
qed (simp_all add: parse_ss_host_def span_simps)

lemma parse_ss_host_Some_length:
  "parse_ss_host atyp bs = Inr (Some h, r) \<Longrightarrow> 2 \<le> length r"
  by (auto simp: parse_ss_host_eq split: AddressType.splits if_splits)

lemma parse_ss_address_Nil [simp]: "parse_ss_address [] = Inr (None, [])"
  by (simp add: parse_ss_address_def)

lemma parse_ss_address_Cons:
  "parse_ss_address (b # bs) =
     (case parse_ss_host (AddressType_of_byte b) bs of
        Inl e \<Rightarrow> Inl e
      | Inr (None, r) \<Rightarrow> Inr (None, r)
      | Inr (Some h, r) \<Rightarrow>
          bind_result (read_be16 (take 2 r)) (\<lambda>p.
            Inr (Some \<lparr>addr_type = AddressType_of_byte b, host = h, port = p\<rparr>, drop 2 r)))"
  by (auto simp: parse_ss_address_def span_at_def span_from_def subspan_def bind_result_def Let_def
      dest: parse_ss_host_Some_length split: sum.splits option.splits)

lemma parse_ss_address_Some:
  assumes "parse_ss_host (AddressType_of_byte b) bs = Inr (Some h, append_be16 [] v @ rest)"
  shows "parse_ss_address (b # bs) = Inr (Some \<lparr>addr_type = AddressType_of_byte b, host = h, port = v\<rparr>, rest)"
proof -
  have "take 2 (append_be16 [] v @ rest) = append_be16 [] v" "drop 2 (append_be16 [] v @ rest) = rest"
    by (simp_all add: ss16.put_length)
  with assms show ?thesis by (simp add: parse_ss_address_Cons)
qed

lemma parse_ss_address_total: "\<exists>r. parse_ss_address bs = Inr r"
proof (cases bs)
  case (Cons b bs')
  obtain h r where h: "parse_ss_host (AddressType_of_byte b) bs' = Inr (h, r)"
    by (simp add: parse_ss_host_eq) (metis prod.exhaust)
  show ?thesis
  proof (cases h)
    case None
    with Cons h show ?thesis by (simp add: parse_ss_address_Cons)
  next
    case (Some h')
    with h have "2 \<le> length r" by (auto dest: parse_ss_host_Some_length)
    then obtain v rest where "r = append_be16 [] v @ rest" by (rule list_split_port)
    with Cons h Some parse_ss_address_Some show ?thesis by blast
  qed
qed simp

lemma parse_ss_address_SomeE:
  assumes "parse_ss_address bs = Inr (Some t, rest)"
  obtains b bs' where "bs = b # bs'"
    and "parse_ss_host (AddressType_of_byte b) bs' = Inr (Some (host t), append_be16 [] (port t) @ rest)"
    and "addr_type t = AddressType_of_byte b"
proof -
  from assms obtain b bs' where bs: "bs = b # bs'" by (cases bs) auto
  with assms obtain h r where h: "parse_ss_host (AddressType_of_byte b) bs' = Inr (Some h, r)"
    by (auto simp: parse_ss_address_Cons split: sum.splits option.splits)
  then obtain v rest' where r: "r = append_be16 [] v @ rest'"
    by (meson list_split_port parse_ss_host_Some_length)
  with h parse_ss_address_Some [of b bs' h v rest'] assms bs have
    "t = \<lparr>addr_type = AddressType_of_byte b, host = h, port = v\<rparr>" "rest' = rest" by auto
  with that bs h r show thesis by simp
qed

section \<open>Encoding undoes parsing\<close>

lemma append_be16_eq: "append_be16 out v = out @ append_be16 [] v"
  by (simp add: append_be16_def PacketBuffer_append_def)

lemma encode_ss_address_parse:
  assumes "inet_pton_laws a" "parse_ss_address bs = Inr (Some t, rest)"
  shows "\<exists>e. encode_ss_address a t = Inr e \<and> bs = e @ rest"
proof -
  from assms(2) obtain b bs' where bs: "bs = b # bs'"
    and h: "parse_ss_host (AddressType_of_byte b) bs' = Inr (Some (host t), append_be16 [] (port t) @ rest)"
    and ty: "addr_type t = AddressType_of_byte b"
    by (rule parse_ss_address_SomeE)
  show ?thesis
  proof (cases "AddressType_of_byte b")
    case Ipv4
    with h have len: "6 \<le> length bs'"
      and eq: "host t = ipv4_text (bs' ! 0) (bs' ! 1) (bs' ! 2) (bs' ! 3)"
      and r: "append_be16 [] (port t) @ rest = drop 4 bs'"
      by (auto simp: parse_ss_host_eq split: if_splits)
    have "take 4 bs' = [bs' ! 0, bs' ! 1, bs' ! 2, bs' ! 3]"
      using len by (auto intro!: nth_equalityI simp: less_Suc_eq numeral_eq_Suc)
    then have split: "bs' = [bs' ! 0, bs' ! 1, bs' ! 2, bs' ! 3] @ append_be16 [] (port t) @ rest"
      using r by (metis append_take_drop_id)
    have "encode_ss_address a t = Inr (b # [bs' ! 0, bs' ! 1, bs' ! 2, bs' ! 3] @ append_be16 [] (port t))"
      using assms(1) Ipv4 ty eq
      by (simp add: encode_ss_address_def inet_pton_laws_def PacketBuffer_append_def
          append_be16_eq [of "_ # _"] AddressType_of_byte_eq)
    with bs split show ?thesis by auto
  next
    case Domain
    with h have ne: "bs' \<noteq> []" and len: "unat (hd bs') + 2 \<le> length (tl bs')"
      and eq: "host t = string_of_bytes (take (unat (hd bs')) (tl bs'))"
      and r: "append_be16 [] (port t) @ rest = drop (unat (hd bs')) (tl bs')"
      by (auto simp: parse_ss_host_eq split: if_splits)
    have hl: "length (host t) = unat (hd bs')" using len by (simp add: eq)
    have small: "\<not> 255 < unat (hd bs')" using unat_byte_less [of "hd bs'"] by linarith
    have htext: "bytes_of_string (host t) = take (unat (hd bs')) (tl bs')" by (simp add: eq comp_def)
    have "encode_ss_address a t = Inr (b # hd bs' # take (unat (hd bs')) (tl bs') @ append_be16 [] (port t))"
      using Domain ty by (simp add: encode_ss_address_def PacketBuffer_append_def
          append_be16_eq [of "_ # _"] AddressType_of_byte_eq hl small htext)
    moreover have "bs' = hd bs' # take (unat (hd bs')) (tl bs') @ append_be16 [] (port t) @ rest"
      using r ne by simp
    ultimately show ?thesis using bs by auto
  next
    case Ipv6
    with h have len: "18 \<le> length bs'" and eq: "host t = hex_groups (take 16 bs')"
      and r: "append_be16 [] (port t) @ rest = drop 16 bs'"
      by (auto simp: parse_ss_host_eq ipv6_text_full split: if_splits)
    have "encode_ss_address a t = Inr (b # take 16 bs' @ append_be16 [] (port t))"
      using assms(1) Ipv6 ty eq len
      by (simp add: encode_ss_address_def inet_pton_laws_def PacketBuffer_append_def
          append_be16_eq [of "_ # _"] AddressType_of_byte_eq)
    moreover have "bs' = take 16 bs' @ append_be16 [] (port t) @ rest"
      using r by simp
    ultimately show ?thesis using bs by auto
  next
    case (OtherType x)
    with h show ?thesis by (simp add: parse_ss_host_eq)
  qed
qed

section \<open>Parsing undoes encoding\<close>

lemma parse_ss_address_encode_domain:
  assumes "addr_type t = Domain" "length (host t) \<le> 255"
  shows "\<exists>e. encode_ss_address a t = Inr e \<and> parse_ss_address (e @ rest) = Inr (Some t, rest)"
proof -
  let ?n = "word_of_nat (length (host t)) :: byte"
  let ?e = "3 # ?n # bytes_of_string (host t) @ append_be16 [] (port t)"
  have n: "unat ?n = length (host t)"
    using assms(2) by (simp add: unsigned_of_nat take_bit_nat_eq_self)
  have "parse_ss_host (AddressType_of_byte 3) (?n # bytes_of_string (host t) @ append_be16 [] (port t) @ rest)
      = Inr (Some (host t), append_be16 [] (port t) @ rest)"
    by (simp add: parse_ss_host_eq n ss16.put_length comp_def)
  then have "parse_ss_address (?e @ rest) = Inr (Some t, rest)"
    using parse_ss_address_Some [of 3] assms(1) by simp
  moreover have "encode_ss_address a t = Inr ?e"
    using assms by (simp add: encode_ss_address_def PacketBuffer_append_def append_be16_eq [of "_ # _"])
  ultimately show ?thesis by blast
qed

section \<open>More input\<close>

lemma parse_ss_host_extend:
  assumes "parse_ss_host ty bs = Inr (Some h, r)"
  shows "parse_ss_host ty (bs @ x) = Inr (Some h, r @ x)"
proof (cases ty)
  case Ipv4
  with assms show ?thesis by (auto simp: parse_ss_host_eq nth_append split: if_splits)
next
  case Domain
  with assms show ?thesis
    by (cases bs) (auto simp: parse_ss_host_eq split: if_splits)
qed (use assms in \<open>auto simp: parse_ss_host_eq split: if_splits\<close>)

lemma parse_ss_address_extend:
  assumes "parse_ss_address bs = Inr (Some t, r)"
  shows "parse_ss_address (bs @ x) = Inr (Some t, r @ x)"
proof -
  from assms obtain b bs' where bs: "bs = b # bs'" and ty: "addr_type t = AddressType_of_byte b"
    and h: "parse_ss_host (AddressType_of_byte b) bs' = Inr (Some (host t), append_be16 [] (port t) @ r)"
    by (rule parse_ss_address_SomeE)
  have "parse_ss_address (b # bs' @ x) = Inr (Some \<lparr>addr_type = AddressType_of_byte b, host = host t, port = port t\<rparr>, r @ x)"
    using parse_ss_address_Some [of b "bs' @ x" "host t" "port t" "r @ x"] parse_ss_host_extend [OF h, of x] by simp
  then show ?thesis by (simp add: bs flip: ty)
qed

section \<open>An instance of inet_pton\<close>

text \<open>lwIP's own text to address conversions have the laws asked of \<^verbatim>\<open>inet_pton\<close>.\<close>

definition lwip_inet_pton :: inet_pton where
  "lwip_inet_pton =
     \<lparr>inet_pton4 = (\<lambda>s. map_option mem_bytes (ip4addr_aton s)),
      inet_pton6 = (\<lambda>s. map_option ip_addr_bytes (ip6addr_aton s))\<rparr>"

lemma lwip_inet_pton_laws: "inet_pton_laws lwip_inet_pton"
  using ip6addr_aton_text by (fastforce simp: inet_pton_laws_def lwip_inet_pton_def ip4addr_aton_text)

section \<open>Properties\<close>

text \<open>
  (C4) Parsing a target address is total and memory safe: on any bytes a client can send it
  returns an address or \<^verbatim>\<open>nullopt\<close>, and a returned address never consumes bytes
  behind its encoding: the input is the encoding followed by the rest of the view.
\<close>

theorem parse_ss_address_exact:
  assumes "inet_pton_laws a"
  shows "\<exists>r rest. parse_ss_address bs = Inr (r, rest) \<and>
    (\<forall>t. r = Some t \<longrightarrow> (\<exists>e. encode_ss_address a t = Inr e \<and> bs = e @ rest))"
proof -
  obtain r rest where "parse_ss_address bs = Inr (r, rest)"
    using parse_ss_address_total by (metis prod.exhaust)
  with encode_ss_address_parse [OF assms] show ?thesis by blast
qed

theorem parse_ss_address_exact_witness:
  "parse_ss_address [1, 127, 0, 0, 1, 0, 80, 9] = Inr (Some \<lparr>addr_type = Ipv4, host = ipv4_text 127 0 0 1, port = 80\<rparr>, [9]) \<and>
   (\<exists>e. encode_ss_address lwip_inet_pton \<lparr>addr_type = Ipv4, host = ipv4_text 127 0 0 1, port = 80\<rparr> = Inr e \<and>
      [1, 127, 0, 0, 1, 0, 80, 9] = e @ [9])"
proof -
  have p: "parse_ss_address [1, 127, 0, 0, 1, 0, 80, 9] = Inr (Some \<lparr>addr_type = Ipv4, host = ipv4_text 127 0 0 1, port = 80\<rparr>, [9])"
    by (simp add: parse_ss_address_Cons parse_ss_host_eq read_be16_Inr)
  with parse_ss_address_exact [OF lwip_inet_pton_laws, of "[1, 127, 0, 0, 1, 0, 80, 9]"] show ?thesis by simp
qed

text \<open>
  A domain target that fits the length byte survives the trip through the header: it is
  encoded, and parsing the encoding, with any payload behind it, gives it back together with
  that payload.
\<close>

theorem domain_target_roundtrip:
  assumes "addr_type t = Domain" "length (host t) \<le> 255"
  shows "\<exists>e. encode_ss_address a t = Inr e \<and> parse_ss_address (e @ payload) = Inr (Some t, payload)"
  using assms by (rule parse_ss_address_encode_domain)

theorem domain_target_roundtrip_witness:
  "\<exists>e. encode_ss_address lwip_inet_pton \<lparr>addr_type = Domain, host = ''example.org'', port = 443\<rparr> = Inr e \<and>
     parse_ss_address (e @ [1, 2]) = Inr (Some \<lparr>addr_type = Domain, host = ''example.org'', port = 443\<rparr>, [1, 2])"
  by (rule domain_target_roundtrip) simp_all

text \<open>
  A header that is cut short is never mistaken for an address: every proper prefix of an
  encoded address is answered with \<^verbatim>\<open>nullopt\<close>.
\<close>

theorem parse_ss_address_incomplete:
  assumes "parse_ss_address (p @ q @ rest) = Inr (Some t, rest)" "q \<noteq> []"
  shows "\<exists>r. parse_ss_address p = Inr (None, r)"
proof -
  obtain r rest' where r: "parse_ss_address p = Inr (r, rest')"
    using parse_ss_address_total by (metis prod.exhaust)
  have "r = None"
  proof (rule ccontr)
    assume "r \<noteq> None"
    with r obtain t' where "parse_ss_address p = Inr (Some t', rest')" by auto
    from parse_ss_address_extend [OF this, of "q @ rest"] assms show False by simp
  qed
  with r show ?thesis by blast
qed

theorem parse_ss_address_incomplete_witness:
  "\<exists>r. parse_ss_address [3, 1, 97, 0] = Inr (None, r)"
proof (rule parse_ss_address_incomplete)
  show "parse_ss_address ([3, 1, 97, 0] @ [80] @ []) = Inr (Some \<lparr>addr_type = Domain, host = [char_of_byte 97], port = 80\<rparr>, [])"
    by (simp add: parse_ss_address_Cons parse_ss_host_eq read_be16_Inr)
qed simp

end
