(* ===== verification/DnsMessage.thy ===== *)
theory DnsMessage
  imports LwipIpAddr
begin

text \<open>
  The DNS client messages of \<^verbatim>\<open>src/src/LwipRuntime.cpp\<close>, lines 57 to 203:
  building a query and picking an address out of a response that comes from the network.
\<close>

abbreviation (input) DnsPort :: u16 where "DnsPort \<equiv> 53"
abbreviation (input) DnsTypeA :: u16 where "DnsTypeA \<equiv> 1"
abbreviation (input) DnsTypeAaaa :: u16 where "DnsTypeAaaa \<equiv> 28"
abbreviation (input) DnsClassIn :: u16 where "DnsClassIn \<equiv> 1"

section \<open>Fields\<close>

definition append_u16 :: "bytes \<Rightarrow> u16 \<Rightarrow> bytes" where
  "append_u16 out v = out @ [ucast (drop_bit 8 v), ucast (v AND 0xff)]"

definition read_u16 :: "bytes \<Rightarrow> nat \<Rightarrow> u16 result" where
  "read_u16 bs offset =
     bind_result (span_at bs offset) (\<lambda>b0.
     bind_result (span_at bs (offset + 1)) (\<lambda>b1.
       Inr (push_bit 8 (ucast b0) OR ucast b1)))"

definition read_u32 :: "bytes \<Rightarrow> nat \<Rightarrow> u32 result" where
  "read_u32 bs offset =
     bind_result (read_u16 bs offset) (\<lambda>hi.
     bind_result (read_u16 bs (offset + 2)) (\<lambda>lo.
       Inr (push_bit 16 (ucast hi) OR ucast lo)))"

section \<open>Skipping a name\<close>

text \<open>The result is the returned boolean and the offset as the loop leaves it.\<close>

function skip_name_loop :: "bytes \<Rightarrow> nat \<Rightarrow> nat \<Rightarrow> (bool \<times> nat) result" where
  "skip_name_loop packet offset jumps =
     (if offset < length packet then
        (case span_at packet offset of
           Inl e \<Rightarrow> Inl e
         | Inr len \<Rightarrow>
             if len AND 0xc0 = 0xc0 then
               if offset + 1 \<ge> length packet then Inr (False, offset)
               else Inr (True, offset + 2)
             else if len AND 0xc0 \<noteq> 0 then Inr (False, offset)
             else if len = 0 then Inr (True, offset + 1)
             else if offset + 1 + unat len > length packet then Inr (False, offset + 1)
             else if jumps + 1 > 255 then Inr (False, offset + 1)
             else skip_name_loop packet (offset + 1 + unat len) (jumps + 1))
      else Inr (False, offset))"
  by pat_completeness auto
termination
  by (relation "measure (\<lambda>(packet, offset, jumps). length packet - offset)") auto

declare skip_name_loop.simps [simp del]

definition skip_dns_name :: "bytes \<Rightarrow> nat \<Rightarrow> (bool \<times> nat) result" where
  "skip_dns_name packet offset = skip_name_loop packet offset 0"

section \<open>Queries\<close>

function dns_labels :: "string \<Rightarrow> bytes result" where
  "dns_labels rest =
     (if rest = [] then Inr []
      else
        let label = takeWhile (\<lambda>c. c \<noteq> CHR ''.'') rest;
            after = drop (length label) rest
        in if length label = 0 \<or> length label > 63 then Inl (RuntimeError ''invalid DNS label'')
           else
             let enc = word_of_nat (length label) # bytes_of_string label
             in if after = [] then Inr enc
                else case dns_labels (drop 1 after) of
                  Inl e \<Rightarrow> Inl e
                | Inr bs \<Rightarrow> Inr (enc @ bs))"
  by pat_completeness auto
termination
  by (relation "measure length") auto

declare dns_labels.simps [simp del]

definition make_dns_query :: "u16 \<Rightarrow> string \<Rightarrow> u16 \<Rightarrow> bytes result" where
  "make_dns_query qid qname qtype =
     (let out0 = append_u16 (append_u16 (append_u16 (append_u16 (append_u16 (append_u16 [] qid)
                   0x0100) 1) 0) 0) 0
      in bind_result (dns_labels qname) (\<lambda>labels.
           Inr (append_u16 (append_u16 (out0 @ labels @ [0]) qtype) DnsClassIn)))"

section \<open>Responses\<close>

text \<open>In the loops, \<open>Inr None\<close> is \<^verbatim>\<open>return std::nullopt\<close>.\<close>

fun skip_questions :: "bytes \<Rightarrow> nat \<Rightarrow> nat \<Rightarrow> nat option result" where
  "skip_questions packet 0 offset = Inr (Some offset)"
| "skip_questions packet (Suc n) offset =
     bind_result (skip_dns_name packet offset) (\<lambda>(ok, off).
       if \<not> ok \<or> off + 4 > length packet then Inr None
       else skip_questions packet n (off + 4))"

fun scan_answers :: "bytes \<Rightarrow> u16 \<Rightarrow> nat \<Rightarrow> nat \<Rightarrow> ip_addr_t option result" where
  "scan_answers packet qtype 0 offset = Inr None"
| "scan_answers packet qtype (Suc n) offset =
     bind_result (skip_dns_name packet offset) (\<lambda>(ok, off).
       if \<not> ok \<or> off + 10 > length packet then Inr None
       else
         bind_result (read_u16 packet off) (\<lambda>type.
         bind_result (read_u16 packet (off + 2)) (\<lambda>klass.
         bind_result (read_u16 packet (off + 8)) (\<lambda>rdlen.
         let off1 = off + 10 in
         if off1 + unat rdlen > length packet then Inr None
         else if klass = DnsClassIn \<and> type = qtype \<and> type = DnsTypeA \<and> rdlen = 4 then
           bind_result (span_at packet off1) (\<lambda>a.
           bind_result (span_at packet (off1 + 1)) (\<lambda>b.
           bind_result (span_at packet (off1 + 2)) (\<lambda>c.
           bind_result (span_at packet (off1 + 3)) (\<lambda>d.
             Inr (Some (IP_ADDR4 a b c d))))))
         else if klass = DnsClassIn \<and> type = qtype \<and> type = DnsTypeAaaa \<and> rdlen = 16 then
           bind_result (read_u32 packet off1) (\<lambda>w0.
           bind_result (read_u32 packet (off1 + 4)) (\<lambda>w1.
           bind_result (read_u32 packet (off1 + 8)) (\<lambda>w2.
           bind_result (read_u32 packet (off1 + 12)) (\<lambda>w3.
             Inr (Some (IP_ADDR6 w0 w1 w2 w3))))))
         else scan_answers packet qtype n (off1 + unat rdlen)))))"

definition parse_dns_response :: "bytes \<Rightarrow> u16 \<Rightarrow> u16 \<Rightarrow> ip_addr_t option result" where
  "parse_dns_response packet qid qtype =
     (if length packet < 12 then Inr None
      else
        bind_result (read_u16 packet 0) (\<lambda>rid.
        if rid \<noteq> qid then Inr None
        else
          bind_result (read_u16 packet 2) (\<lambda>flags.
          if flags AND 0x8000 = 0 \<or> flags AND 0x000f \<noteq> 0 then Inr None
          else
            bind_result (read_u16 packet 4) (\<lambda>qdcount.
            bind_result (read_u16 packet 6) (\<lambda>ancount.
            bind_result (skip_questions packet (unat qdcount) 12) (\<lambda>off.
            case off of
              None \<Rightarrow> Inr None
            | Some offset \<Rightarrow> scan_answers packet qtype (unat ancount) offset))))))"

section \<open>Reading and writing fields\<close>

lemma read_u16_eq: "offset + 2 \<le> length bs \<Longrightarrow> read_u16 bs offset = Inr (push_bit 8 (ucast (bs ! offset)) OR ucast (bs ! (offset + 1)))"
  by (simp add: read_u16_def span_at_def)

interpretation dns16: be16_field "append_u16 []" read_u16
proof
  fix v :: u16 and xs ys bs :: bytes and i :: nat
  show "length (append_u16 [] v) = 2"
    by (simp add: append_u16_def)
  show "read_u16 (xs @ append_u16 [] v @ ys) (length xs) = Inr v"
    by (simp add: append_u16_def read_u16_eq nth_append be16_join_split)
  show "append_u16 [] v = bs" if "length bs = 2" and "read_u16 bs 0 = Inr v"
  proof -
    from that(1) obtain a b where bs: "bs = [a, b]"
      by (auto simp: numeral_2_eq_2 length_Suc_conv)
    with that(2) have "v = push_bit 8 (ucast a) OR ucast b" by (simp add: read_u16_eq)
    then have "append_u16 [] v = [ucast (drop_bit 8 (push_bit 8 (ucast a) OR ucast b :: u16)),
        ucast ((push_bit 8 (ucast a) OR ucast b :: u16) AND 0xff)]"
      by (simp only: append_u16_def append_Nil)
    then show ?thesis by (simp only: bs be16_high be16_low)
  qed
  show "\<exists>v. read_u16 bs i = Inr v" if "i + 2 \<le> length bs"
    using that by (simp add: read_u16_eq)
qed

lemma append_u16_eq: "append_u16 out v = out @ append_u16 [] v"
  by (simp add: append_u16_def)

lemma read_u32_Inr: "offset + 4 \<le> length bs \<Longrightarrow> \<exists>v. read_u32 bs offset = Inr v"
  by (simp add: read_u32_def read_u16_eq)

section \<open>Memory safety\<close>

lemma skip_name_loop_bounds:
  "\<exists>ok off. skip_name_loop packet offset jumps = Inr (ok, off) \<and> (ok \<longrightarrow> offset < off \<and> off \<le> length packet)"
proof (induction packet offset jumps rule: skip_name_loop.induct)
  case (1 packet offset jumps)
  let ?len = "packet ! offset"
  show ?case
  proof (cases "offset < length packet")
    case False
    then show ?thesis by (subst skip_name_loop.simps) auto
  next
    case True
    then have at: "span_at packet offset = Inr ?len" by (simp add: span_at_def)
    show ?thesis
    proof (cases "?len AND 0xc0 \<noteq> 0xc0 \<and> ?len AND 0xc0 = 0 \<and> ?len \<noteq> 0 \<and>
        offset + 1 + unat ?len \<le> length packet \<and> jumps + 1 \<le> 255")
      case rec: True
      then obtain ok off where
        "skip_name_loop packet (offset + 1 + unat ?len) (jumps + 1) = Inr (ok, off)"
        "ok \<longrightarrow> offset + 1 + unat ?len < off \<and> off \<le> length packet"
        using "1.IH" [OF True at] by auto
      with True at rec show ?thesis by (subst skip_name_loop.simps) auto
    next
      case False
      with True at show ?thesis by (subst skip_name_loop.simps) (auto simp: not_le)
    qed
  qed
qed

lemma skip_dns_name_bounds:
  "\<exists>ok off. skip_dns_name packet offset = Inr (ok, off) \<and> (ok \<longrightarrow> offset < off \<and> off \<le> length packet)"
  unfolding skip_dns_name_def by (rule skip_name_loop_bounds)

lemma skip_questions_total: "\<exists>r. skip_questions packet n offset = Inr r"
proof (induction n arbitrary: offset)
  case (Suc n)
  obtain ok off where "skip_dns_name packet offset = Inr (ok, off)"
    using skip_dns_name_bounds by blast
  with Suc show ?case by auto
qed simp

lemma scan_answers_total: "\<exists>r. scan_answers packet qtype n offset = Inr r"
proof (induction n arbitrary: offset)
  case (Suc n)
  obtain ok off where skip: "skip_dns_name packet offset = Inr (ok, off)"
    using skip_dns_name_bounds by blast
  show ?case
  proof (cases "\<not> ok \<or> length packet < off + 10")
    case True
    with skip show ?thesis by auto
  next
    case False
    then obtain type klass rdlen where
      f: "read_u16 packet off = Inr type" "read_u16 packet (off + 2) = Inr klass"
        "read_u16 packet (off + 8) = Inr rdlen"
      by (simp add: read_u16_eq)
    have b: "\<exists>v. span_at packet (off + 10 + i) = Inr v" if "i < unat rdlen" "off + 10 + unat rdlen \<le> length packet" for i
      using that by (simp add: span_at_def)
    have w: "\<exists>v. read_u32 packet (off + 10 + i) = Inr v" if "i + 4 \<le> unat rdlen" "off + 10 + unat rdlen \<le> length packet" for i
      using that by (intro read_u32_Inr) simp
    show ?thesis
      using skip False f Suc b [of 0] b [of 1] b [of 2] b [of 3] w [of 0] w [of 4] w [of 8] w [of 12]
      by (auto simp: Let_def)
  qed
qed simp

lemma parse_dns_response_total: "\<exists>r. parse_dns_response packet qid qtype = Inr r"
proof (cases "length packet < 12")
  case True
  then show ?thesis by (simp add: parse_dns_response_def)
next
  case False
  obtain qd where qd: "read_u16 packet 4 = Inr qd" using False by (simp add: read_u16_eq)
  obtain an where an: "read_u16 packet 6 = Inr an" using False by (simp add: read_u16_eq)
  obtain off where off: "skip_questions packet (unat qd) 12 = Inr off"
    using skip_questions_total by blast
  show ?thesis
    using False qd an off scan_answers_total
    by (auto simp: parse_dns_response_def read_u16_eq split: option.splits)
qed

section \<open>Names on the wire\<close>

definition enc_labels :: "bytes list \<Rightarrow> bytes" where
  "enc_labels ls = concat (map (\<lambda>l. word_of_nat (length l) # l) ls)"

definition label_ok :: "'a list \<Rightarrow> bool" where
  "label_ok l \<longleftrightarrow> 1 \<le> length l \<and> length l \<le> 63"

lemma enc_labels_simps [simp]:
  "enc_labels [] = []"
  "enc_labels (l # ls) = word_of_nat (length l) # l @ enc_labels ls"
  by (simp_all add: enc_labels_def)

lemma label_byte:
  assumes "n \<le> 63"
  shows "(word_of_nat n :: byte) AND 0xc0 = 0" and "unat (word_of_nat n :: byte) = n"
proof -
  have t: "take_bit 6 (word_of_nat n :: byte) = word_of_nat n"
    using assms by (simp add: take_bit_of_nat take_bit_nat_eq_self)
  have c: "(0xc0 :: byte) = push_bit 6 (mask 2)"
    by (simp add: mask_eq_exp_minus_1 push_bit_eq_mult)
  have "take_bit 6 (word_of_nat n :: byte) AND 0xc0 = 0"
    unfolding c by (rule bit_word_eqI) (auto simp: bit_simps)
  then show "(word_of_nat n :: byte) AND 0xc0 = 0" by (simp only: t)
  show "unat (word_of_nat n :: byte) = n"
    using assms by (simp add: unsigned_of_nat take_bit_nat_eq_self)
qed

lemma word_of_nat_byte_0: "n \<le> 63 \<Longrightarrow> (word_of_nat n :: byte) = 0 \<longleftrightarrow> n = 0"
  using label_byte(2) [of n] by auto

lemma skip_name_loop_labels:
  assumes "\<forall>l\<in>set ls. label_ok l" and "j + length ls \<le> 255"
  shows "skip_name_loop (pre @ enc_labels ls @ rest) (length pre) j =
    skip_name_loop (pre @ enc_labels ls @ rest) (length pre + length (enc_labels ls)) (j + length ls)"
  using assms
proof (induction ls arbitrary: pre j)
  case (Cons l ls)
  let ?b = "word_of_nat (length l) :: byte"
  let ?p = "pre @ enc_labels (l # ls) @ rest"
  let ?pre = "pre @ ?b # l"
  from Cons.prems have l: "1 \<le> length l" "length l \<le> 63" and ls: "\<forall>l\<in>set ls. label_ok l"
    by (auto simp: label_ok_def)
  have "?p ! length pre = ?b" by simp
  then have "skip_name_loop ?p (length pre) j = skip_name_loop ?p (length pre + 1 + length l) (j + 1)"
    using l Cons.prems(2)
    by (subst skip_name_loop.simps) (auto simp: span_at_def label_byte word_of_nat_byte_0)
  moreover have "?p = ?pre @ enc_labels ls @ rest" "length pre + 1 + length l = length ?pre" by simp_all
  moreover have "skip_name_loop (?pre @ enc_labels ls @ rest) (length ?pre) (j + 1) =
    skip_name_loop (?pre @ enc_labels ls @ rest) (length ?pre + length (enc_labels ls)) (j + 1 + length ls)"
    using Cons.prems(2) by (intro Cons.IH ls) simp
  ultimately show ?case by (simp add: add.assoc)
qed simp

text \<open>The encoded names: labels ended by the root label, or by a compression pointer.\<close>

definition dns_name :: "bytes \<Rightarrow> bool" where
  "dns_name nm \<longleftrightarrow>
     (\<exists>ls. (\<forall>l\<in>set ls. label_ok l) \<and> length ls \<le> 255 \<and>
        (nm = enc_labels ls @ [0] \<or> (\<exists>p q. p AND 0xc0 = 0xc0 \<and> nm = enc_labels ls @ [p, q])))"

lemma skip_dns_name_name:
  assumes "dns_name nm"
  shows "skip_dns_name (pre @ nm @ suf) (length pre) = Inr (True, length pre + length nm)"
proof -
  from assms obtain ls tl where ls: "\<forall>l\<in>set ls. label_ok l" "length ls \<le> 255" and nm: "nm = enc_labels ls @ tl"
    and tl: "tl = [0] \<or> (\<exists>p q. p AND 0xc0 = 0xc0 \<and> tl = [p, q])"
    by (auto simp: dns_name_def)
  let ?p = "pre @ enc_labels ls @ tl @ suf"
  let ?o = "length pre + length (enc_labels ls)"
  have "skip_dns_name ?p (length pre) = skip_name_loop ?p ?o (length ls)"
    using skip_name_loop_labels [of ls 0 pre "tl @ suf"] ls by (simp add: skip_dns_name_def)
  moreover have "?p ! ?o = hd tl" "?o < length ?p"
    using tl by (auto simp: nth_append)
  ultimately show ?thesis
    using tl by (auto simp: nm skip_name_loop.simps [of ?p ?o] span_at_def)
qed

section \<open>Queries are well formed\<close>

text \<open>The labels of a host name: the parts between dots; a dot at the end adds nothing.\<close>

function labels_of :: "string \<Rightarrow> string list" where
  "labels_of s =
     (if s = [] then []
      else takeWhile (\<lambda>c. c \<noteq> CHR ''.'') s # labels_of (drop 1 (dropWhile (\<lambda>c. c \<noteq> CHR ''.'') s)))"
  by pat_completeness auto
termination
proof (relation "measure length")
  fix s :: string assume "s \<noteq> []"
  moreover have "length (dropWhile (\<lambda>c. c \<noteq> CHR ''.'') s) \<le> length s" by (rule length_dropWhile_le)
  ultimately show "(drop 1 (dropWhile (\<lambda>c. c \<noteq> CHR ''.'') s), s) \<in> measure length"
    by (cases s) (auto simp: less_Suc_eq_le)
qed simp

declare labels_of.simps [simp del]

lemma drop_takeWhile: "drop (length (takeWhile P xs)) xs = dropWhile P xs"
  by (metis dropWhile_eq_drop)

lemma label_ok_iff: "\<not> label_ok l \<longleftrightarrow> length l = 0 \<or> 63 < length l"
  by (auto simp: label_ok_def Suc_le_eq)

lemma dns_labels_step:
  assumes "s \<noteq> []" "l = takeWhile (\<lambda>c. c \<noteq> CHR ''.'') s" "d = dropWhile (\<lambda>c. c \<noteq> CHR ''.'') s"
  shows "dns_labels s =
    (if \<not> label_ok l then Inl (RuntimeError ''invalid DNS label'')
     else if d = [] then Inr (word_of_nat (length l) # bytes_of_string l)
     else bind_result (dns_labels (drop 1 d)) (\<lambda>bs. Inr ((word_of_nat (length l) # bytes_of_string l) @ bs)))"
proof -
  have s: "s = l @ d" using assms(2,3) by simp
  have "(length s \<le> length l) = (d = [])" "drop (length l + 1) s = drop 1 d" by (simp_all add: s)
  with assms(1) show ?thesis
    unfolding dns_labels.simps [of s] Let_def assms(2) [symmetric] label_ok_iff bind_result_def by simp
qed

lemma labels_of_step:
  assumes "s \<noteq> []" "l = takeWhile (\<lambda>c. c \<noteq> CHR ''.'') s" "d = dropWhile (\<lambda>c. c \<noteq> CHR ''.'') s"
  shows "labels_of s = l # labels_of (drop 1 d)"
  unfolding labels_of.simps [of s] assms(2,3) [symmetric] using assms(1) by simp

lemma labels_of_Nil [simp]: "labels_of [] = []" "dns_labels [] = Inr []"
  by (simp_all add: labels_of.simps [of "[]"] dns_labels.simps [of "[]"])

lemma dns_labels_eq:
  "dns_labels s =
     (if \<forall>l\<in>set (labels_of s). label_ok l then Inr (enc_labels (map bytes_of_string (labels_of s)))
      else Inl (RuntimeError ''invalid DNS label''))"
proof (induction s rule: labels_of.induct)
  case (1 s)
  show ?case
  proof (cases "s = []")
    case False
    define l where l: "l = takeWhile (\<lambda>c. c \<noteq> CHR ''.'') s"
    define d where d: "d = dropWhile (\<lambda>c. c \<noteq> CHR ''.'') s"
    from "1.IH" [OF False] have IH: "dns_labels (drop 1 d) =
        (if \<forall>l\<in>set (labels_of (drop 1 d)). label_ok l
         then Inr (enc_labels (map bytes_of_string (labels_of (drop 1 d))))
         else Inl (RuntimeError ''invalid DNS label''))"
      by (simp only: d)
    note dns_labels_step [OF False l d] labels_of_step [OF False l d]
    with IH show ?thesis by (cases "d = []") auto
  qed simp
qed

lemma labels_of_length: "length (enc_labels (map bytes_of_string (labels_of s))) \<le> length s + 1"
proof (induction s rule: labels_of.induct)
  case (1 s)
  show ?case
  proof (cases "s = []")
    case False
    define l where l: "l = takeWhile (\<lambda>c. c \<noteq> CHR ''.'') s"
    define d where d: "d = dropWhile (\<lambda>c. c \<noteq> CHR ''.'') s"
    have "length l + length d = length s" unfolding l d by (metis length_append takeWhile_dropWhile_id)
    moreover have "length (enc_labels (map bytes_of_string (labels_of (drop 1 d)))) \<le> length (drop 1 d) + 1"
      using "1.IH" [OF False] by (simp only: d)
    ultimately show ?thesis
      using labels_of_step [OF False l d] by (cases "d = []") auto
  qed simp
qed

lemma enc_labels_count: "\<forall>l\<in>set ls. label_ok l \<Longrightarrow> 2 * length ls \<le> length (enc_labels ls)"
  by (induction ls) (auto simp: label_ok_def)

lemma make_dns_query_shape:
  assumes "length qname \<le> 255" "\<forall>l\<in>set (labels_of qname). label_ok l"
  shows "\<exists>nm. dns_name nm \<and> length nm \<le> length qname + 2 \<and>
    make_dns_query qid qname qtype =
      Inr (concat (map (append_u16 []) [qid, 0x0100, 1, 0, 0, 0]) @ nm @ append_u16 [] qtype @ append_u16 [] DnsClassIn)"
proof -
  let ?ls = "map bytes_of_string (labels_of qname)"
  let ?nm = "enc_labels ?ls @ [0]"
  have ok: "\<forall>l\<in>set ?ls. label_ok l" using assms(2) by (simp add: label_ok_def)
  have "2 * length ?ls \<le> 256"
    using enc_labels_count [OF ok] labels_of_length [of qname] assms(1) by linarith
  then have "dns_name ?nm" unfolding dns_name_def using ok by (intro exI [of _ ?ls]) simp
  moreover have "length ?nm \<le> length qname + 2" using labels_of_length [of qname] by simp
  moreover have "make_dns_query qid qname qtype =
      Inr (concat (map (append_u16 []) [qid, 0x0100, 1, 0, 0, 0]) @ ?nm @ append_u16 [] qtype @ append_u16 [] DnsClassIn)"
    using assms(2) by (simp add: make_dns_query_def dns_labels_eq append_u16_def)
  ultimately show ?thesis by blast
qed

section \<open>Responses built from records\<close>

text \<open>
  A reference encoder of responses, to say what the parser finds: a header, questions (an
  encoded name and four bytes) and resource records.
\<close>

record dns_rr =
  rr_name :: bytes
  rr_type :: u16
  rr_class :: u16
  rr_ttl :: bytes
  rr_data :: bytes

definition rr_ok :: "dns_rr \<Rightarrow> bool" where
  "rr_ok r \<longleftrightarrow> dns_name (rr_name r) \<and> length (rr_ttl r) = 4 \<and> length (rr_data r) < 65536"

definition enc_rr :: "dns_rr \<Rightarrow> bytes" where
  "enc_rr r = rr_name r @ append_u16 [] (rr_type r) @ append_u16 [] (rr_class r) @ rr_ttl r @
     append_u16 [] (word_of_nat (length (rr_data r))) @ rr_data r"

definition question_ok :: "bytes \<Rightarrow> bool" where
  "question_ok q \<longleftrightarrow> (\<exists>nm x. dns_name nm \<and> length x = 4 \<and> q = nm @ x)"

definition dns_response :: "u16 \<Rightarrow> u16 \<Rightarrow> u16 \<Rightarrow> u16 \<Rightarrow> bytes list \<Rightarrow> dns_rr list \<Rightarrow> bytes \<Rightarrow> bytes" where
  "dns_response qid flags ns ar qs rs extra =
     concat (map (append_u16 []) [qid, flags, word_of_nat (length qs), word_of_nat (length rs), ns, ar]) @
     concat qs @ concat (map enc_rr rs) @ extra"

text \<open>The address the first record with class IN, the asked type and the right length carries.\<close>

definition rr_address :: "u16 \<Rightarrow> dns_rr \<Rightarrow> ip_addr_t option" where
  "rr_address qtype r =
     (let d = rr_data r
      in if rr_class r = DnsClassIn \<and> rr_type r = qtype \<and> qtype = DnsTypeA \<and> length d = 4 then
           Some (IP_ADDR4 (d ! 0) (d ! 1) (d ! 2) (d ! 3))
         else if rr_class r = DnsClassIn \<and> rr_type r = qtype \<and> qtype = DnsTypeAaaa \<and> length d = 16 then
           Some (IP_ADDR6 (LWIP_MAKEU32 (d ! 0) (d ! 1) (d ! 2) (d ! 3))
                          (LWIP_MAKEU32 (d ! 4) (d ! 5) (d ! 6) (d ! 7))
                          (LWIP_MAKEU32 (d ! 8) (d ! 9) (d ! 10) (d ! 11))
                          (LWIP_MAKEU32 (d ! 12) (d ! 13) (d ! 14) (d ! 15)))
         else None)"

fun first_address :: "u16 \<Rightarrow> dns_rr list \<Rightarrow> ip_addr_t option" where
  "first_address qtype [] = None"
| "first_address qtype (r # rs) =
     (case rr_address qtype r of Some ip \<Rightarrow> Some ip | None \<Rightarrow> first_address qtype rs)"

lemma skip_questions_ok:
  assumes "\<forall>q\<in>set qs. question_ok q"
  shows "skip_questions (pre @ concat qs @ suf) (length qs) (length pre) = Inr (Some (length pre + length (concat qs)))"
  using assms
proof (induction qs arbitrary: pre)
  case (Cons q qs)
  then obtain nm x where q: "dns_name nm" "length x = 4" "q = nm @ x"
    by (auto simp: question_ok_def)
  have "skip_dns_name (pre @ nm @ x @ concat qs @ suf) (length pre) = Inr (True, length pre + length nm)"
    using q(1) by (rule skip_dns_name_name)
  moreover have "skip_questions ((pre @ nm @ x) @ concat qs @ suf) (length qs) (length (pre @ nm @ x)) =
      Inr (Some (length (pre @ nm @ x) + length (concat qs)))"
    using Cons by (intro Cons.IH) simp
  ultimately show ?case using q(2) by (simp add: q(3) ac_simps)
qed simp

lemma read_u16_at: "length xs = i \<Longrightarrow> read_u16 (xs @ append_u16 [] v @ ys) i = Inr v"
  using dns16.get_put by blast

lemma read_u32_at:
  assumes "i + 4 \<le> length bs"
  shows "read_u32 bs i = Inr (LWIP_MAKEU32 (bs ! i) (bs ! (i + 1)) (bs ! (i + 2)) (bs ! (i + 3)))"
proof -
  have "push_bit 16 (ucast (push_bit 8 (ucast a) OR ucast b :: u16)) OR ucast (push_bit 8 (ucast c) OR ucast d :: u16)
      = LWIP_MAKEU32 a b c d" for a b c d :: byte
  proof -
    have w: "ucast (push_bit 8 (ucast x) OR ucast y :: u16) = (push_bit 8 (ucast x) OR ucast y :: u32)" for x y :: byte
      by (rule bit_word_eqI) (auto simp: bit_simps dest: bit_imp_le_length)
    show ?thesis by (simp add: w LWIP_MAKEU32_def push_bit_or or.assoc)
  qed
  with assms show ?thesis by (simp add: read_u32_def read_u16_eq add.assoc numeral_3_eq_3)
qed

lemma scan_answers_step:
  assumes "rr_ok r"
  shows "scan_answers (pre @ enc_rr r @ suf) qtype (Suc n) (length pre) =
    (case rr_address qtype r of
       Some ip \<Rightarrow> Inr (Some ip)
     | None \<Rightarrow> scan_answers (pre @ enc_rr r @ suf) qtype n (length pre + length (enc_rr r)))"
proof -
  let ?p = "pre @ enc_rr r @ suf" and ?o = "length pre + length (rr_name r)"
  let ?len = "word_of_nat (length (rr_data r)) :: u16"
  from assms have r: "dns_name (rr_name r)" "length (rr_ttl r) = 4" "length (rr_data r) < 65536"
    by (simp_all add: rr_ok_def)
  then have len: "unat ?len = length (rr_data r)"
    by (simp add: unsigned_of_nat take_bit_nat_eq_self)
  then have len4: "?len = 4 \<longleftrightarrow> length (rr_data r) = 4" and len16: "?len = 16 \<longleftrightarrow> length (rr_data r) = 16"
    by (auto simp: word_unat_eq_iff)
  have skip: "skip_dns_name ?p (length pre) = Inr (True, ?o)"
    using skip_dns_name_name [OF r(1)] by (simp add: enc_rr_def)
  note p2 = dns16.put_length
  have ty: "read_u16 ?p ?o = Inr (rr_type r)"
    using read_u16_at [of "pre @ rr_name r" ?o "rr_type r"] by (simp add: enc_rr_def)
  have kl: "read_u16 ?p (?o + 2) = Inr (rr_class r)"
    using read_u16_at [of "pre @ rr_name r @ append_u16 [] (rr_type r)" "?o + 2" "rr_class r"]
    by (simp add: enc_rr_def p2)
  have rl: "read_u16 ?p (?o + 8) = Inr ?len"
    using read_u16_at [of "pre @ rr_name r @ append_u16 [] (rr_type r) @ append_u16 [] (rr_class r) @ rr_ttl r" "?o + 8" ?len]
    by (simp add: enc_rr_def p2 r)
  have size: "length (enc_rr r) = length (rr_name r) + 10 + length (rr_data r)"
    by (simp add: enc_rr_def p2 r)
  have data: "?p ! (?o + 10 + i) = rr_data r ! i" if "i < length (rr_data r)" for i
    using that by (simp add: enc_rr_def p2 r nth_append)
  have bat: "span_at ?p (?o + 10 + i) = Inr (rr_data r ! i)" if "i < length (rr_data r)" for i
    using that data [OF that] size by (simp add: span_at_def)
  have wat: "read_u32 ?p (?o + 10 + i) = Inr (LWIP_MAKEU32 (rr_data r ! i) (rr_data r ! (i + 1)) (rr_data r ! (i + 2)) (rr_data r ! (i + 3)))"
    if "i + 4 \<le> length (rr_data r)" for i
    using that size data [of i] data [of "i + 1"] data [of "i + 2"] data [of "i + 3"]
    by (subst read_u32_at) (simp_all add: add.assoc)
  have unfolded: "scan_answers ?p qtype (Suc n) (length pre) =
     (if rr_class r = DnsClassIn \<and> rr_type r = qtype \<and> rr_type r = DnsTypeA \<and> ?len = 4 then
        bind_result (span_at ?p (?o + 10)) (\<lambda>a. bind_result (span_at ?p (?o + 10 + 1)) (\<lambda>b.
        bind_result (span_at ?p (?o + 10 + 2)) (\<lambda>c. bind_result (span_at ?p (?o + 10 + 3)) (\<lambda>d.
          Inr (Some (IP_ADDR4 a b c d))))))
      else if rr_class r = DnsClassIn \<and> rr_type r = qtype \<and> rr_type r = DnsTypeAaaa \<and> ?len = 16 then
        bind_result (read_u32 ?p (?o + 10)) (\<lambda>w0. bind_result (read_u32 ?p (?o + 10 + 4)) (\<lambda>w1.
        bind_result (read_u32 ?p (?o + 10 + 8)) (\<lambda>w2. bind_result (read_u32 ?p (?o + 10 + 12)) (\<lambda>w3.
          Inr (Some (IP_ADDR6 w0 w1 w2 w3))))))
      else scan_answers ?p qtype n (?o + 10 + unat ?len))"
    using skip ty kl rl size len by (simp add: Let_def)
  show ?thesis
  proof (cases "length (rr_data r) = 4")
    case True
    with unfolded len4 len16 bat [of 0] bat [of 1] bat [of 2] bat [of 3] show ?thesis
      by (auto simp: rr_address_def Let_def size len add.assoc simp del: scan_answers.simps add_2_eq_Suc add_2_eq_Suc')
  next
    case False
    show ?thesis
    proof (cases "length (rr_data r) = 16")
      case True
      with unfolded len4 len16 wat [of 0] wat [of 4] wat [of 8] wat [of 12] show ?thesis
        by (auto simp: rr_address_def Let_def size len add.assoc simp del: scan_answers.simps add_2_eq_Suc add_2_eq_Suc')
    next
      case neither: False
      with False unfolded len4 len16 show ?thesis
        by (auto simp: rr_address_def Let_def size len add.assoc simp del: scan_answers.simps)
    qed
  qed
qed

lemma scan_answers_records:
  assumes "\<forall>r\<in>set rs. rr_ok r"
  shows "scan_answers (pre @ concat (map enc_rr rs) @ suf) qtype (length rs) (length pre) = Inr (first_address qtype rs)"
  using assms
proof (induction rs arbitrary: pre)
  case (Cons r rs)
  let ?rest = "concat (map enc_rr rs) @ suf"
  have "scan_answers ((pre @ enc_rr r) @ ?rest) qtype (length rs) (length (pre @ enc_rr r)) = Inr (first_address qtype rs)"
    using Cons.prems by (intro Cons.IH) simp
  with Cons.prems show ?case
    using scan_answers_step [of r pre ?rest qtype "length rs"]
    by (simp del: scan_answers.simps split: option.splits)
qed simp

lemma parse_dns_response_header:
  assumes "read_u16 p 0 = Inr qid" "read_u16 p 2 = Inr flags"
    "read_u16 p 4 = Inr qd" "read_u16 p 6 = Inr an" "12 \<le> length p"
    "flags AND 0x8000 \<noteq> 0" "flags AND 0x000f = 0"
    "skip_questions p (unat qd) 12 = Inr (Some off)"
  shows "parse_dns_response p qid qtype = scan_answers p qtype (unat an) off"
  using assms by (simp add: parse_dns_response_def)

lemma parse_dns_response_records:
  assumes "\<forall>q\<in>set qs. question_ok q" "\<forall>r\<in>set rs. rr_ok r" "length qs < 65536" "length rs < 65536"
    and "flags AND 0x8000 \<noteq> 0" "flags AND 0x000f = 0"
  shows "parse_dns_response (dns_response qid flags ns ar qs rs extra) qid qtype = Inr (first_address qtype rs)"
proof -
  define h :: "u16 list" where "h = [qid, flags, word_of_nat (length qs), word_of_nat (length rs), ns, ar]"
  define hb where "hb = concat (map (append_u16 []) h)"
  let ?body = "concat qs @ concat (map enc_rr rs) @ extra"
  have hlen: "length hb = 12" unfolding hb_def dns16.fields_length by (simp add: h_def)
  have f: "read_u16 (hb @ ?body) (2 * i) = Inr (h ! i)" if "i < 6" for i
    unfolding hb_def using that by (intro dns16.get_field) (simp add: h_def)
  have n: "unat (word_of_nat (length qs) :: u16) = length qs" "unat (word_of_nat (length rs) :: u16) = length rs"
    using assms(3,4) by (simp_all add: unsigned_of_nat take_bit_nat_eq_self)
  have q: "skip_questions (hb @ ?body) (length qs) 12 = Inr (Some (12 + length (concat qs)))"
    using skip_questions_ok [OF assms(1), of hb] hlen by simp
  have a: "scan_answers (hb @ ?body) qtype (length rs) (12 + length (concat qs)) = Inr (first_address qtype rs)"
    using scan_answers_records [OF assms(2), of "hb @ concat qs"] hlen by simp
  have f0: "read_u16 (hb @ ?body) 0 = Inr qid" using f [of 0] by (simp add: h_def)
  have f1: "read_u16 (hb @ ?body) 2 = Inr flags" using f [of 1] by (simp add: h_def)
  have f2: "read_u16 (hb @ ?body) 4 = Inr (word_of_nat (length qs))" using f [of 2] by (simp add: h_def)
  have f3: "read_u16 (hb @ ?body) 6 = Inr (word_of_nat (length rs))" using f [of 3] by (simp add: h_def)
  have "parse_dns_response (hb @ ?body) qid qtype =
      scan_answers (hb @ ?body) qtype (unat (word_of_nat (length rs) :: u16)) (12 + length (concat qs))"
    by (rule parse_dns_response_header [OF f0 f1 f2 f3 _ assms(5,6)]) (simp_all add: hlen n q)
  then have "parse_dns_response (hb @ ?body) qid qtype = scan_answers (hb @ ?body) qtype (length rs) (12 + length (concat qs))"
    by (simp only: n)
  then show ?thesis using a by (simp add: dns_response_def hb_def h_def)
qed

lemma mem_bytes_makeu32: "mem_bytes (LWIP_MAKEU32 a b c d) = [d, c, b, a]"
proof -
  let ?w = "LWIP_MAKEU32 a b c d"
  have "ucast ?w = d" "ucast (drop_bit 8 ?w) = c" "ucast (drop_bit 16 ?w) = b" "ucast (drop_bit 24 ?w) = a"
    unfolding LWIP_MAKEU32_def
    by (rule bit_word_eqI; auto simp: bit_simps dest: bit_imp_le_length)+
  then show ?thesis by (simp add: mem_bytes_def)
qed

section \<open>Addresses found, byte by byte\<close>

definition rr_matches :: "u16 \<Rightarrow> nat \<Rightarrow> dns_rr \<Rightarrow> bool" where
  "rr_matches qtype n r \<longleftrightarrow> rr_class r = DnsClassIn \<and> rr_type r = qtype \<and> length (rr_data r) = n"

fun swap_words :: "bytes \<Rightarrow> bytes" where
  "swap_words (a # b # c # d # bs) = d # c # b # a # swap_words bs"
| "swap_words bs = bs"

lemma list4: "length d = 4 \<Longrightarrow> d = [d ! 0, d ! 1, d ! 2, d ! 3]"
  by (auto simp: numeral_eq_Suc length_Suc_conv)

lemma rr_address_A:
  "map_option ip_addr_bytes (rr_address DnsTypeA r) = (if rr_matches DnsTypeA 4 r then Some (rr_data r) else None)"
  using list4 [of "rr_data r"] by (auto simp: rr_address_def rr_matches_def Let_def IP_ADDR4_def)

lemma rr_address_AAAA:
  "map_option ip_addr_bytes (rr_address DnsTypeAaaa r) =
     (if rr_matches DnsTypeAaaa 16 r then Some (swap_words (rr_data r)) else None)"
proof (cases "length (rr_data r) = 16")
  case True
  then obtain b0 b1 b2 b3 b4 b5 b6 b7 b8 b9 b10 b11 b12 b13 b14 b15 where
    "rr_data r = [b0, b1, b2, b3, b4, b5, b6, b7, b8, b9, b10, b11, b12, b13, b14, b15]"
    by (rule list16)
  then show ?thesis
    by (simp add: rr_address_def rr_matches_def Let_def IP_ADDR6_def mem_bytes_makeu32)
qed (simp add: rr_address_def rr_matches_def Let_def)

lemma first_address_find:
  assumes "\<And>r. map_option ip_addr_bytes (rr_address qtype r) = (if P r then Some (f r) else None)"
  shows "map_option ip_addr_bytes (first_address qtype rs) = map_option f (find P rs)"
proof (induction rs)
  case (Cons r rs)
  with assms [of r] show ?case by (auto split: option.splits if_splits)
qed simp

lemma concat_header_length: "length (concat (map (append_u16 []) [a, b, c, d, e, f])) = 12"
  by (simp only: dns16.fields_length) simp

section \<open>Properties\<close>

text \<open>
  (C13) The response parser is total and memory safe: on any datagram, however malformed, it
  reads only inside the packet and ends with an address or \<^verbatim>\<open>nullopt\<close>.
\<close>

theorem parse_dns_response_safe: "\<exists>r. parse_dns_response packet qid qtype = Inr r"
  by (rule parse_dns_response_total)

text \<open>
  (C22) On a response built from questions and records, an A lookup gives the four data bytes of
  the first record of class IN and type A with four bytes of data, in network order, and
  nothing when there is no such record. Names may be compressed, other records in between
  are skipped.
\<close>

theorem dns_answer_A:
  assumes "\<forall>q\<in>set qs. question_ok q" "\<forall>r\<in>set rs. rr_ok r" "length qs < 65536" "length rs < 65536"
    and "flags AND 0x8000 \<noteq> 0" "flags AND 0x000f = 0"
  shows "\<exists>res. parse_dns_response (dns_response qid flags ns ar qs rs extra) qid DnsTypeA = Inr res \<and>
    map_option ip_addr_bytes res = map_option rr_data (find (rr_matches DnsTypeA 4) rs)"
  using parse_dns_response_records [OF assms] first_address_find [OF rr_address_A] by blast

definition example_name :: bytes where
  "example_name = [1, 97, 0]"

definition example_rr :: "u16 \<Rightarrow> bytes \<Rightarrow> dns_rr" where
  "example_rr ty d = \<lparr>rr_name = [0xc0, 12], rr_type = ty, rr_class = 1, rr_ttl = [0, 0, 0, 60], rr_data = d\<rparr>"

lemma example_ok:
  "question_ok (example_name @ [0, 1, 0, 1])"
  "length d < 65536 \<Longrightarrow> rr_ok (example_rr ty d)"
proof -
  have "dns_name example_name"
    unfolding dns_name_def by (rule exI [of _ "[[97]]"]) (simp add: example_name_def label_ok_def)
  then show "question_ok (example_name @ [0, 1, 0, 1])"
    unfolding question_ok_def by (intro exI [of _ example_name] exI [of _ "[0, 1, 0, 1]"]) simp
  have "dns_name [0xc0, 12]"
    unfolding dns_name_def by (rule exI [of _ "[]"]) simp
  then show "length d < 65536 \<Longrightarrow> rr_ok (example_rr ty d)" by (simp add: rr_ok_def example_rr_def)
qed

theorem dns_answer_A_witness:
  "\<exists>res. parse_dns_response (dns_response 7 0x8180 0 0 [example_name @ [0, 1, 0, 1]]
       [example_rr 5 [1, 98, 0], example_rr 1 [10, 0, 0, 1]] []) 7 DnsTypeA = Inr res \<and>
     map_option ip_addr_bytes res = Some [10, 0, 0, 1]"
  using dns_answer_A [of "[example_name @ [0, 1, 0, 1]]" "[example_rr 5 [1, 98, 0], example_rr 1 [10, 0, 0, 1]]"
      "0x8180" 7 0 0 "[]"]
  by (simp add: example_ok) (simp add: rr_matches_def example_rr_def)

text \<open>
  (C36) An AAAA lookup finds the first record of class IN and type AAAA with sixteen bytes of
  data, but the address it returns has the bytes of each 32-bit word reversed: the words are
  read as host-order numbers and stored by the macro that expects network order.
\<close>

theorem dns_answer_AAAA_swapped:
  assumes "\<forall>q\<in>set qs. question_ok q" "\<forall>r\<in>set rs. rr_ok r" "length qs < 65536" "length rs < 65536"
    and "flags AND 0x8000 \<noteq> 0" "flags AND 0x000f = 0"
  shows "\<exists>res. parse_dns_response (dns_response qid flags ns ar qs rs extra) qid DnsTypeAaaa = Inr res \<and>
    map_option ip_addr_bytes res = map_option (\<lambda>r. swap_words (rr_data r)) (find (rr_matches DnsTypeAaaa 16) rs)"
  using parse_dns_response_records [OF assms] first_address_find [OF rr_address_AAAA] by blast

theorem dns_answer_AAAA_swapped_witness:
  "\<exists>res. parse_dns_response (dns_response 7 0x8180 0 0 []
       [example_rr 28 [0x20, 1, 0xd, 0xb8, 0, 0, 0, 0, 0, 0, 0, 0, 0, 0, 0, 1]] []) 7 DnsTypeAaaa = Inr res \<and>
     map_option ip_addr_bytes res = Some [0xb8, 0xd, 1, 0x20, 0, 0, 0, 0, 0, 0, 0, 0, 1, 0, 0, 0]"
  using dns_answer_AAAA_swapped [of "[]" "[example_rr 28 [0x20, 1, 0xd, 0xb8, 0, 0, 0, 0, 0, 0, 0, 0, 0, 0, 0, 1]]"
      "0x8180" 7 0 0 "[]"]
  by (simp add: example_ok) (simp add: rr_matches_def example_rr_def)

text \<open>
  (C23) A query for a name of at most 255 characters is built exactly when every label has 1 to
  63 characters (an empty trailing label is ignored), and then it is a well-formed message of
  one question: header fields, a name the parser's own name scanner accepts, and type and
  class in the last four bytes.
\<close>

theorem make_dns_query_wellformed:
  assumes "length qname \<le> 255"
  shows "if \<forall>l\<in>set (labels_of qname). label_ok l then
      \<exists>q. make_dns_query qid qname qtype = Inr q \<and> length q \<le> length qname + 18 \<and>
        read_u16 q 0 = Inr qid \<and> read_u16 q 2 = Inr 0x0100 \<and> read_u16 q 4 = Inr 1 \<and>
        skip_dns_name q 12 = Inr (True, length q - 4) \<and>
        read_u16 q (length q - 4) = Inr qtype \<and> read_u16 q (length q - 2) = Inr DnsClassIn
    else make_dns_query qid qname qtype = Inl (RuntimeError ''invalid DNS label'')"
proof (cases "\<forall>l\<in>set (labels_of qname). label_ok l")
  case False
  then have "dns_labels qname = Inl (RuntimeError ''invalid DNS label'')" by (simp only: dns_labels_eq if_False)
  then show ?thesis unfolding if_not_P [OF False] by (simp add: make_dns_query_def)
next
  case True
  let ?h = "concat (map (append_u16 []) [qid, 0x0100, 1, 0, 0, 0])"
  obtain nm where nm: "dns_name nm" "length nm \<le> length qname + 2" and q: "make_dns_query qid qname qtype =
      Inr (?h @ nm @ append_u16 [] qtype @ append_u16 [] DnsClassIn)" (is "_ = Inr ?q")
    using make_dns_query_shape [OF assms True] by blast
  note hl = concat_header_length [of qid "0x0100" 1 0 0 0] and p2 = dns16.put_length
  have len: "length ?q = 16 + length nm" by (simp only: length_append hl p2)
  have f: "read_u16 ?q (2 * i) = Inr ([qid, 0x0100, 1, 0, 0, 0] ! i)" if "i < 6" for i
    by (rule dns16.get_field) (use that in simp)
  have s: "skip_dns_name ?q 12 = Inr (True, 12 + length nm)"
    using skip_dns_name_name [OF nm(1), of ?h] by (simp only: hl)
  have t: "read_u16 ?q (12 + length nm) = Inr qtype"
    using dns16.get_put [of "?h @ nm" qtype "append_u16 [] DnsClassIn"] by (simp only: length_append hl append_assoc)
  have c: "read_u16 ?q (14 + length nm) = Inr DnsClassIn"
    using dns16.get_put [of "?h @ nm @ append_u16 [] qtype" DnsClassIn "[]"]
    by (simp only: length_append hl p2 append_assoc append_Nil2) (simp add: add.commute)
  define m where m: "m = ?q"
  note facts = q len f [of 0] f [of 1] f [of 2] s t c
  have "length m - 4 = 12 + length nm" "length m - 2 = 14 + length nm" using len unfolding m [symmetric] by simp_all
  with facts nm(2) show ?thesis
    unfolding if_P [OF True] m [symmetric] by (intro exI [of _ m]) simp
qed

theorem make_dns_query_wellformed_witness:
  "\<exists>q. make_dns_query 3 ''a.b'' DnsTypeA = Inr q \<and> skip_dns_name q 12 = Inr (True, length q - 4)"
proof -
  have "\<forall>l\<in>set (labels_of ''a.b''). label_ok l"
    by (simp add: labels_of.simps label_ok_def)
  with make_dns_query_wellformed [of "''a.b''" 3 DnsTypeA] show ?thesis by auto
qed

end
