(* ===== verification/LwipTypes.thy ===== *)
theory LwipTypes
  imports LwipIpAddr
begin

text \<open>
  Plain data of lwIP that the program uses: error codes, TCP states and the limits set in
  \<^verbatim>\<open>src/third_party/lwipopts.h\<close>.
\<close>

datatype err_t =
    ERR_OK | ERR_MEM | ERR_BUF | ERR_TIMEOUT | ERR_RTE | ERR_INPROGRESS | ERR_VAL
  | ERR_WOULDBLOCK | ERR_USE | ERR_ALREADY | ERR_ISCONN | ERR_CONN | ERR_IF
  | ERR_ABRT | ERR_RST | ERR_CLSD | ERR_ARG

datatype tcp_state =
    CLOSED | LISTEN | SYN_SENT | SYN_RCVD | ESTABLISHED | FIN_WAIT_1 | FIN_WAIT_2
  | CLOSE_WAIT | CLOSING | LAST_ACK | TIME_WAIT

definition TCP_MSS :: nat where "TCP_MSS = 1360"

definition TCP_SND_BUF :: nat where "TCP_SND_BUF = 32 * TCP_MSS"

definition TCP_SND_QUEUELEN :: nat where "TCP_SND_QUEUELEN = 8 * TCP_SND_BUF div TCP_MSS"

section \<open>Packet buffers\<close>

text \<open>
  A \<^verbatim>\<open>pbuf\<close> is a chain of buffers, here the list of their payloads; \<^verbatim>\<open>tot_len\<close> is
  the field of the first one. A chain is well formed when its size fits that field.
\<close>

type_synonym pbuf = "bytes list"

definition tot_len :: "pbuf \<Rightarrow> u16" where
  "tot_len p = word_of_nat (length (concat p))"

definition pbuf_wf :: "pbuf \<Rightarrow> bool" where
  "pbuf_wf p \<longleftrightarrow> length (concat p) < 65536"

fun pbuf_copy_partial :: "pbuf \<Rightarrow> u16 \<Rightarrow> u16 \<Rightarrow> bytes" where
  "pbuf_copy_partial [] len offset = []"
| "pbuf_copy_partial (payload # next) len offset =
     (if len = 0 then []
      else
        let plen = word_of_nat (length payload) :: u16
        in if offset \<noteq> 0 \<and> offset \<ge> plen then pbuf_copy_partial next len (offset - plen)
           else
             let n = (if plen - offset > len then len else plen - offset)
             in take (unat n) (drop (unat offset) payload) @ pbuf_copy_partial next (len - n) 0)"

text \<open>Copying \<^verbatim>\<open>tot_len\<close> bytes from the start copies the whole chain.\<close>

lemma pbuf_copy_partial_all:
  "pbuf_wf p \<Longrightarrow> pbuf_copy_partial p (tot_len p) 0 = concat p"
proof (induction p)
  case (Cons b p)
  let ?l = "word_of_nat (length b) :: u16" and ?t = "tot_len (b # p)"
  have wf: "length b + length (concat p) < 65536" using Cons.prems by (simp add: pbuf_wf_def)
  have l: "unat ?l = length b" using wf by (simp add: unsigned_of_nat take_bit_nat_eq_self)
  have t: "?t = ?l + tot_len p" by (simp add: tot_len_def)
  have ut: "unat ?t = length b + length (concat p)" using wf by (simp add: tot_len_def unsigned_of_nat take_bit_nat_eq_self del: of_nat_add)
  have le: "?l \<le> ?t" using l ut by (simp add: word_le_nat_alt)
  have IH: "pbuf_copy_partial p (tot_len p) 0 = concat p" using Cons by (simp add: pbuf_wf_def)
  show ?case
  proof (cases "?t = 0")
    case True
    then have "unat ?t = 0" by simp
    then have "b = []" "concat p = []" using ut by auto
    with True show ?thesis by simp
  next
    case False
    have "\<not> ?t < ?l" using le by (simp add: not_less)
    moreover have "?t - ?l = tot_len p" by (simp add: t)
    ultimately show ?thesis using False IH l by (simp add: Let_def)
  qed
qed simp

text \<open>Error codes of asio that the program distinguishes.\<close>

datatype asio_error = AsioEof | AsioConnectionReset | AsioOther

end
