(* ===== verification/TcpRelaySession.thy ===== *)
theory TcpRelaySession
  imports SsAddress LwipTypes
begin

text \<open>
  One TCP connection of a Shadowsocks client, \<^verbatim>\<open>src/src/TcpRelaySession.cpp\<close>: the
  client's encrypted stream is decrypted and written to a connection of the user-space
  TCP stack, what that connection receives is encrypted and written to the client.

  The session object is the record \<open>TcpRelaySession\<close>. Beside the members of the class it
  has the asynchronous operations that are in flight (each holds a \<^verbatim>\<open>shared_ptr\<close> to
  the session), the control blocks whose callbacks and argument in the stack are the session,
  a flag that says that a member was used after the session was destroyed, and \<open>trace\<close>, the
  calls made to the socket and to the stack, latest first.
  What the stack answers to a call may depend on everything that happened before: the
  record \<open>lwip_env\<close> has a function from the trace for each answer, and the theorems
  hold for all of them. A completion or a callback is a value of \<open>tcp_event\<close>;
  \<open>handle\<close> runs the code for it.

  The stack lock is recursive and every entry point takes it, so it does not appear.
  Diagnostics written to the log are left out.
\<close>

section \<open>Limits\<close>

definition ClientQueueHighWater :: "64 word" where "ClientQueueHighWater = push_bit 20 1"

definition ClientQueueLowWater :: "64 word" where "ClientQueueLowWater = push_bit 10 256"

definition LwipSndLowWater :: nat where "LwipSndLowWater = 8 * TCP_MSS"

definition LwipSndQueueHighWater :: nat where "LwipSndQueueHighWater = TCP_SND_QUEUELEN * 3 div 4"

section \<open>State\<close>

datatype tcp_action =
    SetNoDelay
  | AsyncReadSalt
  | AsyncReadSome
  | AsyncWrite bytes
  | SockShutdownSend
  | SockShutdownBoth
  | SockClose
  | TcpNew "nat option"
  | TcpAttach nat
  | TcpDetach nat
  | TcpConnect nat ip_addr_t u16 err_t
  | TcpWrite nat bytes err_t
  | TcpOutput nat
  | TcpRecved nat u16
  | TcpShutdownTx nat err_t
  | TcpClose nat err_t
  | TcpAbort nat
  | AsyncResolve string u16
  | ChunkIn bytes
  | Received bytes

record TcpRelaySession =
  crypto :: ShadowsocksAeadSession
  active_self :: bool
  tpcb :: "nat option"
  encrypted_in :: bytes
  pending_lwip :: "bytes list"
  pending_client :: "bytes list"
  client_queue_bytes :: "64 word"
  deferred_tcp_recved :: "64 word"
  got_target :: bool
  sent_response_salt :: bool
  client_read_paused :: bool
  writing_client :: bool
  client_eof :: bool
  remote_eof :: bool
  closing :: bool
  salt_reads :: nat
  stream_reads :: nat
  resolving :: "u16 option"
  handler_refs :: nat
  destroyed :: bool
  registered :: "nat list"
  used_after_free :: bool
  trace :: "tcp_action list"

text \<open>
  The answers of the stack: \<open>env_new\<close> the control block \<^verbatim>\<open>tcp_new_pcb\<close> returns,
  \<open>env_resolve\<close> the message of the \<^verbatim>\<open>std::runtime_error\<close> that
  \<^verbatim>\<open>LwipRuntime::async_resolve\<close> leaves with, if any (it leaves with no other exception, lemma
  \<open>async_resolve_raises\<close> of its theory), and the results and state reads of the other calls.
\<close>

record lwip_env =
  env_new :: "tcp_action list \<Rightarrow> nat option"
  env_connect :: "tcp_action list \<Rightarrow> err_t"
  env_write :: "tcp_action list \<Rightarrow> err_t"
  env_sndbuf :: "tcp_action list \<Rightarrow> nat"
  env_sndqueuelen :: "tcp_action list \<Rightarrow> nat"
  env_state :: "tcp_action list \<Rightarrow> tcp_state"
  env_shutdown :: "tcp_action list \<Rightarrow> err_t"
  env_close :: "tcp_action list \<Rightarrow> err_t"
  env_resolve :: "tcp_action list \<Rightarrow> string option"

definition emit :: "tcp_action \<Rightarrow> TcpRelaySession \<Rightarrow> TcpRelaySession" where
  "emit a s = s\<lparr>trace := a # trace s\<rparr>"

definition TcpRelaySession_new :: "ShadowsocksAeadFactory \<Rightarrow> TcpRelaySession" where
  "TcpRelaySession_new f =
     \<lparr>crypto = make_session f, active_self = False, tpcb = None, encrypted_in = [],
      pending_lwip = [], pending_client = [], client_queue_bytes = 0, deferred_tcp_recved = 0,
      got_target = False, sent_response_salt = False, client_read_paused = False,
      writing_client = False, client_eof = False, remote_eof = False, closing = False,
      salt_reads = 0, stream_reads = 0, resolving = None, handler_refs = 0, destroyed = False,
      registered = [], used_after_free = False, trace = []\<rparr>"

section \<open>Lifetime\<close>

text \<open>The shared pointers to the session: one per operation in flight, and the session's own.\<close>

definition owners :: "TcpRelaySession \<Rightarrow> nat" where
  "owners s = salt_reads s + stream_reads s + of_bool (writing_client s) + handler_refs s +
     of_bool (active_self s)"

text \<open>
  Every member function uses the object it is called on. Once the object is destroyed such a use
  is undefined; the flag records it, and \<open>handle\<close> below reports it.
\<close>

definition use :: "TcpRelaySession \<Rightarrow> TcpRelaySession" where
  "use s = s\<lparr>used_after_free := (used_after_free s \<or> destroyed s)\<rparr>"

text \<open>From here on the stack has no pointer to the session for this control block.\<close>

definition detach_pcb_callbacks :: "TcpRelaySession \<Rightarrow> TcpRelaySession" where
  "detach_pcb_callbacks s = (case tpcb s of None \<Rightarrow> s | Some p \<Rightarrow> (emit (TcpDetach p) s)\<lparr>registered := removeAll p (registered s)\<rparr>)"

definition destroy :: "TcpRelaySession \<Rightarrow> TcpRelaySession" where
  "destroy s =
     (let s1 = (case tpcb s of
                  None \<Rightarrow> s
                | Some p \<Rightarrow> (emit (TcpAbort p) (detach_pcb_callbacks s))\<lparr>tpcb := None\<rparr>)
      in s1\<lparr>destroyed := True\<rparr>)"

definition drop_owner :: "TcpRelaySession \<Rightarrow> TcpRelaySession" where
  "drop_owner s = (if owners s = 0 \<and> \<not> destroyed s then destroy s else s)"

definition release_active_self :: "TcpRelaySession \<Rightarrow> TcpRelaySession" where
  "release_active_self s0 =
     (let s = use s0 in if active_self s then drop_owner (s\<lparr>active_self := False\<rparr>) else s)"

section \<open>Closing\<close>

definition close_pcb :: "lwip_env \<Rightarrow> TcpRelaySession \<Rightarrow> TcpRelaySession" where
  "close_pcb env s0 =
     (let s = use s0
      in case tpcb s of
           None \<Rightarrow> s
         | Some p \<Rightarrow>
             let s1 = detach_pcb_callbacks s;
                 e = env_close env (trace s1);
                 s2 = emit (TcpClose p e) s1;
                 s3 = (if e \<noteq> ERR_OK then emit (TcpAbort p) s2 else s2)
             in s3\<lparr>tpcb := None\<rparr>)"

definition close_client_only :: "TcpRelaySession \<Rightarrow> TcpRelaySession" where
  "close_client_only s0 =
     (let s = use s0
      in release_active_self
           (if closing s then s
            else emit SockClose (emit SockShutdownBoth (s\<lparr>closing := True\<rparr>))))"

definition close :: "lwip_env \<Rightarrow> TcpRelaySession \<Rightarrow> TcpRelaySession" where
  "close env s0 =
     (let s = use s0
      in if closing s then s
         else
           let s1 = emit SockClose (emit SockShutdownBoth (s\<lparr>closing := True\<rparr>))
           in release_active_self (close_pcb env s1))"

section \<open>Towards the stack\<close>

function flush_loop :: "lwip_env \<Rightarrow> nat \<Rightarrow> TcpRelaySession \<Rightarrow> TcpRelaySession" where
  "flush_loop env p s =
     (case pending_lwip s of
        [] \<Rightarrow> emit (TcpOutput p) s
      | pkt # rest \<Rightarrow>
          if env_sndbuf env (trace s) < length pkt \<or> env_sndbuf env (trace s) < LwipSndLowWater \<or>
             env_sndqueuelen env (trace s) \<ge> LwipSndQueueHighWater
          then emit (TcpOutput p) (s\<lparr>client_read_paused := True\<rparr>)
          else
            let e = env_write env (trace s);
                s1 = emit (TcpWrite p (take (unat (word_of_nat (length pkt) :: u16)) pkt) e) s
            in if e = ERR_MEM then emit (TcpOutput p) (s1\<lparr>client_read_paused := True\<rparr>)
               else if e \<noteq> ERR_OK then close env s1
               else flush_loop env p (s1\<lparr>pending_lwip := rest\<rparr>))"
  by pat_completeness auto
termination
  by (relation "measure (\<lambda>(env, p, s). length (pending_lwip s))") (auto simp: emit_def)

declare flush_loop.simps [simp del]

definition flush_to_lwip :: "lwip_env \<Rightarrow> TcpRelaySession \<Rightarrow> TcpRelaySession" where
  "flush_to_lwip env s0 = (let s = use s0 in case tpcb s of None \<Rightarrow> s | Some p \<Rightarrow> flush_loop env p s)"

definition read_encrypted_stream :: "TcpRelaySession \<Rightarrow> TcpRelaySession" where
  "read_encrypted_stream s0 =
     (let s = use s0
      in if closing s \<or> client_read_paused s then s
         else emit AsyncReadSome (s\<lparr>stream_reads := stream_reads s + 1\<rparr>))"

section \<open>Connecting\<close>

definition parse_lwip_ip :: "string \<Rightarrow> ip_addr_t result" where
  "parse_lwip_ip h =
     (case ipaddr_aton (c_str h) of
        None \<Rightarrow> Inl (RuntimeError (''invalid target IP: '' @ h))
      | Some ip \<Rightarrow> Inr ip)"

definition connect_ip :: "lwip_env \<Rightarrow> ip_addr_t \<Rightarrow> u16 \<Rightarrow> TcpRelaySession \<Rightarrow> TcpRelaySession" where
  "connect_ip env ip prt s0 =
     (let s = use s0; np = env_new env (trace s); s1 = emit (TcpNew np) (s\<lparr>tpcb := np\<rparr>)
      in case np of
           None \<Rightarrow> close env s1
         | Some p \<Rightarrow>
             (let s2 = (emit (TcpAttach p) s1)\<lparr>active_self := True, registered := p # registered s1\<rparr>;
                  e = env_connect env (trace s2);
                  s3 = emit (TcpConnect p ip prt e) s2
              in if e \<noteq> ERR_OK then close env s3 else s3))"

text \<open>Operations that may throw return the exception beside the state they leave.\<close>

definition resolve_domain_then_connect ::
  "lwip_env \<Rightarrow> TargetAddress \<Rightarrow> TcpRelaySession \<Rightarrow> exn option \<times> TcpRelaySession" where
  "resolve_domain_then_connect env target s =
     (let x = env_resolve env (trace s); s1 = emit (AsyncResolve (host target) (port target)) s
      in case x of
           Some m \<Rightarrow> (Some (RuntimeError m), s1)
         | None \<Rightarrow> (None, s1\<lparr>resolving := Some (port target)\<rparr>))"

definition connect_target ::
  "lwip_env \<Rightarrow> TargetAddress \<Rightarrow> TcpRelaySession \<Rightarrow> exn option \<times> TcpRelaySession" where
  "connect_target env target s =
     (if addr_type target = Domain then resolve_domain_then_connect env target s
      else case parse_lwip_ip (host target) of
        Inl e \<Rightarrow> (Some e, s)
      | Inr ip \<Rightarrow> (None, connect_ip env ip (port target) s))"

text \<open>The completion handler given to \<^verbatim>\<open>async_resolve\<close>, for a session that still exists.\<close>

definition on_resolved ::
  "lwip_env \<Rightarrow> err_t \<Rightarrow> ip_addr_t option \<Rightarrow> u16 \<Rightarrow> TcpRelaySession \<Rightarrow> TcpRelaySession" where
  "on_resolved env err ip prt s =
     (case ip of
        None \<Rightarrow> close env s
      | Some a \<Rightarrow> if err \<noteq> ERR_OK \<or> closing s then close env s else connect_ip env a prt s)"

section \<open>From the client\<close>

definition push_lwip :: "bytes \<Rightarrow> TcpRelaySession \<Rightarrow> TcpRelaySession" where
  "push_lwip bs s = (if bs = [] then s else (use s)\<lparr>pending_lwip := pending_lwip s @ [bs]\<rparr>)"

definition process_decrypted_chunk ::
  "lwip_env \<Rightarrow> bytes \<Rightarrow> TcpRelaySession \<Rightarrow> exn option \<times> TcpRelaySession" where
  "process_decrypted_chunk env chunk s0 =
     (let s = emit (ChunkIn chunk) (use s0)
      in if got_target s then (None, push_lwip chunk s)
         else case parse_ss_address chunk of
           Inl e \<Rightarrow> (Some e, s)
         | Inr (None, _) \<Rightarrow> (None, close env s)
         | Inr (Some target, rest) \<Rightarrow>
             (case connect_target env target (s\<lparr>got_target := True\<rparr>) of
                (Some e, s1) \<Rightarrow> (Some e, s1)
              | (None, s1) \<Rightarrow> (None, push_lwip rest s1)))"

text \<open>
  The loop over the chunks of \<^verbatim>\<open>encrypted_in_\<close>: the result is the exception that
  ended it, if any, the view as it is left, and the state.
\<close>

function chunk_loop ::
  "lwip_env \<Rightarrow> mbedtls \<Rightarrow> bytes \<Rightarrow> TcpRelaySession \<Rightarrow> exn option \<times> bytes \<times> TcpRelaySession" where
  "chunk_loop env c view s =
     (case decrypt_tcp_chunk c (crypto s) view of
        Inl e \<Rightarrow> (Some e, view, s)
      | Inr None \<Rightarrow> (None, view, s)
      | Inr (Some (chunk, view1, cr)) \<Rightarrow>
          (case process_decrypted_chunk env chunk (s\<lparr>crypto := cr\<rparr>) of
             (Some e, s1) \<Rightarrow> (Some e, view1, s1)
           | (None, s1) \<Rightarrow> chunk_loop env c view1 s1))"
  by pat_completeness auto
termination
  by (relation "measure (\<lambda>(env, c, view, s). length view)") (auto dest: decrypt_tcp_chunk_shorter)

declare chunk_loop.simps [simp del]

text \<open>\<^verbatim>\<open>catch (...) { close(); }\<close>: an exception closes the session, undefined behaviour does not stop there.\<close>

definition catch_close :: "lwip_env \<Rightarrow> exn \<Rightarrow> TcpRelaySession \<Rightarrow> exn option \<times> TcpRelaySession" where
  "catch_close env e s = (if is_ub e then (Some e, s) else (None, close env s))"

text \<open>The four lines that give up a control block, twice in \<^verbatim>\<open>handle_client_eof\<close>.\<close>

definition abort_pcb :: "nat \<Rightarrow> TcpRelaySession \<Rightarrow> TcpRelaySession" where
  "abort_pcb p s = release_active_self ((emit (TcpAbort p) (detach_pcb_callbacks s))\<lparr>tpcb := None\<rparr>)"

definition handle_client_eof :: "lwip_env \<Rightarrow> TcpRelaySession \<Rightarrow> TcpRelaySession" where
  "handle_client_eof env s0 =
     (let s = s0\<lparr>client_eof := True\<rparr>;
          s1 = (case tpcb s of
                  None \<Rightarrow> s
                | Some p \<Rightarrow>
                    if env_state env (trace s) \<in> {SYN_RCVD, ESTABLISHED, CLOSE_WAIT} then
                      (let e = env_shutdown env (trace s); t = emit (TcpShutdownTx p e) s
                       in if e \<noteq> ERR_OK then abort_pcb p t else t)
                    else abort_pcb p s)
      in if remote_eof (use s1) \<or> tpcb s1 = None then close env s1 else use s1)"

definition on_salt_read ::
  "lwip_env \<Rightarrow> mbedtls \<Rightarrow> bytes option \<Rightarrow> TcpRelaySession \<Rightarrow> exn option \<times> TcpRelaySession" where
  "on_salt_read env c r s =
     (case r of
        None \<Rightarrow> (None, close env s)
      | Some salt \<Rightarrow>
          (case set_client_salt c salt (crypto s) of
             Inl e \<Rightarrow> catch_close env e s
           | Inr cr \<Rightarrow> (None, read_encrypted_stream (s\<lparr>crypto := cr\<rparr>))))"

definition on_stream_read ::
  "lwip_env \<Rightarrow> mbedtls \<Rightarrow> asio_error + bytes \<Rightarrow> TcpRelaySession \<Rightarrow> exn option \<times> TcpRelaySession" where
  "on_stream_read env c r s =
     (case r of
        Inl ec \<Rightarrow>
          (None, if ec = AsioEof \<or> ec = AsioConnectionReset then handle_client_eof env s else close env s)
      | Inr bs \<Rightarrow>
          (let s1 = s\<lparr>encrypted_in := PacketBuffer_append (encrypted_in s) bs\<rparr>
           in case chunk_loop env c (encrypted_in s1) s1 of
                (Some e, _, s2) \<Rightarrow> catch_close env e s2
              | (None, view, s2) \<Rightarrow>
                  (let consumed = length (encrypted_in s1) - length view;
                       s3 = (if consumed \<noteq> 0 then s2\<lparr>encrypted_in := view\<rparr> else s2)
                   in (None, read_encrypted_stream (flush_to_lwip env s3)))))"

section \<open>Towards the client\<close>

definition flush_to_client :: "TcpRelaySession \<Rightarrow> TcpRelaySession" where
  "flush_to_client s0 =
     (let s = use s0
      in case pending_client s of
           [] \<Rightarrow> s
         | front # _ \<Rightarrow>
             if writing_client s then s else emit (AsyncWrite front) (s\<lparr>writing_client := True\<rparr>))"

definition push_client :: "bytes \<Rightarrow> TcpRelaySession \<Rightarrow> TcpRelaySession" where
  "push_client bs s =
     s\<lparr>client_queue_bytes := client_queue_bytes s + word_of_nat (length bs),
       pending_client := pending_client s @ [bs]\<rparr>"

definition ensure_response_salt :: "mbedtls \<Rightarrow> drbg \<Rightarrow> TcpRelaySession \<Rightarrow> TcpRelaySession result" where
  "ensure_response_salt c d s =
     (if sent_response_salt s then Inr s
      else bind_result (client_salt c d (crypto s)) (\<lambda>(salt, cr).
        Inr ((push_client salt (s\<lparr>crypto := cr\<rparr>))\<lparr>sent_response_salt := True\<rparr>)))"

definition enqueue_client_payload ::
  "mbedtls \<Rightarrow> drbg \<Rightarrow> bytes \<Rightarrow> TcpRelaySession \<Rightarrow> exn option \<times> TcpRelaySession" where
  "enqueue_client_payload c d bs s =
     (if bs = [] then (None, s)
      else case ensure_response_salt c d s of
        Inl e \<Rightarrow> (Some e, s)
      | Inr s1 \<Rightarrow>
          (case encrypt_tcp_chunk c bs (crypto s1) of
             (Inl e, cr) \<Rightarrow> (Some e, s1\<lparr>crypto := cr\<rparr>)
           | (Inr encrypted, cr) \<Rightarrow>
               (None, flush_to_client (push_client encrypted (s1\<lparr>crypto := cr\<rparr>)))))"

lemma ucast_min_ffff: "ucast (ucast (min (d :: 64 word) 0xffff) :: u16) = min d 0xffff"
proof -
  have "min d 0xffff \<le> 0xffff" by simp
  then have "unat (min d 0xffff) < 2 ^ 16" by (simp add: word_le_nat_alt)
  then have "take_bit 16 (unat (min d 0xffff)) = unat (min d 0xffff)" by (simp add: take_bit_nat_eq_self)
  then have "unat (ucast (ucast (min d 0xffff) :: u16) :: 64 word) = unat (min d 0xffff)"
    by (simp add: unsigned_ucast_eq unsigned_take_bit_eq)
  then show ?thesis by (simp only: word_unat_eq_iff)
qed

function recved_loop :: "nat \<Rightarrow> TcpRelaySession \<Rightarrow> TcpRelaySession" where
  "recved_loop p s =
     (if deferred_tcp_recved s = 0 then s
      else
        let nrecved = ucast (min (deferred_tcp_recved s) 0xffff) :: u16
        in recved_loop p (emit (TcpRecved p nrecved)
             (s\<lparr>deferred_tcp_recved := deferred_tcp_recved s - ucast nrecved\<rparr>)))"
  by pat_completeness auto

termination
proof (relation "measure (\<lambda>(p, s). unat (deferred_tcp_recved s))")
  fix p and s :: TcpRelaySession and n :: u16
  assume d: "deferred_tcp_recved s \<noteq> 0" and n: "n = ucast (min (deferred_tcp_recved s) 0xffff)"
  let ?d = "deferred_tcp_recved s"
  have le: "min ?d 0xffff \<le> ?d" by simp
  have "min ?d 0xffff \<noteq> 0" using d by (simp add: min_def)
  then have "0 < unat (min ?d 0xffff)" by (simp add: unat_gt_0)
  moreover have "unat (min ?d 0xffff) \<le> unat ?d" using le by (simp only: word_le_nat_alt)
  ultimately have "unat (?d - min ?d 0xffff) < unat ?d"
    unfolding unat_sub [OF le] by linarith
  then show "((p, emit (TcpRecved p n) (s\<lparr>deferred_tcp_recved := ?d - ucast n\<rparr>)), p, s)
      \<in> measure (\<lambda>(p, s). unat (deferred_tcp_recved s))"
    by (simp add: n ucast_min_ffff emit_def)
qed simp

declare recved_loop.simps [simp del]

definition on_client_written ::
  "lwip_env \<Rightarrow> nat option \<Rightarrow> TcpRelaySession \<Rightarrow> exn option \<times> TcpRelaySession" where
  "on_client_written env r s0 =
     (let s = (use s0)\<lparr>writing_client := False\<rparr>
      in case r of
           None \<Rightarrow> (None, close env s)
         | Some n \<Rightarrow>
             (case pending_client s of
                [] \<Rightarrow> (Some OutOfBounds, s)
              | _ # rest \<Rightarrow>
                  (let s1 = s\<lparr>client_queue_bytes := client_queue_bytes s - word_of_nat n,
                             pending_client := rest\<rparr>;
                       s2 = (case tpcb s1 of
                               None \<Rightarrow> s1
                             | Some p \<Rightarrow>
                                 if client_queue_bytes s1 < ClientQueueLowWater \<and> deferred_tcp_recved s1 \<noteq> 0
                                 then recved_loop p s1 else s1)
                   in (None, flush_to_client s2))))"

section \<open>Callbacks of the stack\<close>

definition maybe_resume_client_read ::
  "lwip_env \<Rightarrow> TcpRelaySession \<Rightarrow> exn option \<times> TcpRelaySession" where
  "maybe_resume_client_read env s0 =
     (let s = use s0 in if \<not> client_read_paused s \<or> tpcb s = None \<or> env_sndbuf env (trace s) < LwipSndLowWater then (None, s)
      else
        let s1 = flush_to_lwip env (s\<lparr>client_read_paused := False\<rparr>)
        in if destroyed s1 then (Some UseAfterFree, s1) else (None, read_encrypted_stream s1))"

text \<open>After \<^verbatim>\<open>release_active_self\<close> the function reads \<^verbatim>\<open>client_eof_\<close>.\<close>

definition handle_remote_fin :: "lwip_env \<Rightarrow> TcpRelaySession \<Rightarrow> exn option \<times> TcpRelaySession" where
  "handle_remote_fin env s0 =
     (let s = emit SockShutdownSend ((use s0)\<lparr>remote_eof := True\<rparr>);
          s1 = (if tpcb s \<noteq> None then release_active_self (close_pcb env s) else s)
      in if destroyed s1 then (Some UseAfterFree, s1)
         else if client_eof s1 then (None, close env s1) else (None, s1))"

definition on_connected :: "lwip_env \<Rightarrow> err_t \<Rightarrow> TcpRelaySession \<Rightarrow> exn option \<times> TcpRelaySession" where
  "on_connected env err s =
     (if err \<noteq> ERR_OK then (None, close env s) else (None, flush_to_lwip env s))"

definition on_recv ::
  "lwip_env \<Rightarrow> mbedtls \<Rightarrow> drbg \<Rightarrow> bytes option \<Rightarrow> err_t \<Rightarrow> TcpRelaySession \<Rightarrow> exn option \<times> TcpRelaySession" where
  "on_recv env c d p err s0 =
     (if err \<noteq> ERR_OK then (None, close env s0)
      else case p of
        None \<Rightarrow> handle_remote_fin env s0
      | Some bs \<Rightarrow>
          (case enqueue_client_payload c d bs (emit (Received bs) s0) of
             (Some e, s) \<Rightarrow> catch_close env e s
           | (None, s1) \<Rightarrow>
               (None,
                let s = use s1 in if client_queue_bytes s > ClientQueueHighWater then
                  s\<lparr>deferred_tcp_recved := deferred_tcp_recved s + word_of_nat (length bs)\<rparr>
                else case tpcb s of
                  None \<Rightarrow> s
                | Some q \<Rightarrow> emit (TcpRecved q (word_of_nat (length bs))) s)))"

definition on_sent :: "lwip_env \<Rightarrow> u16 \<Rightarrow> TcpRelaySession \<Rightarrow> exn option \<times> TcpRelaySession" where
  [simp]: "on_sent env n s = maybe_resume_client_read env s"

definition on_err :: "TcpRelaySession \<Rightarrow> TcpRelaySession" where
  "on_err s = close_client_only (s\<lparr>tpcb := None\<rparr>)"

definition start :: "TcpRelaySession \<Rightarrow> TcpRelaySession" where
  "start s = emit AsyncReadSalt ((emit SetNoDelay s)\<lparr>salt_reads := salt_reads s + 1\<rparr>)"

section \<open>Events\<close>

datatype tcp_event =
    SaltRead "bytes option"
  | StreamRead "asio_error + bytes"
  | ClientWritten "nat option"
  | Connected err_t
  | Recv "bytes option" err_t
  | Sent u16
  | TcpErr err_t
  | Resolved err_t "ip_addr_t option"

text \<open>The buffer of the latest \<^verbatim>\<open>async_write\<close>.\<close>

fun last_write :: "tcp_action list \<Rightarrow> bytes option" where
  "last_write [] = None"
| "last_write (AsyncWrite b # tr) = Some b"
| "last_write (_ # tr) = last_write tr"

text \<open>
  When an event can happen: asio completes an operation that is in flight (a read of the salt
  with exactly 32 bytes, a read of the stream with 1 to 8192 bytes, a write with the size of
  its buffer), and the stack calls back for a control block whose callbacks are those of the
  session, whether or not the session still exists: a block that was closed or aborted without
  being detached still calls back. A chain of buffers has at most 65535 bytes. The bytes of a read
  are those in \<^verbatim>\<open>read_buf_\<close> when its handler runs.
\<close>

definition enabled :: "tcp_event \<Rightarrow> TcpRelaySession \<Rightarrow> bool" where
  "enabled ev s =
     (case ev of
        SaltRead r \<Rightarrow> 0 < salt_reads s \<and> (case r of None \<Rightarrow> True | Some bs \<Rightarrow> length bs = SaltSize)
      | StreamRead r \<Rightarrow> 0 < stream_reads s \<and>
          (case r of Inl _ \<Rightarrow> True | Inr bs \<Rightarrow> 0 < length bs \<and> length bs \<le> 8192)
      | ClientWritten r \<Rightarrow> writing_client s \<and>
          (case r of None \<Rightarrow> True | Some n \<Rightarrow> map_option length (last_write (trace s)) = Some n)
      | Connected _ \<Rightarrow> registered s \<noteq> []
      | Recv p _ \<Rightarrow> registered s \<noteq> [] \<and> (case p of None \<Rightarrow> True | Some bs \<Rightarrow> length bs < 65536)
      | Sent _ \<Rightarrow> registered s \<noteq> []
      | TcpErr _ \<Rightarrow> registered s \<noteq> []
      | Resolved _ _ \<Rightarrow> resolving s \<noteq> None)"

text \<open>A completion handler holds a pointer to the session while it runs and drops it at its end.\<close>

definition leave :: "exn option \<times> TcpRelaySession \<Rightarrow> exn option \<times> TcpRelaySession" where
  "leave r = (fst r, drop_owner ((snd r)\<lparr>handler_refs := handler_refs (snd r) - 1\<rparr>))"

text \<open>The stack frees a control block before it reports an error for it.\<close>

definition dispatch ::
  "lwip_env \<Rightarrow> mbedtls \<Rightarrow> drbg \<Rightarrow> tcp_event \<Rightarrow> TcpRelaySession \<Rightarrow> exn option \<times> TcpRelaySession" where
  "dispatch env c d ev s =
     (case ev of
        SaltRead r \<Rightarrow>
          leave (on_salt_read env c r (s\<lparr>salt_reads := salt_reads s - 1, handler_refs := handler_refs s + 1\<rparr>))
      | StreamRead r \<Rightarrow>
          leave (on_stream_read env c r (s\<lparr>stream_reads := stream_reads s - 1, handler_refs := handler_refs s + 1\<rparr>))
      | ClientWritten r \<Rightarrow> leave (on_client_written env r (s\<lparr>handler_refs := handler_refs s + 1\<rparr>))
      | Connected e \<Rightarrow> on_connected env e s
      | Recv p e \<Rightarrow> on_recv env c d p e s
      | Sent n \<Rightarrow> on_sent env n s
      | TcpErr e \<Rightarrow> (None, on_err (s\<lparr>registered := tl (registered s)\<rparr>))
      | Resolved e ip \<Rightarrow>
          (case resolving s of
             None \<Rightarrow> (None, s)
           | Some prt \<Rightarrow>
               if destroyed s then (None, s\<lparr>resolving := None\<rparr>)
               else leave (None, on_resolved env e ip prt (s\<lparr>resolving := None, handler_refs := handler_refs s + 1\<rparr>))))"

definition handle ::
  "lwip_env \<Rightarrow> mbedtls \<Rightarrow> drbg \<Rightarrow> tcp_event \<Rightarrow> TcpRelaySession \<Rightarrow> exn option \<times> TcpRelaySession" where
  "handle env c d ev s =
     (case dispatch env c d ev s of
        (None, t) \<Rightarrow> (if used_after_free t then Some UseAfterFree else None, t)
      | (Some e, t) \<Rightarrow> (Some e, t))"

lemma handle_None: "handle env c d ev s = (None, t) \<longleftrightarrow> dispatch env c d ev s = (None, t) \<and> \<not> used_after_free t"
  by (auto simp: handle_def split: prod.splits option.splits)

lemma handle_Some: "handle env c d ev s = (Some e, t) \<longleftrightarrow>
    dispatch env c d ev s = (Some e, t) \<or> dispatch env c d ev s = (None, t) \<and> used_after_free t \<and> e = UseAfterFree"
  by (auto simp: handle_def split: prod.splits option.splits)

inductive tcp_step :: "lwip_env \<Rightarrow> mbedtls \<Rightarrow> TcpRelaySession \<Rightarrow> TcpRelaySession \<Rightarrow> bool"
  for env c where
  tcp_event: "enabled ev s \<Longrightarrow> drbg_fills d \<Longrightarrow> handle env c d ev s = (None, t) \<Longrightarrow> tcp_step env c s t"

definition tcp_init :: "ShadowsocksAeadFactory \<Rightarrow> TcpRelaySession \<Rightarrow> bool" where
  "tcp_init f s \<longleftrightarrow> s = start (TcpRelaySession_new f)"

abbreviation tcp_reachable :: "lwip_env \<Rightarrow> mbedtls \<Rightarrow> ShadowsocksAeadFactory \<Rightarrow> TcpRelaySession \<Rightarrow> bool" where
  "tcp_reachable env c f \<equiv> reachable (tcp_init f) (tcp_step env c)"

inductive_cases tcp_stepE: "tcp_step env c s t"

text \<open>Running a list of events; \<open>None\<close> when one of them cannot happen or ends in undefined behaviour.\<close>

fun run_events ::
  "lwip_env \<Rightarrow> mbedtls \<Rightarrow> drbg \<Rightarrow> tcp_event list \<Rightarrow> TcpRelaySession \<Rightarrow> TcpRelaySession option" where
  "run_events env c d [] s = Some s"
| "run_events env c d (ev # evs) s =
     (if enabled ev s then
        (case handle env c d ev s of
           (None, t) \<Rightarrow> run_events env c d evs t
         | (Some e, t) \<Rightarrow> None)
      else None)"

lemma run_events_reachable:
  "run_events env c d evs s = Some t \<Longrightarrow> drbg_fills d \<Longrightarrow> tcp_reachable env c f s \<Longrightarrow> tcp_reachable env c f t"
proof (induction evs arbitrary: s)
  case (Cons ev evs)
  then obtain u where "enabled ev s" "handle env c d ev s = (None, u)" "run_events env c d evs u = Some t"
    by (auto split: if_splits prod.splits option.splits)
  with Cons show ?case by (meson reach_step tcp_event)
qed simp

lemma start_reachable: "tcp_reachable env c f (start (TcpRelaySession_new f))"
  by (rule reach_init) (simp add: tcp_init_def)

section \<open>What closing leaves alone\<close>

declare emit_def [simp]

lemma use_frame [simp]:
  "crypto (use s) = crypto s"
  "active_self (use s) = active_self s"
  "tpcb (use s) = tpcb s"
  "encrypted_in (use s) = encrypted_in s"
  "pending_lwip (use s) = pending_lwip s"
  "pending_client (use s) = pending_client s"
  "client_queue_bytes (use s) = client_queue_bytes s"
  "deferred_tcp_recved (use s) = deferred_tcp_recved s"
  "got_target (use s) = got_target s"
  "sent_response_salt (use s) = sent_response_salt s"
  "client_read_paused (use s) = client_read_paused s"
  "writing_client (use s) = writing_client s"
  "client_eof (use s) = client_eof s"
  "remote_eof (use s) = remote_eof s"
  "closing (use s) = closing s"
  "salt_reads (use s) = salt_reads s"
  "stream_reads (use s) = stream_reads s"
  "resolving (use s) = resolving s"
  "handler_refs (use s) = handler_refs s"
  "destroyed (use s) = destroyed s"
  "registered (use s) = registered s"
  "trace (use s) = trace s"
  by (simp_all add: use_def)

lemma use_alive: "\<not> destroyed s \<Longrightarrow> use s = s"
  by (simp add: use_def)

lemma drop_owner_frame [simp]:
  "crypto (drop_owner s) = crypto s"
  "encrypted_in (drop_owner s) = encrypted_in s"
  "pending_lwip (drop_owner s) = pending_lwip s"
  "pending_client (drop_owner s) = pending_client s"
  "client_queue_bytes (drop_owner s) = client_queue_bytes s"
  "deferred_tcp_recved (drop_owner s) = deferred_tcp_recved s"
  "got_target (drop_owner s) = got_target s"
  "sent_response_salt (drop_owner s) = sent_response_salt s"
  "client_read_paused (drop_owner s) = client_read_paused s"
  "writing_client (drop_owner s) = writing_client s"
  "client_eof (drop_owner s) = client_eof s"
  "remote_eof (drop_owner s) = remote_eof s"
  "salt_reads (drop_owner s) = salt_reads s"
  "stream_reads (drop_owner s) = stream_reads s"
  "resolving (drop_owner s) = resolving s"
  "handler_refs (drop_owner s) = handler_refs s"
  by (simp_all add: drop_owner_def destroy_def detach_pcb_callbacks_def split: option.splits)

lemma release_active_self_frame [simp]:
  "crypto (release_active_self s) = crypto s"
  "encrypted_in (release_active_self s) = encrypted_in s"
  "pending_lwip (release_active_self s) = pending_lwip s"
  "pending_client (release_active_self s) = pending_client s"
  "client_queue_bytes (release_active_self s) = client_queue_bytes s"
  "deferred_tcp_recved (release_active_self s) = deferred_tcp_recved s"
  "got_target (release_active_self s) = got_target s"
  "sent_response_salt (release_active_self s) = sent_response_salt s"
  "client_read_paused (release_active_self s) = client_read_paused s"
  "writing_client (release_active_self s) = writing_client s"
  "client_eof (release_active_self s) = client_eof s"
  "remote_eof (release_active_self s) = remote_eof s"
  "salt_reads (release_active_self s) = salt_reads s"
  "stream_reads (release_active_self s) = stream_reads s"
  "resolving (release_active_self s) = resolving s"
  "handler_refs (release_active_self s) = handler_refs s"
  by (simp_all add: release_active_self_def Let_def)

lemma close_pcb_frame [simp]:
  "crypto (close_pcb env s) = crypto s"
  "encrypted_in (close_pcb env s) = encrypted_in s"
  "pending_lwip (close_pcb env s) = pending_lwip s"
  "pending_client (close_pcb env s) = pending_client s"
  "client_queue_bytes (close_pcb env s) = client_queue_bytes s"
  "deferred_tcp_recved (close_pcb env s) = deferred_tcp_recved s"
  "got_target (close_pcb env s) = got_target s"
  "sent_response_salt (close_pcb env s) = sent_response_salt s"
  "client_read_paused (close_pcb env s) = client_read_paused s"
  "writing_client (close_pcb env s) = writing_client s"
  "client_eof (close_pcb env s) = client_eof s"
  "remote_eof (close_pcb env s) = remote_eof s"
  "salt_reads (close_pcb env s) = salt_reads s"
  "stream_reads (close_pcb env s) = stream_reads s"
  "resolving (close_pcb env s) = resolving s"
  "handler_refs (close_pcb env s) = handler_refs s"
  by (simp_all add: close_pcb_def detach_pcb_callbacks_def Let_def split: option.splits)

lemma close_frame [simp]:
  "crypto (close env s) = crypto s"
  "encrypted_in (close env s) = encrypted_in s"
  "pending_lwip (close env s) = pending_lwip s"
  "pending_client (close env s) = pending_client s"
  "client_queue_bytes (close env s) = client_queue_bytes s"
  "deferred_tcp_recved (close env s) = deferred_tcp_recved s"
  "got_target (close env s) = got_target s"
  "sent_response_salt (close env s) = sent_response_salt s"
  "client_read_paused (close env s) = client_read_paused s"
  "writing_client (close env s) = writing_client s"
  "client_eof (close env s) = client_eof s"
  "remote_eof (close env s) = remote_eof s"
  "salt_reads (close env s) = salt_reads s"
  "stream_reads (close env s) = stream_reads s"
  "resolving (close env s) = resolving s"
  "handler_refs (close env s) = handler_refs s"
  by (simp_all add: close_def Let_def)

text \<open>The actions that carry data, apart from opening and tearing down connections.\<close>

fun is_data :: "tcp_action \<Rightarrow> bool" where
  "is_data (AsyncWrite b) = True"
| "is_data (TcpWrite p b e) = True"
| "is_data (TcpRecved p n) = True"
| "is_data (ChunkIn b) = True"
| "is_data (Received b) = True"
| "is_data _ = False"

definition data :: "TcpRelaySession \<Rightarrow> tcp_action list" where
  "data s = filter is_data (trace s)"

lemma data_frame [simp]:
  "data (drop_owner s) = data s"
  "data (release_active_self s) = data s"
  "data (close_pcb env s) = data s"
  "data (close env s) = data s"
proof -
  show d: "data (drop_owner s) = data s" for s
    by (simp add: drop_owner_def destroy_def detach_pcb_callbacks_def data_def split: option.splits)
  show r: "data (release_active_self s) = data s" for s
    unfolding release_active_self_def by (simp add: d Let_def) (simp add: data_def)
  show p: "data (close_pcb env s) = data s" for s
    by (simp add: close_pcb_def detach_pcb_callbacks_def Let_def data_def split: option.splits)
  show "data (close env s) = data s"
    unfolding close_def Let_def by (simp add: r p) (simp add: data_def)
qed

lemma last_write_data: "last_write (filter is_data tr) = last_write tr"
  by (induction tr rule: last_write.induct) simp_all

section \<open>Lifetime of the session and its control block\<close>

text \<open>
  \<open>life k\<close> holds while \<open>k\<close> completion handlers run: the session holds a pointer to
  itself exactly while it has a control block, it is destroyed exactly when nobody owns it,
  a control block or a pending name lookup exist only once the target is known, the stack has
  a pointer to the session exactly for its control block, and no handler has used a session that
  was destroyed.
\<close>

fun pcb_list :: "nat option \<Rightarrow> nat list" where
  "pcb_list None = []"
| "pcb_list (Some p) = [p]"

lemma pcb_list_simps [simp]:
  "pcb_list x = [] \<longleftrightarrow> x = None"
  "tl (pcb_list x) = []"
  "removeAll p (pcb_list (Some p)) = []"
  by (cases x; simp)+

definition life :: "nat \<Rightarrow> TcpRelaySession \<Rightarrow> bool" where
  "life k s \<longleftrightarrow>
     (active_self s \<longleftrightarrow> tpcb s \<noteq> None) \<and> (destroyed s \<longleftrightarrow> owners s = 0) \<and> handler_refs s = k \<and>
     (\<not> got_target s \<longrightarrow> tpcb s = None \<and> resolving s = None) \<and> (resolving s \<noteq> None \<longrightarrow> tpcb s = None) \<and>
     registered s = pcb_list (tpcb s) \<and> (used_after_free s \<longrightarrow> k = 0)"

lemma drop_owner_simps [simp]:
  "active_self (drop_owner s) = active_self s"
  "closing (drop_owner s) = closing s"
  "tpcb s = None \<Longrightarrow> tpcb (drop_owner s) = None"
  "tpcb s = None \<Longrightarrow> registered (drop_owner s) = registered s"
  "used_after_free (drop_owner s) = used_after_free s"
  "0 < owners s \<Longrightarrow> drop_owner s = s"
  by (auto simp: drop_owner_def destroy_def detach_pcb_callbacks_def split: option.splits)

lemma owners_drop_owner [simp]: "owners (drop_owner s) = owners s"
  by (simp add: owners_def)

lemma destroyed_drop_owner [simp]: "destroyed (drop_owner s) \<longleftrightarrow> destroyed s \<or> owners s = 0"
  by (auto simp: drop_owner_def destroy_def)

lemma release_simps [simp]:
  "active_self (release_active_self s) = False"
  "closing (release_active_self s) = closing s"
  "tpcb s = None \<Longrightarrow> tpcb (release_active_self s) = None"
  by (auto simp: release_active_self_def Let_def)

lemma release_destroyed:
  "(destroyed s \<longleftrightarrow> owners s = 0) \<Longrightarrow> (destroyed (release_active_self s) \<longleftrightarrow> owners (release_active_self s) = 0)"
  by (auto simp: release_active_self_def owners_def Let_def)

text \<open>The session is used before its last owner goes, not after.\<close>

lemma release_used [simp]: "used_after_free (release_active_self s) = (used_after_free s \<or> destroyed s)"
  by (auto simp: release_active_self_def drop_owner_def destroy_def detach_pcb_callbacks_def use_def Let_def split: option.splits)

lemma release_registered: "registered s = [] \<Longrightarrow> registered (release_active_self s) = []"
  by (auto simp: release_active_self_def drop_owner_def destroy_def detach_pcb_callbacks_def Let_def split: option.splits)

lemma close_pcb_simps [simp]:
  "tpcb (close_pcb env s) = None"
  "closing (close_pcb env s) = closing s"
  "destroyed (close_pcb env s) = destroyed s"
  "active_self (close_pcb env s) = active_self s"
  "used_after_free (close_pcb env s) = (used_after_free s \<or> destroyed s)"
  "registered s = pcb_list (tpcb s) \<Longrightarrow> registered (close_pcb env s) = []"
  by (auto simp: close_pcb_def detach_pcb_callbacks_def use_def Let_def split: option.splits)

lemma close_simps [simp]:
  "closing (close env s)"
  "closing s \<Longrightarrow> close env s = use s"
  "\<not> closing s \<Longrightarrow> tpcb (close env s) = None"
  by (auto simp: close_def Let_def)

lemma life_release:
  assumes "destroyed s \<longleftrightarrow> owners s = 0" "tpcb s = None" "handler_refs s = k" "\<not> got_target s \<longrightarrow> resolving s = None"
    and "registered s = []" "used_after_free s \<longrightarrow> k = 0"
  shows "life k (release_active_self s)"
proof -
  have "used_after_free (release_active_self s) \<longrightarrow> k = 0" using assms(1,3,6) by (auto simp: owners_def)
  with assms release_destroyed [OF assms(1)] release_registered [OF assms(5)] show ?thesis by (simp add: life_def)
qed

lemma life_use [simp]: "life k (use s) = life k s"
  by (auto simp: life_def owners_def use_def)

lemma life_close_pcb_release: "life k s \<Longrightarrow> life k (release_active_self (close_pcb env s))"
  by (rule life_release) (auto simp: life_def owners_def)

lemma life_close: "life k s \<Longrightarrow> life k (close env s)"
proof (cases "closing s")
  case False
  assume "life k s"
  then have "life k (emit SockClose (emit SockShutdownBoth ((use s)\<lparr>closing := True\<rparr>)))"
    by (simp add: life_def owners_def use_def)
  from life_close_pcb_release [OF this] False show ?thesis by (simp add: close_def Let_def)
qed simp

text \<open>Closing a session that exists uses it only while it exists.\<close>

lemma close_used: "\<not> destroyed s \<Longrightarrow> used_after_free (close env s) = used_after_free s"
  by (simp add: close_def use_alive Let_def)

lemma life_emit [simp]: "life k (s\<lparr>trace := tr\<rparr>) = life k s"
  by (simp add: life_def owners_def)

lemma life_irrelevant [simp]:
  "life k (s\<lparr>client_read_paused := b\<rparr>) = life k s"
  "life k (s\<lparr>pending_lwip := q\<rparr>) = life k s"
  "life k (s\<lparr>pending_client := q\<rparr>) = life k s"
  "life k (s\<lparr>crypto := x\<rparr>) = life k s"
  "life k (s\<lparr>encrypted_in := e\<rparr>) = life k s"
  "life k (s\<lparr>client_queue_bytes := w\<rparr>) = life k s"
  "life k (s\<lparr>deferred_tcp_recved := w\<rparr>) = life k s"
  "life k (s\<lparr>sent_response_salt := b\<rparr>) = life k s"
  "life k (s\<lparr>client_eof := b\<rparr>) = life k s"
  "life k (s\<lparr>remote_eof := b\<rparr>) = life k s"
  by (simp_all add: life_def owners_def)

text \<open>What the steps of the flush loop keep, the loop keeps.\<close>

lemma flush_loop_rule:
  assumes "I s"
    and out: "\<And>s. I s \<Longrightarrow> I (emit (TcpOutput p) s)"
    and pause: "\<And>s. I s \<Longrightarrow> I (s\<lparr>client_read_paused := True\<rparr>)"
    and fail: "\<And>s b e. I s \<Longrightarrow> e \<noteq> ERR_OK \<Longrightarrow> I (emit (TcpWrite p b e) s)"
    and shut: "\<And>s. I s \<Longrightarrow> I (close env s)"
    and sent: "\<And>s pkt rest. I s \<Longrightarrow> pending_lwip s = pkt # rest \<Longrightarrow>
      I ((emit (TcpWrite p (take (unat (word_of_nat (length pkt) :: u16)) pkt) ERR_OK) s)\<lparr>pending_lwip := rest\<rparr>)"
  shows "I (flush_loop env p s)"
  using assms(1)
proof (induction "length (pending_lwip s)" arbitrary: s)
  case 0
  with out show ?case by (simp add: flush_loop.simps [of env p s])
next
  case (Suc n)
  then obtain pkt rest where q: "pending_lwip s = pkt # rest" by (cases "pending_lwip s") auto
  let ?w = "\<lambda>e. emit (TcpWrite p (take (unat (word_of_nat (length pkt) :: u16)) pkt) e) s"
  have "I (flush_loop env p ((?w ERR_OK)\<lparr>pending_lwip := rest\<rparr>))"
    using Suc.hyps(1) [of "(?w ERR_OK)\<lparr>pending_lwip := rest\<rparr>"] Suc.hyps(2) q sent [OF Suc.prems q] by simp
  moreover have "I (?w e)" if "e \<noteq> ERR_OK" for e using Suc.prems that by (rule fail)
  ultimately show ?case
    using Suc.prems by (subst flush_loop.simps) (auto simp: q Let_def simp del: emit_def intro!: out pause shut)
qed

lemma life_flush_loop: "life k s \<Longrightarrow> life k (flush_loop env p s)"
  by (rule flush_loop_rule) (simp_all add: life_close)

lemma life_flush_to_lwip: "life k s \<Longrightarrow> life k (flush_to_lwip env s)"
  by (simp add: flush_to_lwip_def life_flush_loop Let_def split: option.splits)

lemma life_read_encrypted_stream: "life k s \<Longrightarrow> \<not> destroyed s \<Longrightarrow> life k (read_encrypted_stream s)"
  by (auto simp: read_encrypted_stream_def use_alive life_def owners_def Let_def)

lemma life_alive: "life (Suc k) s \<Longrightarrow> \<not> destroyed s"
  by (simp add: life_def owners_def)

lemma life_connect_ip:
  assumes "life (Suc k) s" "got_target s" "resolving s = None" "tpcb s = None"
  shows "life (Suc k) (connect_ip env ip prt s)"
proof (cases "env_new env (trace s)")
  case None
  have "life (Suc k) (s\<lparr>tpcb := None\<rparr>)" using assms by (simp add: life_def owners_def)
  with None show ?thesis by (simp add: connect_ip_def life_close use_alive [OF life_alive [OF assms(1)]])
next
  case (Some p)
  have "life (Suc k) (s\<lparr>tpcb := Some p, active_self := True, registered := p # registered s\<rparr>)"
    using assms by (simp add: life_def owners_def)
  then have "life (Suc k) (s\<lparr>tpcb := Some p, active_self := True, registered := p # registered s, trace := tr\<rparr>)" for tr by simp
  with Some show ?thesis by (auto simp: connect_ip_def use_alive [OF life_alive [OF assms(1)]] Let_def intro: life_close)
qed

lemma life_push_lwip [simp]: "life k (push_lwip b s) = life k s"
  by (simp add: push_lwip_def)

lemma life_connect_target:
  assumes "life (Suc k) s" "got_target s" "resolving s = None" "tpcb s = None"
  shows "life (Suc k) (snd (connect_target env t s))"
proof (cases "addr_type t = Domain")
  case True
  have "life (Suc k) (s\<lparr>trace := tr, resolving := r\<rparr>)" for tr r
    using assms by (simp add: life_def owners_def)
  with True assms(1) show ?thesis
    by (simp add: connect_target_def resolve_domain_then_connect_def Let_def split: option.splits)
next
  case False
  with assms show ?thesis
    by (simp add: connect_target_def life_connect_ip split: sum.splits)
qed

lemma life_process_decrypted_chunk:
  assumes "life (Suc k) s"
  shows "life (Suc k) (snd (process_decrypted_chunk env chunk s))"
proof (cases "got_target s")
  case True
  with assms show ?thesis by (simp add: process_decrypted_chunk_def Let_def)
next
  case False
  then have pre: "tpcb s = None" "resolving s = None" using assms by (auto simp: life_def)
  let ?s = "(use s)\<lparr>trace := ChunkIn chunk # trace s, got_target := True\<rparr>"
  have "life (Suc k) ?s" using assms pre by (simp add: use_alive [OF life_alive [OF assms]] life_def owners_def)
  then have "life (Suc k) (snd (connect_target env t ?s))" for t
    using pre by (intro life_connect_target) simp_all
  then have ct: "connect_target env t ?s = (x, s1) \<Longrightarrow> life (Suc k) s1" for t x s1 by (metis snd_conv)
  from False assms show ?thesis
    by (auto simp: process_decrypted_chunk_def Let_def life_close dest: ct split: sum.splits option.splits prod.splits)
qed

text \<open>What holds before the loop, and is kept by processing a chunk, holds after it.\<close>

lemma chunk_loop_rule:
  assumes "I None s"
    and chunk: "\<And>s view chunk view1 cr x t. I None s \<Longrightarrow>
        decrypt_tcp_chunk c (crypto s) view = Inr (Some (chunk, view1, cr)) \<Longrightarrow>
        process_decrypted_chunk env chunk (s\<lparr>crypto := cr\<rparr>) = (x, t) \<Longrightarrow> I x t"
    and error: "\<And>s view e. I None s \<Longrightarrow> decrypt_tcp_chunk c (crypto s) view = Inl e \<Longrightarrow> I (Some e) s"
    and result: "chunk_loop env c view s = (x, v, t)"
  shows "I x t"
  using assms(1) result
proof (induction view arbitrary: s rule: length_induct)
  case (1 view)
  consider (err) e where "decrypt_tcp_chunk c (crypto s) view = Inl e"
    | (more) "decrypt_tcp_chunk c (crypto s) view = Inr None"
    | (chunk) k v1 cr where "decrypt_tcp_chunk c (crypto s) view = Inr (Some (k, v1, cr))"
    by (metis Inl_Inr_False sum.exhaust option.exhaust prod_cases3)
  then show ?case
  proof cases
    case err
    with "1.prems" error show ?thesis by (auto simp: chunk_loop.simps [of env c view])
  next
    case more
    with "1.prems" show ?thesis by (auto simp: chunk_loop.simps [of env c view])
  next
    case chunk
    obtain y s1 where p: "process_decrypted_chunk env k (s\<lparr>crypto := cr\<rparr>) = (y, s1)" by fastforce
    from assms(2) [OF "1.prems"(1) chunk p] have "I y s1" .
    moreover have "length v1 < length view" using chunk by (rule decrypt_tcp_chunk_shorter)
    ultimately show ?thesis
      using "1.prems"(2) "1.IH" chunk p by (cases y) (auto simp: chunk_loop.simps [of env c view])
  qed
qed

lemma life_chunk_loop:
  assumes "life (Suc k) s" "chunk_loop env c view s = (x, v, t)"
  shows "life (Suc k) t"
  by (rule chunk_loop_rule [where I = "\<lambda>_. life (Suc k)", OF assms(1) _ _ assms(2)])
    (metis life_process_decrypted_chunk life_irrelevant(4) snd_conv)+

end
