(* ===== verification/TcpRelayLife.thy ===== *)
theory TcpRelayLife
  imports TcpRelaySession
begin

text \<open>
  Lifetime of a TCP relay session: every event keeps the invariant \<open>life 0\<close>, so the stack
  never calls back into a destroyed session, and which events can use a session after it
  was destroyed.
\<close>

section \<open>Handlers keep the lifetime invariant\<close>

lemma life_abort_pcb: "life k s \<Longrightarrow> life k (abort_pcb p s)"
  unfolding abort_pcb_def
  by (rule life_release) (auto simp: life_def owners_def detach_pcb_callbacks_def split: option.splits)

lemma life_handle_client_eof: "life k s \<Longrightarrow> life k (handle_client_eof env s)"
  by (auto simp: handle_client_eof_def Let_def life_close life_abort_pcb split: option.splits)

lemma life_leave: "life (Suc 0) s \<Longrightarrow> life 0 (snd (leave (x, s)))"
  by (auto simp: leave_def life_def owners_def)

lemma life_catch_close: "life k s \<Longrightarrow> life k (snd (catch_close env e s))"
  by (simp add: catch_close_def life_close)

lemma life_on_salt_read: "life (Suc k) s \<Longrightarrow> life (Suc k) (snd (on_salt_read env c r s))"
  by (auto simp: on_salt_read_def life_catch_close life_close
      intro!: life_read_encrypted_stream split: option.splits sum.splits dest: life_alive)

lemma life_on_stream_read:
  assumes "life (Suc k) s"
  shows "life (Suc k) (snd (on_stream_read env c r s))"
proof (cases r)
  case (Inl ec)
  with assms show ?thesis by (simp add: on_stream_read_def life_handle_client_eof life_close)
next
  case (Inr bs)
  let ?s = "s\<lparr>encrypted_in := PacketBuffer_append (encrypted_in s) bs\<rparr>"
  obtain x v t where l: "chunk_loop env c (encrypted_in ?s) ?s = (x, v, t)" by (metis prod_cases3)
  then have t: "life (Suc k) t" using assms by (intro life_chunk_loop [OF _ l]) simp
  have go: "life (Suc k) (read_encrypted_stream (flush_to_lwip env u))" if "life (Suc k) u" for u
    using that by (intro life_read_encrypted_stream life_flush_to_lwip life_alive)
  show ?thesis
    using Inr l go [of t] go [of "t\<lparr>encrypted_in := v\<rparr>"] t
    by (cases x) (simp_all add: on_stream_read_def Let_def life_catch_close)
qed

lemma life_writing: "life (Suc k) s \<Longrightarrow> life (Suc k) (s\<lparr>writing_client := b\<rparr>)"
  by (simp add: life_def owners_def)

lemma life_flush_to_client: "life k s \<Longrightarrow> \<not> destroyed s \<Longrightarrow> life k (flush_to_client s)"
  by (auto simp: flush_to_client_def use_alive life_def owners_def Let_def split: list.splits)

text \<open>The loop hands the whole deferred count to \<^verbatim>\<open>tcp_recved\<close>, in 16-bit pieces.\<close>

lemma recved_loop_form:
  "\<exists>ns. recved_loop p s = s\<lparr>deferred_tcp_recved := 0, trace := map (TcpRecved p) ns @ trace s\<rparr> \<and>
     sum_list (map unat ns) = unat (deferred_tcp_recved s)"
proof (induction p s rule: recved_loop.induct)
  case (1 p s)
  show ?case
  proof (cases "deferred_tcp_recved s = 0")
    case True
    then show ?thesis by (intro exI [of _ "[]"]) (simp add: recved_loop.simps)
  next
    case False
    let ?d = "deferred_tcp_recved s"
    define n where n: "n = (ucast (min ?d 0xffff) :: u16)"
    have un: "ucast n = min ?d 0xffff" by (simp only: n ucast_min_ffff)
    have "unat n < 2 ^ 64" by (rule order.strict_trans [OF unat_u16_less]) simp
    then have "unat (ucast n :: 64 word) = unat n" by (simp add: unsigned_ucast_eq take_bit_nat_eq_self)
    then have uu: "unat n = unat (min ?d 0xffff)" by (simp only: un)
    have le: "min ?d 0xffff \<le> ?d" by simp
    have "unat (?d - ucast n) + unat n = unat ?d"
      unfolding un uu unat_sub [OF le] using le by (simp add: word_le_nat_alt)
    moreover from "1.IH" [OF False n] obtain ns where
      "recved_loop p (emit (TcpRecved p n) (s\<lparr>deferred_tcp_recved := ?d - ucast n\<rparr>)) =
        (emit (TcpRecved p n) (s\<lparr>deferred_tcp_recved := ?d - ucast n\<rparr>))
          \<lparr>deferred_tcp_recved := 0, trace := map (TcpRecved p) ns @ TcpRecved p n # trace s\<rparr>"
      "sum_list (map unat ns) = unat (?d - ucast n)" by auto
    moreover have "recved_loop p s = recved_loop p (emit (TcpRecved p n) (s\<lparr>deferred_tcp_recved := ?d - ucast n\<rparr>))"
      using False by (subst recved_loop.simps) (simp add: Let_def n)
    ultimately show ?thesis by (intro exI [of _ "ns @ [n]"]) simp
  qed
qed

lemma recved_loop_frame [simp]:
  "life k (recved_loop p s) = life k s"
  "pending_client (recved_loop p s) = pending_client s"
  "client_queue_bytes (recved_loop p s) = client_queue_bytes s"
  "writing_client (recved_loop p s) = writing_client s"
  "closing (recved_loop p s) = closing s"
  "tpcb (recved_loop p s) = tpcb s"
  "pending_lwip (recved_loop p s) = pending_lwip s"
  "crypto (recved_loop p s) = crypto s"
  "got_target (recved_loop p s) = got_target s"
  "sent_response_salt (recved_loop p s) = sent_response_salt s"
proof -
  obtain ns where f: "recved_loop p s = s\<lparr>deferred_tcp_recved := 0, trace := map (TcpRecved p) ns @ trace s\<rparr>"
    using recved_loop_form by blast
  show "life k (recved_loop p s) = life k s" "pending_client (recved_loop p s) = pending_client s"
    "client_queue_bytes (recved_loop p s) = client_queue_bytes s"
    "writing_client (recved_loop p s) = writing_client s" "closing (recved_loop p s) = closing s"
    "tpcb (recved_loop p s) = tpcb s" "pending_lwip (recved_loop p s) = pending_lwip s"
    "crypto (recved_loop p s) = crypto s" "got_target (recved_loop p s) = got_target s"
    "sent_response_salt (recved_loop p s) = sent_response_salt s"
    by (simp_all add: f)
qed

lemma life_on_client_written:
  assumes "life (Suc k) s"
  shows "life (Suc k) (snd (on_client_written env r s))"
proof -
  have u: "use s = s" using assms by (intro use_alive life_alive)
  have w: "life (Suc k) (s\<lparr>writing_client := False\<rparr>)" using assms by (rule life_writing)
  then have v: "life (Suc k) (s\<lparr>writing_client := False, client_queue_bytes := q, pending_client := l\<rparr>)" for q l by simp
  have go: "life (Suc k) (flush_to_client u)" if "life (Suc k) u" for u
    using that by (intro life_flush_to_client life_alive)
  show ?thesis
    using w v go by (auto simp: on_client_written_def u Let_def life_close split: option.splits list.splits)
qed

lemma life_maybe_resume: "life k s \<Longrightarrow> maybe_resume_client_read env s = (None, t) \<Longrightarrow> life k t"
  by (auto simp: maybe_resume_client_read_def Let_def split: if_splits
      intro!: life_read_encrypted_stream life_flush_to_lwip)

lemma life_handle_remote_fin:
  assumes "life k s" "handle_remote_fin env s = (None, t)"
  shows "life k t"
proof -
  define u where "u = emit SockShutdownSend ((use s)\<lparr>remote_eof := True\<rparr>)"
  have u: "life k u" using assms(1) by (simp add: u_def)
  note r = life_close_pcb_release [OF u, of env]
  from assms(2) u r life_close [OF u, of env] life_close [OF r, of env] show ?thesis
    unfolding handle_remote_fin_def Let_def u_def [symmetric] by (auto split: if_splits)
qed

lemma ensure_response_salt_cases:
  assumes "ensure_response_salt c d s = Inr s1"
  obtains (sent) "sent_response_salt s" "s1 = s"
  | (fresh) salt cr where "\<not> sent_response_salt s" "client_salt c d (crypto s) = Inr (salt, cr)"
      "s1 = (push_client salt (s\<lparr>crypto := cr\<rparr>))\<lparr>sent_response_salt := True\<rparr>"
  using assms by (auto simp: ensure_response_salt_def bind_result_conv split: if_splits)

lemma enqueue_cases:
  assumes "enqueue_client_payload c d bs s = (x, t)"
  obtains (empty) "bs = []" "x = None" "t = s"
  | (no_salt) e where "bs \<noteq> []" "ensure_response_salt c d s = Inl e" "x = Some e" "t = s"
  | (no_chunk) e s1 cr where "bs \<noteq> []" "ensure_response_salt c d s = Inr s1"
      "encrypt_tcp_chunk c bs (crypto s1) = (Inl e, cr)" "x = Some e" "t = s1\<lparr>crypto := cr\<rparr>"
  | (queued) out s1 cr where "bs \<noteq> []" "ensure_response_salt c d s = Inr s1"
      "encrypt_tcp_chunk c bs (crypto s1) = (Inr out, cr)" "x = None"
      "t = flush_to_client (push_client out (s1\<lparr>crypto := cr\<rparr>))"
  using assms
  by (auto simp: enqueue_client_payload_def split: if_splits sum.splits prod.splits)

lemma life_push_client [simp]: "life k (push_client b s) = life k s"
  by (simp add: push_client_def)

lemma push_client_simps [simp]:
  "destroyed (push_client b s) = destroyed s"
  "tpcb (push_client b s) = tpcb s"
  "closing (push_client b s) = closing s"
  "crypto (push_client b s) = crypto s"
  "sent_response_salt (push_client b s) = sent_response_salt s"
  "writing_client (push_client b s) = writing_client s"
  "pending_client (push_client b s) = pending_client s @ [b]"
  "pending_lwip (push_client b s) = pending_lwip s"
  "deferred_tcp_recved (push_client b s) = deferred_tcp_recved s"
  "got_target (push_client b s) = got_target s"
  "trace (push_client b s) = trace s"
  by (simp_all add: push_client_def)

lemma life_ensure: "ensure_response_salt c d s = Inr s1 \<Longrightarrow> life k s1 = life k s \<and> destroyed s1 = destroyed s \<and> tpcb s1 = tpcb s"
  by (erule ensure_response_salt_cases) simp_all

lemma flush_to_client_simps [simp]:
  "tpcb (flush_to_client s) = tpcb s"
  "closing (flush_to_client s) = closing s"
  "destroyed (flush_to_client s) = destroyed s"
  "pending_client (flush_to_client s) = pending_client s"
  "client_queue_bytes (flush_to_client s) = client_queue_bytes s"
  "crypto (flush_to_client s) = crypto s"
  "pending_lwip (flush_to_client s) = pending_lwip s"
  "deferred_tcp_recved (flush_to_client s) = deferred_tcp_recved s"
  "got_target (flush_to_client s) = got_target s"
  "sent_response_salt (flush_to_client s) = sent_response_salt s"
  by (simp_all add: flush_to_client_def Let_def split: list.splits)

lemma life_enqueue:
  assumes "enqueue_client_payload c d bs s = (x, t)" "life k s" "\<not> destroyed s"
  shows "life k t" "tpcb t = tpcb s"
proof -
  have "life k t \<and> tpcb t = tpcb s"
    using assms(1)
  proof (cases rule: enqueue_cases)
    case (no_chunk e s1 cr)
    with life_ensure [OF no_chunk(2), of k] assms(2) show ?thesis by simp
  next
    case (queued out s1 cr)
    with life_ensure [OF queued(2), of k] assms(2,3) show ?thesis by (simp add: life_flush_to_client)
  qed (use assms(2) in simp_all)
  then show "life k t" "tpcb t = tpcb s" by simp_all
qed

lemma life_on_recv:
  assumes "life k s" "\<not> destroyed s" "on_recv env c d p err s = (None, t)"
  shows "life k t"
proof (cases "err = ERR_OK")
  case False
  with assms show ?thesis by (auto simp: on_recv_def life_close)
next
  case True
  show ?thesis
  proof (cases p)
    case None
    with True assms show ?thesis by (auto simp: on_recv_def intro: life_handle_remote_fin)
  next
    case (Some bs)
    obtain x u where e: "enqueue_client_payload c d bs (emit (Received bs) s) = (x, u)" by fastforce
    have "life k u" by (rule life_enqueue(1) [OF e]) (use assms in simp_all)
    with True Some e assms(3) show ?thesis
      by (cases x) (auto simp: on_recv_def catch_close_def life_close Let_def split: if_splits option.splits)
  qed
qed

lemma life_on_err:
  assumes "life k s" "tpcb s \<noteq> None"
  shows "life k (on_err (s\<lparr>registered := tl (registered s)\<rparr>))"
proof -
  let ?s = "use (s\<lparr>registered := tl (registered s), tpcb := None\<rparr>)"
  have "life k (release_active_self (if closing s then ?s else emit SockClose (emit SockShutdownBoth (?s\<lparr>closing := True\<rparr>))))"
    by (rule life_release) (use assms in \<open>auto simp: life_def owners_def use_def\<close>)
  then show ?thesis by (simp add: on_err_def close_client_only_def Let_def)
qed

lemma life_handle:
  assumes "life 0 s" "enabled ev s" "dispatch env c d ev s = (None, t)" "\<not> used_after_free s"
  shows "life 0 t"
proof -
  have reg: "tpcb s \<noteq> None" if "registered s \<noteq> []" using that assms(1) by (auto simp: life_def)
  have alive: "\<not> destroyed s" if "tpcb s \<noteq> None"
    using that assms(1) by (auto simp: life_def owners_def)
  have leave: "life 0 (snd (leave r))" if "life (Suc 0) (snd r)" for r
    using that life_leave [of "snd r" "fst r"] by simp
  show ?thesis
  proof (cases ev)
    case (SaltRead r)
    let ?s = "s\<lparr>salt_reads := salt_reads s - 1, handler_refs := handler_refs s + 1\<rparr>"
    have "life (Suc 0) ?s" using assms(1,2,4) SaltRead by (auto simp: life_def owners_def enabled_def)
    from leave [OF life_on_salt_read [OF this]] SaltRead assms(3) show ?thesis
      by (simp add: dispatch_def) (metis snd_conv)
  next
    case (StreamRead r)
    let ?s = "s\<lparr>stream_reads := stream_reads s - 1, handler_refs := handler_refs s + 1\<rparr>"
    have "life (Suc 0) ?s" using assms(1,2,4) StreamRead by (auto simp: life_def owners_def enabled_def)
    from leave [OF life_on_stream_read [OF this]] StreamRead assms(3) show ?thesis
      by (simp add: dispatch_def) (metis snd_conv)
  next
    case (ClientWritten r)
    let ?s = "s\<lparr>handler_refs := handler_refs s + 1\<rparr>"
    have "life (Suc 0) ?s" using assms(1,2,4) ClientWritten by (auto simp: life_def owners_def enabled_def)
    from leave [OF life_on_client_written [OF this]] ClientWritten assms(3) show ?thesis
      by (simp add: dispatch_def) (metis snd_conv)
  next
    case (Connected e)
    with assms show ?thesis by (auto simp: dispatch_def on_connected_def life_close life_flush_to_lwip split: if_splits)
  next
    case (Recv p e)
    with assms(2) reg alive have "\<not> destroyed s" by (simp add: enabled_def)
    with Recv assms show ?thesis by (auto simp: dispatch_def intro: life_on_recv)
  next
    case (Sent n)
    with assms show ?thesis by (auto simp: dispatch_def intro: life_maybe_resume)
  next
    case (TcpErr e)
    with assms(2) reg have "tpcb s \<noteq> None" by (simp add: enabled_def)
    from life_on_err [OF assms(1) this] TcpErr assms(3) show ?thesis by (auto simp: dispatch_def)
  next
    case (Resolved e ip)
    then obtain prt where prt: "resolving s = Some prt" using assms(2) by (auto simp: enabled_def)
    then have pre: "got_target s" "tpcb s = None" using assms(1) by (auto simp: life_def)
    show ?thesis
    proof (cases "destroyed s")
      case True
      with Resolved prt pre assms show ?thesis by (auto simp: dispatch_def life_def owners_def)
    next
      case False
      let ?s = "s\<lparr>resolving := None, handler_refs := handler_refs s + 1\<rparr>"
      have l: "life (Suc 0) ?s" using assms(1,4) False by (auto simp: life_def owners_def)
      have "life (Suc 0) (on_resolved env e ip prt ?s)"
        using pre l by (auto simp: on_resolved_def intro!: life_close life_connect_ip split: option.splits)
      from leave [of "(None, on_resolved env e ip prt ?s)"] this Resolved prt False assms(3) show ?thesis
        by (simp add: dispatch_def)
    qed
  qed
qed

interpretation tcp_life: invariant_system "tcp_init f" "tcp_step env c" "\<lambda>s. life 0 s \<and> \<not> used_after_free s" for f env c
proof
  show "life 0 s \<and> \<not> used_after_free s" if "tcp_init f s" for s
    using that by (simp add: tcp_init_def start_def TcpRelaySession_new_def life_def owners_def)
  show "life 0 t \<and> \<not> used_after_free t" if "life 0 s \<and> \<not> used_after_free s" "tcp_step env c s t" for s t
    using that(2,1) by cases (use life_handle in \<open>auto simp: handle_None\<close>)
qed

end
