(* ===== verification/TcpRelayStream.thy ===== *)
theory TcpRelayStream
  imports TcpRelayLife
begin

text \<open>
  What a TCP relay session does with data: bytes of the client reach the stack complete and
  in order, bytes of the stack reach the client encrypted, complete and in order, the queue
  counter is the size of the queue, and the receive window is given back exactly.
\<close>

section \<open>What connecting and flushing leave alone\<close>

lemma connect_ip_frame [simp]:
  "crypto (connect_ip env ip prt s) = crypto s"
  "encrypted_in (connect_ip env ip prt s) = encrypted_in s"
  "pending_client (connect_ip env ip prt s) = pending_client s"
  "client_queue_bytes (connect_ip env ip prt s) = client_queue_bytes s"
  "deferred_tcp_recved (connect_ip env ip prt s) = deferred_tcp_recved s"
  "sent_response_salt (connect_ip env ip prt s) = sent_response_salt s"
  "writing_client (connect_ip env ip prt s) = writing_client s"
  "client_eof (connect_ip env ip prt s) = client_eof s"
  "remote_eof (connect_ip env ip prt s) = remote_eof s"
  "salt_reads (connect_ip env ip prt s) = salt_reads s"
  "stream_reads (connect_ip env ip prt s) = stream_reads s"
  "handler_refs (connect_ip env ip prt s) = handler_refs s"
  "pending_lwip (connect_ip env ip prt s) = pending_lwip s"
  "got_target (connect_ip env ip prt s) = got_target s"
  "client_read_paused (connect_ip env ip prt s) = client_read_paused s"
  "resolving (connect_ip env ip prt s) = resolving s"
  by (simp_all add: connect_ip_def Let_def split: option.splits)

lemma connect_target_frame [simp]:
  "crypto (snd (connect_target env t s)) = crypto s"
  "encrypted_in (snd (connect_target env t s)) = encrypted_in s"
  "pending_client (snd (connect_target env t s)) = pending_client s"
  "client_queue_bytes (snd (connect_target env t s)) = client_queue_bytes s"
  "deferred_tcp_recved (snd (connect_target env t s)) = deferred_tcp_recved s"
  "sent_response_salt (snd (connect_target env t s)) = sent_response_salt s"
  "writing_client (snd (connect_target env t s)) = writing_client s"
  "client_eof (snd (connect_target env t s)) = client_eof s"
  "remote_eof (snd (connect_target env t s)) = remote_eof s"
  "salt_reads (snd (connect_target env t s)) = salt_reads s"
  "stream_reads (snd (connect_target env t s)) = stream_reads s"
  "handler_refs (snd (connect_target env t s)) = handler_refs s"
  "pending_lwip (snd (connect_target env t s)) = pending_lwip s"
  "got_target (snd (connect_target env t s)) = got_target s"
  "client_read_paused (snd (connect_target env t s)) = client_read_paused s"
  by (simp_all add: connect_target_def resolve_domain_then_connect_def Let_def split: option.splits sum.splits)

lemma connect_data [simp]:
  "data (connect_ip env ip prt s) = data s"
  "data (snd (connect_target env t s)) = data s"
proof -
  show c: "data (connect_ip env ip prt s) = data s" for ip prt
    unfolding connect_ip_def Let_def by (simp split: option.splits) (simp add: data_def)
  show "data (snd (connect_target env t s)) = data s"
    by (simp add: connect_target_def resolve_domain_then_connect_def Let_def c split: option.splits sum.splits)
      (simp add: data_def)
qed

lemma flush_loop_frame [simp]:
  "crypto (flush_loop env p s) = crypto s"
  "encrypted_in (flush_loop env p s) = encrypted_in s"
  "pending_client (flush_loop env p s) = pending_client s"
  "client_queue_bytes (flush_loop env p s) = client_queue_bytes s"
  "deferred_tcp_recved (flush_loop env p s) = deferred_tcp_recved s"
  "sent_response_salt (flush_loop env p s) = sent_response_salt s"
  "writing_client (flush_loop env p s) = writing_client s"
  "client_eof (flush_loop env p s) = client_eof s"
  "remote_eof (flush_loop env p s) = remote_eof s"
  "salt_reads (flush_loop env p s) = salt_reads s"
  "stream_reads (flush_loop env p s) = stream_reads s"
  "handler_refs (flush_loop env p s) = handler_refs s"
  "got_target (flush_loop env p s) = got_target s"
  "resolving (flush_loop env p s) = resolving s"
proof -
  have "crypto (flush_loop env p s) = crypto s \<and>
    encrypted_in (flush_loop env p s) = encrypted_in s \<and>
    pending_client (flush_loop env p s) = pending_client s \<and>
    client_queue_bytes (flush_loop env p s) = client_queue_bytes s \<and>
    deferred_tcp_recved (flush_loop env p s) = deferred_tcp_recved s \<and>
    sent_response_salt (flush_loop env p s) = sent_response_salt s \<and>
    writing_client (flush_loop env p s) = writing_client s \<and>
    client_eof (flush_loop env p s) = client_eof s \<and>
    remote_eof (flush_loop env p s) = remote_eof s \<and>
    salt_reads (flush_loop env p s) = salt_reads s \<and>
    stream_reads (flush_loop env p s) = stream_reads s \<and>
    handler_refs (flush_loop env p s) = handler_refs s \<and>
    got_target (flush_loop env p s) = got_target s \<and>
    resolving (flush_loop env p s) = resolving s"
  proof (induction env p s rule: flush_loop.induct)
    case (1 env p s)
    then show ?case by (subst (1 2 3 4 5 6 7 8 9 10 11 12 13 14) flush_loop.simps) (simp add: Let_def split: list.splits)
  qed
  then show "crypto (flush_loop env p s) = crypto s"
    "encrypted_in (flush_loop env p s) = encrypted_in s"
    "pending_client (flush_loop env p s) = pending_client s"
    "client_queue_bytes (flush_loop env p s) = client_queue_bytes s"
    "deferred_tcp_recved (flush_loop env p s) = deferred_tcp_recved s"
    "sent_response_salt (flush_loop env p s) = sent_response_salt s"
    "writing_client (flush_loop env p s) = writing_client s"
    "client_eof (flush_loop env p s) = client_eof s"
    "remote_eof (flush_loop env p s) = remote_eof s"
    "salt_reads (flush_loop env p s) = salt_reads s"
    "stream_reads (flush_loop env p s) = stream_reads s"
    "handler_refs (flush_loop env p s) = handler_refs s"
    "got_target (flush_loop env p s) = got_target s"
    "resolving (flush_loop env p s) = resolving s"
    by simp_all
qed

section \<open>Reading the trace\<close>

text \<open>
  Decrypted chunks in order; bytes accepted by \<^verbatim>\<open>tcp_write\<close>; payloads the stack
  delivered; bytes given back by \<^verbatim>\<open>tcp_recved\<close>; buffers given to
  \<^verbatim>\<open>async_write\<close>.
\<close>

fun chunks_in :: "tcp_action list \<Rightarrow> bytes list" where
  "chunks_in [] = []"
| "chunks_in (ChunkIn b # tr) = chunks_in tr @ [b]"
| "chunks_in (_ # tr) = chunks_in tr"

fun written :: "tcp_action list \<Rightarrow> bytes" where
  "written [] = []"
| "written (TcpWrite p b e # tr) = written tr @ (if e = ERR_OK then b else [])"
| "written (_ # tr) = written tr"

fun payloads :: "tcp_action list \<Rightarrow> bytes list" where
  "payloads [] = []"
| "payloads (Received b # tr) = payloads tr @ [b]"
| "payloads (_ # tr) = payloads tr"

fun recved_total :: "tcp_action list \<Rightarrow> nat" where
  "recved_total [] = 0"
| "recved_total (TcpRecved p n # tr) = recved_total tr + unat n"
| "recved_total (_ # tr) = recved_total tr"

fun client_writes :: "tcp_action list \<Rightarrow> bytes list" where
  "client_writes [] = []"
| "client_writes (AsyncWrite b # tr) = client_writes tr @ [b]"
| "client_writes (_ # tr) = client_writes tr"

lemma filter_data:
  "chunks_in (filter is_data tr) = chunks_in tr"
  "written (filter is_data tr) = written tr"
  "payloads (filter is_data tr) = payloads tr"
  "recved_total (filter is_data tr) = recved_total tr"
  "client_writes (filter is_data tr) = client_writes tr"
proof -
  show "chunks_in (filter is_data tr) = chunks_in tr" by (induction tr rule: chunks_in.induct) simp_all
  show "written (filter is_data tr) = written tr" by (induction tr rule: written.induct) simp_all
  show "payloads (filter is_data tr) = payloads tr" by (induction tr rule: payloads.induct) simp_all
  show "recved_total (filter is_data tr) = recved_total tr" by (induction tr rule: recved_total.induct) simp_all
  show "client_writes (filter is_data tr) = client_writes tr" by (induction tr rule: client_writes.induct) simp_all
qed

lemmas trace_data = filter_data [of "trace s" for s, folded data_def] last_write_data [of "trace s" for s, folded data_def]

lemma data_update [simp]:
  "data (s\<lparr>crypto := x0\<rparr>) = data s"
  "data (s\<lparr>active_self := x1\<rparr>) = data s"
  "data (s\<lparr>tpcb := x2\<rparr>) = data s"
  "data (s\<lparr>encrypted_in := x3\<rparr>) = data s"
  "data (s\<lparr>pending_lwip := x4\<rparr>) = data s"
  "data (s\<lparr>pending_client := x5\<rparr>) = data s"
  "data (s\<lparr>client_queue_bytes := x6\<rparr>) = data s"
  "data (s\<lparr>deferred_tcp_recved := x7\<rparr>) = data s"
  "data (s\<lparr>got_target := x8\<rparr>) = data s"
  "data (s\<lparr>sent_response_salt := x9\<rparr>) = data s"
  "data (s\<lparr>client_read_paused := x10\<rparr>) = data s"
  "data (s\<lparr>writing_client := x11\<rparr>) = data s"
  "data (s\<lparr>client_eof := x12\<rparr>) = data s"
  "data (s\<lparr>remote_eof := x13\<rparr>) = data s"
  "data (s\<lparr>closing := x14\<rparr>) = data s"
  "data (s\<lparr>salt_reads := x15\<rparr>) = data s"
  "data (s\<lparr>stream_reads := x16\<rparr>) = data s"
  "data (s\<lparr>resolving := x17\<rparr>) = data s"
  "data (s\<lparr>handler_refs := x18\<rparr>) = data s"
  "data (s\<lparr>destroyed := x19\<rparr>) = data s"
  "data (s\<lparr>registered := x20\<rparr>) = data s"
  "data (use s) = data s"
  "data (s\<lparr>trace := a # tr\<rparr>) = (if is_data a then a # filter is_data tr else filter is_data tr)"
  "filter is_data (trace s) = data s"
  by (simp_all add: data_def)

section \<open>The two directions\<close>

text \<open>
  The part of the state that belongs to one direction. An event that concerns the other
  direction leaves it as it is, apart from closing the session.
\<close>

definition send_part :: "ShadowsocksAeadSession \<Rightarrow> bytes \<times> bytes \<times> bytes \<times> bool" where
  "send_part cr = (master_key cr, send_key cr, send_nonce cr, sent_salt cr)"

definition down_view where
  "down_view s = (pending_client s, writing_client s, client_queue_bytes s, deferred_tcp_recved s,
     sent_response_salt s, send_part (crypto s), payloads (data s), recved_total (data s), client_writes (data s))"

definition up_view where
  "up_view s = (pending_lwip s, got_target s, chunks_in (data s), written (data s))"

lemma view_close [simp]:
  "down_view (close env s) = down_view s" "up_view (close env s) = up_view s"
  "down_view (release_active_self s) = down_view s" "up_view (release_active_self s) = up_view s"
  "down_view (close_pcb env s) = down_view s" "up_view (close_pcb env s) = up_view s"
  "down_view (drop_owner s) = down_view s" "up_view (drop_owner s) = up_view s"
  "down_view (use s) = down_view s" "up_view (use s) = up_view s"
  by (simp_all add: down_view_def up_view_def)

lemma view_leave [simp]: "down_view (snd (leave r)) = down_view (snd r)" "up_view (snd (leave r)) = up_view (snd r)"
  by (simp_all add: leave_def down_view_def up_view_def)

lemma down_view_update [simp]:
  "down_view (s\<lparr>active_self := x1\<rparr>) = down_view s"
  "down_view (s\<lparr>tpcb := x2\<rparr>) = down_view s"
  "down_view (s\<lparr>encrypted_in := x3\<rparr>) = down_view s"
  "down_view (s\<lparr>pending_lwip := x4\<rparr>) = down_view s"
  "down_view (s\<lparr>got_target := x5\<rparr>) = down_view s"
  "down_view (s\<lparr>client_read_paused := x6\<rparr>) = down_view s"
  "down_view (s\<lparr>client_eof := x7\<rparr>) = down_view s"
  "down_view (s\<lparr>remote_eof := x8\<rparr>) = down_view s"
  "down_view (s\<lparr>closing := x9\<rparr>) = down_view s"
  "down_view (s\<lparr>salt_reads := x10\<rparr>) = down_view s"
  "down_view (s\<lparr>stream_reads := x11\<rparr>) = down_view s"
  "down_view (s\<lparr>resolving := x12\<rparr>) = down_view s"
  "down_view (s\<lparr>handler_refs := x13\<rparr>) = down_view s"
  "down_view (s\<lparr>registered := x14\<rparr>) = down_view s"
  "send_part cr = send_part (crypto s) \<Longrightarrow> down_view (s\<lparr>crypto := cr\<rparr>) = down_view s"
  by (simp_all add: down_view_def)

lemma down_view_flush_loop [simp]: "down_view (flush_loop env p s) = down_view s"
proof (rule flush_loop_rule [where I = "\<lambda>u. down_view u = down_view s"])
qed (simp_all add: down_view_def)

lemma down_view_simps [simp]:
  "down_view (flush_to_lwip env s) = down_view s"
  "down_view (read_encrypted_stream s) = down_view s"
  "down_view (push_lwip b s) = down_view s"
  "down_view (connect_ip env ip prt s) = down_view s"
  "down_view (snd (connect_target env t s)) = down_view s"
  "down_view (detach_pcb_callbacks s) = down_view s"
  "down_view (abort_pcb p s) = down_view s"
  by (simp_all add: flush_to_lwip_def read_encrypted_stream_def push_lwip_def abort_pcb_def
      detach_pcb_callbacks_def Let_def split: option.splits)
    (simp_all add: down_view_def split: option.splits)

lemma down_view_process: "down_view (snd (process_decrypted_chunk env chunk s)) = down_view s"
proof -
  let ?s = "(use s)\<lparr>trace := ChunkIn chunk # trace s\<rparr>"
  have e: "down_view ?s = down_view s" by (simp add: down_view_def)
  have "connect_target env t (?s\<lparr>got_target := True\<rparr>) = (x, u) \<Longrightarrow> down_view u = down_view s" for t x u
    using down_view_simps(5) [of env t "?s\<lparr>got_target := True\<rparr>"] e by simp
  with e show ?thesis
    by (auto simp: process_decrypted_chunk_def Let_def split: sum.splits option.splits prod.splits)
qed

lemma decrypt_tcp_chunk_send_part:
  "decrypt_tcp_chunk c s v = Inr (Some (p, r, t)) \<Longrightarrow> send_part t = send_part s"
  by (auto simp: decrypt_tcp_chunk_eq send_part_def bind_result_conv split: if_splits option.splits)

lemma down_view_chunk_loop:
  assumes "chunk_loop env c view s = (x, v, t)"
  shows "down_view t = down_view s"
  by (rule chunk_loop_rule [where I = "\<lambda>_ u. down_view u = down_view s", OF _ _ _ assms])
    (metis down_view_process down_view_update(15) decrypt_tcp_chunk_send_part snd_conv | simp)+

lemma down_view_handle_client_eof [simp]: "down_view (handle_client_eof env s) = down_view s"
proof -
  have "down_view (s\<lparr>client_eof := True, trace := TcpShutdownTx p e # trace s\<rparr>) = down_view s" for p e
    by (simp add: down_view_def)
  then show ?thesis by (auto simp: handle_client_eof_def Let_def split: option.splits)
qed

lemma down_view_catch_close [simp]: "down_view (snd (catch_close env e s)) = down_view s"
  by (simp add: catch_close_def)

lemma down_view_on_salt_read: "down_view (snd (on_salt_read env c r s)) = down_view s"
  by (auto simp: on_salt_read_def set_client_salt_def bind_result_conv send_part_def split: option.splits sum.splits if_splits)

lemma down_view_on_stream_read: "down_view (snd (on_stream_read env c r s)) = down_view s"
proof (cases r)
  case (Inr bs)
  let ?s = "s\<lparr>encrypted_in := PacketBuffer_append (encrypted_in s) bs\<rparr>"
  obtain x v t where l: "chunk_loop env c (encrypted_in ?s) ?s = (x, v, t)" by (metis prod_cases3)
  with down_view_chunk_loop [OF l] Inr show ?thesis
    by (cases x) (simp_all add: on_stream_read_def Let_def)
qed (simp add: on_stream_read_def)

lemma down_view_handle_remote_fin: "down_view (snd (handle_remote_fin env s)) = down_view s"
proof -
  define u where u: "u = emit SockShutdownSend ((use s)\<lparr>remote_eof := True\<rparr>)"
  have "down_view u = down_view s" by (simp add: u down_view_def)
  then show ?thesis unfolding handle_remote_fin_def Let_def u [symmetric] by simp
qed

lemma down_view_handle:
  assumes "\<And>r. ev \<noteq> ClientWritten r" "\<And>bs. ev \<noteq> Recv (Some bs) ERR_OK"
  shows "down_view (snd (dispatch env c d ev s)) = down_view s"
proof (cases ev)
  case (Recv p e)
  with assms(2) show ?thesis
    by (cases "e = ERR_OK"; cases p) (auto simp: dispatch_def on_recv_def down_view_handle_remote_fin)
next
  case (Sent n)
  then show ?thesis by (simp add: dispatch_def maybe_resume_client_read_def Let_def)
next
  case (TcpErr e)
  let ?s = "use (s\<lparr>registered := tl (registered s), tpcb := None\<rparr>)"
  have "down_view (emit SockClose (emit SockShutdownBoth (?s\<lparr>closing := True\<rparr>))) = down_view s" "down_view ?s = down_view s"
    by (simp_all add: down_view_def)
  with TcpErr show ?thesis by (simp add: dispatch_def on_err_def close_client_only_def Let_def)
next
  case (Resolved e ip)
  then show ?thesis by (auto simp: dispatch_def on_resolved_def split: option.splits)
qed (use assms(1) in \<open>auto simp: dispatch_def down_view_on_salt_read down_view_on_stream_read on_connected_def\<close>)

section \<open>Closing is final\<close>

lemma closing_mono [simp]:
  "closing s \<Longrightarrow> closing (flush_to_lwip env s)"
  "closing (read_encrypted_stream s) = closing s"
  "closing (push_lwip b s) = closing s"
  "closing s \<Longrightarrow> closing (connect_ip env ip prt s)"
  "closing s \<Longrightarrow> closing (snd (connect_target env t s))"
  "closing (abort_pcb p s) = closing s"
  "closing (snd (leave r)) = closing (snd r)"
proof -
  show "closing (abort_pcb p s) = closing s"
    by (simp add: abort_pcb_def detach_pcb_callbacks_def split: option.splits)
  have "closing (flush_loop env p s)" if "closing s" for p s
    by (rule flush_loop_rule) (simp_all add: that)
  then show "closing s \<Longrightarrow> closing (flush_to_lwip env s)"
    by (simp add: flush_to_lwip_def Let_def split: option.splits)
  show c: "closing (connect_ip env ip prt s)" if "closing s" for ip prt
    using that by (simp add: connect_ip_def Let_def split: option.splits)
  show "closing s \<Longrightarrow> closing (snd (connect_target env t s))"
    by (simp add: connect_target_def resolve_domain_then_connect_def Let_def c split: option.splits sum.splits)
qed (simp_all add: read_encrypted_stream_def push_lwip_def leave_def Let_def)

lemma closing_process:
  assumes "closing s"
  shows "closing (snd (process_decrypted_chunk env chunk s))"
proof -
  have "closing u" if "connect_target env t ((use s)\<lparr>trace := tr, got_target := True\<rparr>) = (x, u)" for t tr x u
    using closing_mono(5) [of "(use s)\<lparr>trace := tr, got_target := True\<rparr>" env t] assms that by simp
  with assms show ?thesis
    by (auto simp: process_decrypted_chunk_def Let_def split: sum.splits option.splits prod.splits)
qed

lemma closing_chunk_loop:
  assumes "closing s" "chunk_loop env c view s = (x, v, t)"
  shows "closing t"
proof (rule chunk_loop_rule [where I = "\<lambda>_. closing", OF assms(1) _ _ assms(2)])
  show "closing t" if "closing s" "process_decrypted_chunk env chunk (s\<lparr>crypto := cr\<rparr>) = (x, t)" for s chunk cr x t
    using closing_process [of "s\<lparr>crypto := cr\<rparr>" env chunk] that by simp
qed

lemma closing_on_stream_read: "closing s \<Longrightarrow> closing (snd (on_stream_read env c r s))"
proof (cases r)
  case (Inr bs)
  assume "closing s"
  let ?s = "s\<lparr>encrypted_in := PacketBuffer_append (encrypted_in s) bs\<rparr>"
  obtain x v t where l: "chunk_loop env c (encrypted_in ?s) ?s = (x, v, t)" by (metis prod_cases3)
  with closing_chunk_loop [OF _ l] \<open>closing s\<close> Inr show ?thesis
    by (cases x) (simp_all add: on_stream_read_def Let_def catch_close_def)
qed (auto simp: on_stream_read_def handle_client_eof_def Let_def split: option.splits)

lemma closing_on_recv:
  assumes "closing s"
  shows "closing (snd (on_recv env c d p err s))"
proof (cases p)
  case None
  with assms show ?thesis by (simp add: on_recv_def handle_remote_fin_def Let_def)
next
  case (Some bs)
  obtain x t where e: "enqueue_client_payload c d bs (emit (Received bs) s) = (x, t)" by fastforce
  then have "closing t"
    using assms by (cases rule: enqueue_cases) (auto elim!: ensure_response_salt_cases)
  with e Some assms show ?thesis
    by (cases x) (auto simp: on_recv_def catch_close_def Let_def split: option.splits)
qed

lemma closing_handle: "closing s \<Longrightarrow> closing (snd (dispatch env c d ev s))"
proof (cases ev)
  case (SaltRead r)
  assume "closing s"
  with SaltRead show ?thesis
    by (auto simp: dispatch_def on_salt_read_def catch_close_def split: option.splits sum.splits)
next
  case (ClientWritten r)
  assume "closing s"
  with ClientWritten show ?thesis
    by (auto simp: dispatch_def on_client_written_def Let_def split: option.splits list.splits)
next
  case (Sent n)
  assume "closing s"
  with Sent show ?thesis by (auto simp: dispatch_def maybe_resume_client_read_def Let_def)
next
  case (Resolved e ip)
  assume "closing s"
  with Resolved show ?thesis by (auto simp: dispatch_def on_resolved_def split: option.splits)
qed (auto simp: dispatch_def closing_on_stream_read closing_on_recv on_connected_def on_err_def
    close_client_only_def Let_def)

section \<open>Upstream: from the client to the stack\<close>

text \<open>Packets queued for the stack are never empty and fit the 16-bit length of \<^verbatim>\<open>tcp_write\<close>.\<close>

definition packets_ok :: "TcpRelaySession \<Rightarrow> bool" where
  "packets_ok s \<longleftrightarrow> (\<forall>b\<in>set (pending_lwip s). b \<noteq> [] \<and> length b \<le> 0x3fff)"

definition upstream :: "TcpRelaySession \<Rightarrow> bool" where
  "upstream s \<longleftrightarrow> packets_ok s \<and>
     (\<not> closing s \<longrightarrow>
        (if got_target s then
           \<exists>k ks t rest. chunks_in (data s) = k # ks \<and> parse_ss_address k = Inr (Some t, rest) \<and>
             rest @ concat ks = written (data s) @ concat (pending_lwip s)
         else chunks_in (data s) = [] \<and> written (data s) = [] \<and> pending_lwip s = []))"

lemma packets_ok_cong: "pending_lwip t = pending_lwip s \<Longrightarrow> packets_ok t = packets_ok s"
  by (simp add: packets_ok_def)

lemma upstream_cong:
  assumes "pending_lwip t = pending_lwip s" "got_target t = got_target s" "closing s \<longrightarrow> closing t"
    "chunks_in (data t) = chunks_in (data s)" "written (data t) = written (data s)" "upstream s"
  shows "upstream t"
  using assms by (auto simp: upstream_def packets_ok_def)

lemma upstream_closed: "packets_ok s \<Longrightarrow> upstream (close env s)"
  by (simp add: upstream_def packets_ok_def)

lemma take_u16: "length b \<le> 0x3fff \<Longrightarrow> take (unat (word_of_nat (length b) :: u16)) b = b"
  by (simp add: unsigned_of_nat take_bit_nat_eq_self)

lemma flush_loop_upstream:
  assumes "packets_ok s"
  shows "packets_ok (flush_loop env p s) \<and>
     written (data (flush_loop env p s)) @ concat (pending_lwip (flush_loop env p s)) = written (data s) @ concat (pending_lwip s) \<and>
     chunks_in (data (flush_loop env p s)) = chunks_in (data s) \<and>
     (closing s \<longrightarrow> closing (flush_loop env p s))"
proof (rule flush_loop_rule [where I = "\<lambda>u. packets_ok u \<and>
     written (data u) @ concat (pending_lwip u) = written (data s) @ concat (pending_lwip s) \<and>
     chunks_in (data u) = chunks_in (data s) \<and> (closing s \<longrightarrow> closing u)"])
qed (use assms in \<open>auto simp: packets_ok_def take_u16\<close>)

end
