(* ===== verification/TcpRelayData.thy ===== *)
theory TcpRelayData
  imports TcpRelayStream
begin

text \<open>
  The data invariants of a TCP relay session and the properties that follow from them and
  from \<open>TcpRelayLife\<close>.
\<close>

section \<open>Upstream\<close>

lemma decrypt_tcp_chunk_size:
  assumes "mbedtls_buffers c" "decrypt_tcp_chunk c s v = Inr (Some (p, r, t))"
  shows "length p \<le> 0x3fff"
proof -
  from assms(2) obtain n :: u16 and nc tag nc' where
    "decrypt c (recv_key s) nc (take (unat (n AND 0x3fff)) (drop 18 v)) tag = Some (p, nc')"
    by (auto simp: decrypt_tcp_chunk_eq bind_result_conv split: if_splits option.splits)
  then have "auth_decrypt c (recv_key s) nc tag (take (unat (n AND 0x3fff)) (drop 18 v)) = Some p"
    by (auto simp: decrypt_def split: if_splits option.splits)
  with assms(1) have "length p = length (take (unat (n AND 0x3fff)) (drop 18 v))"
    unfolding mbedtls_buffers_def by blast
  with payload_len_bound [of n] show ?thesis by simp
qed

lemma parse_ss_address_rest:
  assumes "parse_ss_address k = Inr (Some t, rest)"
  shows "length rest \<le> length k"
proof -
  from assms obtain b k' where k: "k = b # k'"
    and h: "parse_ss_host (AddressType_of_byte b) k' = Inr (Some (host t), append_be16 [] (port t) @ rest)"
    by (rule parse_ss_address_SomeE)
  have "length (append_be16 [] (port t) @ rest) \<le> length k'"
    using h by (auto simp: parse_ss_host_eq split: AddressType.splits if_splits dest!: arg_cong [of _ _ length])
  with k show ?thesis by simp
qed

lemma packets_ok_upstream: "upstream s \<Longrightarrow> packets_ok s"
  by (simp add: upstream_def)

lemma packets_ok_empty: "packets_ok s \<Longrightarrow> \<forall>b\<in>set (pending_lwip s). b = [] \<Longrightarrow> pending_lwip s = []"
  by (cases "pending_lwip s") (auto simp: packets_ok_def)

lemma upstream_push:
  assumes "packets_ok s" "length b \<le> 0x3fff"
  shows "packets_ok (push_lwip b s)"
  using assms by (auto simp: packets_ok_def push_lwip_def)

lemma push_lwip_simps [simp]:
  "concat (pending_lwip (push_lwip b s)) = concat (pending_lwip s) @ b"
  "got_target (push_lwip b s) = got_target s"
  "data (push_lwip b s) = data s"
  by (simp_all add: push_lwip_def)

lemma upstream_process:
  assumes "upstream s" "length chunk \<le> 0x3fff" "process_decrypted_chunk env chunk s = (x, t)"
  shows "packets_ok t \<and> (x = None \<longrightarrow> upstream t)"
proof -
  let ?s = "emit (ChunkIn chunk) (use s)"
  have p: "packets_ok s" using assms(1) by (simp add: upstream_def)
  show ?thesis
  proof (cases "got_target s")
    case True
    with assms(3) have t: "x = None" "t = push_lwip chunk ?s"
      by (auto simp: process_decrypted_chunk_def Let_def)
    have "packets_ok t" unfolding t by (rule upstream_push [OF _ assms(2)]) (use p in \<open>simp add: packets_ok_def\<close>)
    moreover have "upstream t" using assms(1) True \<open>packets_ok t\<close> by (fastforce simp: upstream_def t)
    ultimately show ?thesis by simp
  next
    case False
    obtain r rest where r: "parse_ss_address chunk = Inr (r, rest)"
      using parse_ss_address_total by (metis prod.exhaust)
    show ?thesis
    proof (cases r)
      case None
      with False r assms(3) have "t = close env ?s" by (auto simp: process_decrypted_chunk_def Let_def)
      with p show ?thesis by (auto simp: upstream_def packets_ok_def)
    next
      case (Some tg)
      let ?g = "?s\<lparr>got_target := True\<rparr>"
      obtain y u where ct: "connect_target env tg ?g = (y, u)" by fastforce
      then have u: "pending_lwip u = pending_lwip s" "data u = ChunkIn chunk # data s" "got_target u"
        "closing s \<longrightarrow> closing u"
        using connect_target_frame(13,14) [of env tg ?g] connect_data(2) [of env tg ?g] closing_mono(5) [of ?g env tg]
        by auto
      have pu: "packets_ok u" using p u(1) by (simp add: packets_ok_def)
      show ?thesis
      proof (cases y)
        case None
        with False r Some ct assms(3) have t: "x = None" "t = push_lwip rest u"
          by (auto simp: process_decrypted_chunk_def Let_def)
        have "packets_ok t"
          unfolding t using parse_ss_address_rest r Some assms(2) by (intro upstream_push [OF pu]) fastforce
        moreover have "upstream t"
          using \<open>packets_ok t\<close> assms(1) False u r Some by (auto simp: upstream_def t)
        ultimately show ?thesis by simp
      next
        case (Some e)
        with False r \<open>r = Some tg\<close> ct assms(3) have "x = Some e" "t = u"
          by (auto simp: process_decrypted_chunk_def Let_def)
        with pu show ?thesis by simp
      qed
    qed
  qed
qed

lemma upstream_chunk_loop:
  assumes "mbedtls_buffers c" "upstream s" "chunk_loop env c view s = (x, v, t)"
  shows "packets_ok t \<and> (x = None \<longrightarrow> upstream t)"
proof (rule chunk_loop_rule [where I = "\<lambda>x u. packets_ok u \<and> (x = None \<longrightarrow> upstream u)", OF _ _ _ assms(3)])
  show "packets_ok s \<and> (None = None \<longrightarrow> upstream s)" using assms(2) packets_ok_upstream by blast
  show "packets_ok u \<and> (y = None \<longrightarrow> upstream u)"
    if "packets_ok s \<and> (None = None \<longrightarrow> upstream s)"
      "decrypt_tcp_chunk c (crypto s) view = Inr (Some (chunk, v1, cr))"
      "process_decrypted_chunk env chunk (s\<lparr>crypto := cr\<rparr>) = (y, u)" for s view chunk v1 cr y u
  proof (rule upstream_process [OF _ _ that(3)])
    show "upstream (s\<lparr>crypto := cr\<rparr>)" using that(1) by (auto intro: upstream_cong)
    show "length chunk \<le> 0x3fff" using assms(1) that(2) by (rule decrypt_tcp_chunk_size)
  qed
qed simp

lemma upstream_use [simp]: "upstream (use s) = upstream s"
  by (simp add: upstream_def packets_ok_def)

lemma upstream_flush_to_lwip: "upstream s \<Longrightarrow> upstream (flush_to_lwip env s)"
proof (cases "tpcb s")
  case (Some p)
  assume "upstream s"
  then have "upstream (use s)" by simp
  with flush_loop_upstream [of "use s" env p] Some show ?thesis
    by (auto simp: flush_to_lwip_def upstream_def dest: packets_ok_empty)
qed (simp add: flush_to_lwip_def)

lemma upstream_view: "upstream s \<Longrightarrow> up_view t = up_view s \<Longrightarrow> (closing s \<longrightarrow> closing t) \<Longrightarrow> upstream t"
  by (rule upstream_cong [of t s]) (auto simp: up_view_def)

lemma up_view_update [simp]:
  "up_view (s\<lparr>active_self := x1\<rparr>) = up_view s"
  "up_view (s\<lparr>tpcb := x2\<rparr>) = up_view s"
  "up_view (s\<lparr>client_eof := x3\<rparr>) = up_view s"
  "up_view (s\<lparr>remote_eof := x4\<rparr>) = up_view s"
  "up_view (s\<lparr>closing := x5\<rparr>) = up_view s"
  "up_view (s\<lparr>resolving := x6\<rparr>) = up_view s"
  "up_view (s\<lparr>handler_refs := x7\<rparr>) = up_view s"
  "up_view (s\<lparr>crypto := x8\<rparr>) = up_view s"
  "up_view (s\<lparr>deferred_tcp_recved := x9\<rparr>) = up_view s"
  "up_view (s\<lparr>writing_client := x10\<rparr>) = up_view s"
  "up_view (s\<lparr>pending_client := x11\<rparr>) = up_view s"
  "up_view (s\<lparr>client_queue_bytes := x12\<rparr>) = up_view s"
  "up_view (s\<lparr>sent_response_salt := x13\<rparr>) = up_view s"
  by (simp_all add: up_view_def)

lemma data_recved: "data (s\<lparr>trace := map (TcpRecved p) ns @ tr\<rparr>) = map (TcpRecved p) ns @ filter is_data tr"
proof -
  have "filter is_data (map (TcpRecved p) ns) = map (TcpRecved p) ns" by (induction ns) simp_all
  then show ?thesis by (simp add: data_def del: data_update)
qed

lemma up_view_simps [simp]:
  "up_view (detach_pcb_callbacks s) = up_view s"
  "up_view (abort_pcb p s) = up_view s"
  "up_view (connect_ip env ip prt s) = up_view s"
  "up_view (push_client b s) = up_view s"
  "up_view (flush_to_client s) = up_view s"
  "up_view (recved_loop p s) = up_view s"
proof -
  show d: "up_view (detach_pcb_callbacks s) = up_view s" for s
    by (simp add: detach_pcb_callbacks_def up_view_def split: option.splits)
  then show "up_view (abort_pcb p s) = up_view s"
    unfolding abort_pcb_def by simp (simp add: up_view_def detach_pcb_callbacks_def split: option.splits)
  show "up_view (push_client b s) = up_view s" by (simp add: push_client_def)
  show "up_view (flush_to_client s) = up_view s"
    by (simp add: flush_to_client_def up_view_def Let_def split: list.splits)
  obtain ns where r: "recved_loop p s = s\<lparr>deferred_tcp_recved := 0, trace := map (TcpRecved p) ns @ trace s\<rparr>"
    using recved_loop_form by blast
  have "data (recved_loop p s) = map (TcpRecved p) ns @ data s" by (simp add: r data_recved)
  moreover have "chunks_in (map (TcpRecved p) ns @ tr) = chunks_in tr" "written (map (TcpRecved p) ns @ tr) = written tr" for tr
    by (induction ns) simp_all
  ultimately show "up_view (recved_loop p s) = up_view s" by (simp add: up_view_def)
qed (simp add: up_view_def)

lemma up_view_handle_client_eof: "up_view (handle_client_eof env s) = up_view s"
proof -
  have "up_view (s\<lparr>client_eof := True, trace := TcpShutdownTx p e # trace s\<rparr>) = up_view s" for p e
    by (simp add: up_view_def)
  then show ?thesis by (auto simp: handle_client_eof_def Let_def split: option.splits)
qed

lemma closing_handle_client_eof: "closing s \<longrightarrow> closing (handle_client_eof env s)"
  by (auto simp: handle_client_eof_def Let_def split: option.splits)

lemma up_view_handle_remote_fin: "up_view (snd (handle_remote_fin env s)) = up_view s"
proof -
  define u where u: "u = emit SockShutdownSend ((use s)\<lparr>remote_eof := True\<rparr>)"
  have "up_view u = up_view s" by (simp add: u up_view_def)
  then show ?thesis unfolding handle_remote_fin_def Let_def u [symmetric] by simp
qed

lemma up_view_on_recv: "up_view (snd (on_recv env c d p err s)) = up_view s"
proof (cases "err = ERR_OK")
  case True
  show ?thesis
  proof (cases p)
    case None
    with True show ?thesis by (simp add: on_recv_def up_view_handle_remote_fin)
  next
    case (Some bs)
    obtain x t where e: "enqueue_client_payload c d bs (emit (Received bs) s) = (x, t)" by fastforce
    have r: "up_view (emit (Received bs) s) = up_view s" by (simp add: up_view_def)
    from e have "up_view t = up_view (emit (Received bs) s)"
      by (cases rule: enqueue_cases) (auto elim!: ensure_response_salt_cases simp del: emit_def)
    moreover have "up_view ((use t)\<lparr>trace := TcpRecved q n # trace t\<rparr>) = up_view t" for q n
      by (simp add: up_view_def)
    ultimately show ?thesis
      using e Some True r by (cases x) (auto simp: on_recv_def catch_close_def Let_def split: option.splits)
  qed
qed (simp add: on_recv_def)

lemma upstream_close: "upstream s \<Longrightarrow> upstream (close env s)"
  by (rule upstream_closed) (simp add: upstream_def)

lemma upstream_read [simp]: "upstream (read_encrypted_stream s) = upstream s"
  by (simp add: read_encrypted_stream_def upstream_def packets_ok_def Let_def)

lemma upstream_update [simp]:
  "upstream (s\<lparr>crypto := x1\<rparr>) = upstream s"
  "upstream (s\<lparr>encrypted_in := x2\<rparr>) = upstream s"
  "upstream (s\<lparr>client_read_paused := x3\<rparr>) = upstream s"
  "upstream (s\<lparr>salt_reads := x4\<rparr>) = upstream s"
  "upstream (s\<lparr>stream_reads := x5\<rparr>) = upstream s"
  "upstream (s\<lparr>handler_refs := x6\<rparr>) = upstream s"
  "upstream (s\<lparr>resolving := x7\<rparr>) = upstream s"
  by (simp_all add: upstream_def packets_ok_def)

lemma upstream_on_stream_read:
  assumes "mbedtls_buffers c" "upstream s"
  shows "fst (on_stream_read env c r s) = None \<Longrightarrow> upstream (snd (on_stream_read env c r s))"
proof (cases r)
  case (Inl ec)
  have p: "packets_ok s" using assms(2) by (rule packets_ok_upstream)
  have "upstream (handle_client_eof env s)"
  proof -
    have "up_view (handle_client_eof env s) = up_view s" "closing s \<longrightarrow> closing (handle_client_eof env s)"
      using up_view_handle_client_eof closing_handle_client_eof by blast+
    with assms(2) show ?thesis by (auto intro: upstream_view)
  qed
  with Inl assms(2) show ?thesis by (auto simp: on_stream_read_def upstream_close)
next
  case (Inr bs)
  assume none: "fst (on_stream_read env c r s) = None"
  let ?s = "s\<lparr>encrypted_in := PacketBuffer_append (encrypted_in s) bs\<rparr>"
  obtain x v t where l: "chunk_loop env c (encrypted_in ?s) ?s = (x, v, t)" by (metis prod_cases3)
  have "packets_ok t \<and> (x = None \<longrightarrow> upstream t)"
    using assms by (intro upstream_chunk_loop [OF _ _ l]) simp_all
  with none l Inr show ?thesis
    by (cases x) (auto simp: on_stream_read_def Let_def catch_close_def upstream_closed
        intro!: upstream_flush_to_lwip split: if_splits)
qed

lemma upstream_leave [simp]: "upstream (snd (leave r)) = upstream (snd r)"
  by (simp add: leave_def upstream_def packets_ok_def)

lemma upstream_handle:
  assumes "mbedtls_buffers c" "upstream s" "dispatch env c d ev s = (None, t)"
  shows "upstream t"
proof (cases ev)
  case (SaltRead r)
  have "upstream (snd (on_salt_read env c r u))" if "upstream u" for u
    using that by (auto simp: on_salt_read_def catch_close_def intro!: upstream_close split: option.splits sum.splits)
  with SaltRead assms(2,3) show ?thesis
    by (auto simp: dispatch_def dest!: arg_cong [of _ _ snd])
next
  case (StreamRead r)
  let ?s = "s\<lparr>stream_reads := stream_reads s - 1, handler_refs := handler_refs s + 1\<rparr>"
  have "leave (on_stream_read env c r ?s) = (None, t)" using StreamRead assms(3) by (simp add: dispatch_def)
  then have "fst (on_stream_read env c r ?s) = None" "t = snd (leave (on_stream_read env c r ?s))"
    by (simp_all add: leave_def)
  with upstream_on_stream_read [OF assms(1), of ?s env r] assms(2) show ?thesis by simp
next
  case (ClientWritten r)
  have "up_view (snd (on_client_written env r u)) = up_view u" for u
    by (auto simp: on_client_written_def Let_def split: option.splits list.splits)
  then have "up_view t = up_view s"
    using ClientWritten assms(3) by (auto simp: dispatch_def dest!: arg_cong [of _ _ snd])
  moreover have "closing s \<longrightarrow> closing t" using closing_handle assms(3) by (metis snd_conv)
  ultimately show ?thesis using upstream_view assms(2) by blast
next
  case (Connected e)
  with assms(2,3) show ?thesis
    by (auto simp: dispatch_def on_connected_def upstream_close upstream_flush_to_lwip split: if_splits)
next
  case (Recv p e)
  then have "up_view t = up_view s"
    using assms(3) up_view_on_recv [of env c d p e s] by (simp add: dispatch_def)
  moreover have "closing s \<longrightarrow> closing t" using closing_handle assms(3) by (metis snd_conv)
  ultimately show ?thesis using upstream_view assms(2) by blast
next
  case (Sent n)
  have "upstream (flush_to_lwip env ((use s)\<lparr>client_read_paused := False\<rparr>))"
    using assms(2) by (intro upstream_flush_to_lwip) simp
  with Sent assms(2,3) show ?thesis
    by (auto simp: dispatch_def maybe_resume_client_read_def Let_def split: if_splits)
next
  case (TcpErr e)
  let ?s = "use (s\<lparr>registered := tl (registered s), tpcb := None\<rparr>)"
  have "up_view (emit SockClose (emit SockShutdownBoth (?s\<lparr>closing := True\<rparr>))) = up_view s" "up_view ?s = up_view s"
    by (simp_all add: up_view_def)
  then have "up_view t = up_view s"
    using TcpErr assms(3) by (auto simp: dispatch_def on_err_def close_client_only_def Let_def split: if_splits)
  moreover have "closing s \<longrightarrow> closing t" using closing_handle assms(3) by (metis snd_conv)
  ultimately show ?thesis using upstream_view assms(2) by blast
next
  case (Resolved e ip)
  then have "up_view t = up_view s"
    using assms(3) by (auto simp: dispatch_def on_resolved_def dest!: arg_cong [of _ _ snd] split: option.splits if_splits)
  moreover have "closing s \<longrightarrow> closing t" using closing_handle assms(3) by (metis snd_conv)
  ultimately show ?thesis using upstream_view assms(2) by blast
qed

section \<open>Downstream\<close>

definition queue_ok :: "TcpRelaySession \<Rightarrow> bool" where
  "queue_ok s \<longleftrightarrow>
     client_queue_bytes s = word_of_nat (length (concat (pending_client s))) \<and>
     (writing_client s \<longrightarrow> pending_client s \<noteq> [] \<and> client_writes (data s) \<noteq> [] \<and>
        last (client_writes (data s)) = hd (pending_client s))"

definition window_ok :: "TcpRelaySession \<Rightarrow> bool" where
  "window_ok s \<longleftrightarrow>
     (\<not> closing s \<longrightarrow>
        word_of_nat (length (concat (payloads (data s)))) =
          (word_of_nat (recved_total (data s)) :: 64 word) + deferred_tcp_recved s)"

text \<open>Buffers whose write has completed, followed by those still queued.\<close>

definition client_stream :: "TcpRelaySession \<Rightarrow> bytes list" where
  "client_stream s =
     (if writing_client s then butlast (client_writes (data s)) else client_writes (data s)) @ pending_client s"

definition downstream :: "mbedtls \<Rightarrow> ShadowsocksAeadFactory \<Rightarrow> TcpRelaySession \<Rightarrow> bool" where
  "downstream c f s \<longleftrightarrow>
     master_key (crypto s) = factory_key f \<and>
     (\<not> closing s \<longrightarrow>
        (if sent_response_salt s then
           \<exists>d cr salt tx out tx'. master_key cr = factory_key f \<and> client_salt c d cr = Inr (salt, tx) \<and>
             length salt = SaltSize \<and> encrypt_all c (filter (\<lambda>p. p \<noteq> []) (payloads (data s))) tx = (Inr out, tx') \<and>
             send_part tx' = send_part (crypto s) \<and> concat (client_stream s) = salt @ out
         else (\<forall>p\<in>set (payloads (data s)). p = []) \<and> client_stream s = []))"

lemma client_stream_flush:
  "queue_ok s \<Longrightarrow> client_stream (flush_to_client s) = client_stream s"
  by (auto simp: client_stream_def flush_to_client_def Let_def split: list.splits)

lemma queue_ok_flush: "queue_ok s \<Longrightarrow> queue_ok (flush_to_client s)"
  by (auto simp: queue_ok_def flush_to_client_def Let_def split: list.splits)

lemma queue_ok_push: "queue_ok s \<Longrightarrow> queue_ok (push_client b s)"
  by (auto simp: queue_ok_def push_client_def)

lemma client_stream_push: "client_stream (push_client b s) = client_stream s @ [b]"
  by (simp add: client_stream_def push_client_def)

lemma view_invariants:
  assumes "down_view t = down_view s" "closing s \<longrightarrow> closing t"
  shows "queue_ok s \<Longrightarrow> queue_ok t" "window_ok s \<Longrightarrow> window_ok t" "downstream c f s \<Longrightarrow> downstream c f t"
  using assms by (auto simp: queue_ok_def window_ok_def downstream_def client_stream_def down_view_def send_part_def)

lemma last_write_client_writes: "last_write tr = (if client_writes tr = [] then None else Some (last (client_writes tr)))"
  by (induction tr rule: client_writes.induct) simp_all

lemma data_recved_loop:
  obtains ns where "data (recved_loop p s) = map (TcpRecved p) ns @ data s"
    and "sum_list (map unat ns) = unat (deferred_tcp_recved s)" and "deferred_tcp_recved (recved_loop p s) = 0"
proof -
  obtain ns where "recved_loop p s = s\<lparr>deferred_tcp_recved := 0, trace := map (TcpRecved p) ns @ trace s\<rparr>"
    "sum_list (map unat ns) = unat (deferred_tcp_recved s)"
    using recved_loop_form by blast
  then show thesis by (intro that [of ns]) (simp_all add: data_recved)
qed

lemma recved_actions [simp]:
  "payloads (map (TcpRecved p) ns @ tr) = payloads tr"
  "client_writes (map (TcpRecved p) ns @ tr) = client_writes tr"
  "recved_total (map (TcpRecved p) ns @ tr) = sum_list (map unat ns) + recved_total tr"
  by (induction ns) simp_all

lemma recved_loop_view:
  "payloads (data (recved_loop p s)) = payloads (data s)"
  "client_writes (data (recved_loop p s)) = client_writes (data s)"
  "(word_of_nat (recved_total (data (recved_loop p s))) :: 64 word) + deferred_tcp_recved (recved_loop p s) =
     word_of_nat (recved_total (data s)) + deferred_tcp_recved s"
  by (rule data_recved_loop [of p s], simp)+

lemma flush_to_client_view [simp]:
  "payloads (data (flush_to_client s)) = payloads (data s)"
  "recved_total (data (flush_to_client s)) = recved_total (data s)"
  by (simp_all add: flush_to_client_def Let_def split: list.splits)

text \<open>A completed write takes the front off the queue and moves it to the completed writes.\<close>

lemma on_client_written_done:
  assumes "queue_ok s" "writing_client s" "last_write (data s) = Some b" "on_client_written env (Some (length b)) s = (x, t)"
  shows "x = None \<and> queue_ok t \<and> (window_ok s \<longrightarrow> window_ok t) \<and> (downstream c f s \<longrightarrow> downstream c f t)"
proof -
  obtain rest where q: "pending_client s = b # rest" and w: "client_writes (data s) \<noteq> []" "last (client_writes (data s)) = b"
    using assms(1-3) by (cases "pending_client s") (auto simp: queue_ok_def last_write_client_writes split: if_splits)
  define s1 where s1: "s1 = (use s)\<lparr>writing_client := False,
     client_queue_bytes := client_queue_bytes s - word_of_nat (length b), pending_client := rest\<rparr>"
  define s2 where s2: "s2 = (case tpcb s1 of None \<Rightarrow> s1 | Some p \<Rightarrow>
      if client_queue_bytes s1 < ClientQueueLowWater \<and> deferred_tcp_recved s1 \<noteq> 0 then recved_loop p s1 else s1)"
  have r: "x = None" "t = flush_to_client s2"
    using assms(4) q by (auto simp: on_client_written_def Let_def s1 s2 split: option.splits)
  have q1: "queue_ok s1" using assms(1) q by (simp add: queue_ok_def s1)
  have c1: "client_stream s1 = client_stream s"
    using assms(2) q w by (simp add: client_stream_def s1) (metis append_butlast_last_id append.assoc append_Cons append_Nil)
  have two: "s2 = s1 \<or> (\<exists>p. s2 = recved_loop p s1)" by (auto simp: s2 split: option.splits)
  have v2: "queue_ok s2" "client_stream s2 = client_stream s1" "payloads (data s2) = payloads (data s1)"
    "(word_of_nat (recved_total (data s2)) :: 64 word) + deferred_tcp_recved s2 =
       word_of_nat (recved_total (data s1)) + deferred_tcp_recved s1"
    "closing s2 = closing s1" "crypto s2 = crypto s1" "sent_response_salt s2 = sent_response_salt s1"
    using two q1 by (auto simp: queue_ok_def client_stream_def recved_loop_view)
  have "queue_ok t" unfolding r using v2(1) by (rule queue_ok_flush)
  moreover have "window_ok s \<longrightarrow> window_ok t"
    using v2 by (simp add: r window_ok_def) (simp add: s1)
  moreover have "downstream c f s \<longrightarrow> downstream c f t"
    using v2 c1 client_stream_flush [OF v2(1)] by (simp add: r downstream_def) (simp add: s1)
  ultimately show ?thesis using r by simp
qed

lemma encrypt_tcp_chunk_send_part:
  assumes "send_part a = send_part b" "encrypt_tcp_chunk c p b = (Inr out, b')"
  shows "\<exists>a'. encrypt_tcp_chunk c p a = (Inr out, a') \<and> send_part a' = send_part b'"
  using assms
  by (auto simp: encrypt_tcp_chunk_def send_part_def Let_def split: if_splits sum.splits)

lemma encrypt_all_snoc:
  assumes "encrypt_all c ps s = (Inr out, t)" "encrypt_tcp_chunk c p t = (Inr out', u)"
  shows "encrypt_all c (ps @ [p]) s = (Inr (out @ out'), u)"
  using assms(1)
proof (induction ps arbitrary: s out)
  case (Cons q ps)
  then show ?case by (auto split: sum.splits prod.splits)
qed (use assms(2) in simp)

lemma encrypt_tcp_chunk_master: "encrypt_tcp_chunk c p s = (x, t) \<Longrightarrow> master_key t = master_key s"
  by (auto simp: encrypt_tcp_chunk_def Let_def split: if_splits sum.splits)

lemma client_salt_master: "client_salt c d s = Inr (salt, t) \<Longrightarrow> master_key t = master_key s"
  by (auto simp: client_salt_def bind_result_conv)

lemma ensure_view:
  assumes "ensure_response_salt c d s = Inr s1"
  shows "queue_ok s \<Longrightarrow> queue_ok s1" "payloads (data s1) = payloads (data s)" "recved_total (data s1) = recved_total (data s)"
    "deferred_tcp_recved s1 = deferred_tcp_recved s" "closing s1 = closing s" "sent_response_salt s1"
    "master_key (crypto s1) = master_key (crypto s)" "tpcb s1 = tpcb s"
  using assms
  by (cases rule: ensure_response_salt_cases;
      auto simp: queue_ok_def push_client_def client_salt_master)+

lemma enqueue_view:
  assumes "enqueue_client_payload c d bs s = (x, u)"
  shows "queue_ok s \<Longrightarrow> queue_ok u" "payloads (data u) = payloads (data s)" "recved_total (data u) = recved_total (data s)"
    "deferred_tcp_recved u = deferred_tcp_recved s" "closing u = closing s"
    "master_key (crypto u) = master_key (crypto s)" "tpcb u = tpcb s"
proof -
  have "(queue_ok s \<longrightarrow> queue_ok u) \<and> payloads (data u) = payloads (data s) \<and> recved_total (data u) = recved_total (data s) \<and>
    deferred_tcp_recved u = deferred_tcp_recved s \<and> closing u = closing s \<and>
    master_key (crypto u) = master_key (crypto s) \<and> tpcb u = tpcb s"
    using assms
  proof (cases rule: enqueue_cases)
    case (no_chunk e s1 cr)
    with ensure_view [OF no_chunk(2)] encrypt_tcp_chunk_master [OF no_chunk(3)] show ?thesis
      by (simp add: queue_ok_def)
  next
    case (queued out s1 cr)
    note v = ensure_view [OF queued(2)] and m = encrypt_tcp_chunk_master [OF queued(3)]
    have "queue_ok (push_client out (s1\<lparr>crypto := cr\<rparr>))" if "queue_ok s"
      using v(1) [OF that] by (intro queue_ok_push) (simp add: queue_ok_def)
    then have "queue_ok s \<longrightarrow> queue_ok u" by (simp add: queued(5) queue_ok_flush)
    with v m show ?thesis by (simp add: queued) (simp add: push_client_def)
  qed simp_all
  then show "queue_ok s \<Longrightarrow> queue_ok u" "payloads (data u) = payloads (data s)" "recved_total (data u) = recved_total (data s)"
    "deferred_tcp_recved u = deferred_tcp_recved s" "closing u = closing s"
    "master_key (crypto u) = master_key (crypto s)" "tpcb u = tpcb s" by simp_all
qed

lemma enqueue_downstream:
  assumes "enqueue_client_payload c d bs (emit (Received bs) s) = (None, u)" "queue_ok s" "downstream c f s" "drbg_fills d"
  shows "downstream c f u"
proof -
  let ?s = "emit (Received bs) s"
  have master: "master_key (crypto u) = factory_key f"
    using enqueue_view(6) [OF assms(1)] assms(3) by (simp add: downstream_def)
  show ?thesis
    using assms(1)
  proof (cases rule: enqueue_cases)
    case empty
    with assms(3) show ?thesis by (auto simp: downstream_def client_stream_def)
  next
    case (queued out s1 cr)
    let ?u = "push_client out (s1\<lparr>crypto := cr\<rparr>)"
    have ok: "queue_ok ?u"
      using ensure_view(1) [OF queued(2)] assms(2) by (intro queue_ok_push) (simp add: queue_ok_def)
    have st: "client_stream u = client_stream s1 @ [out]"
      unfolding queued(5) client_stream_flush [OF ok] by (simp add: client_stream_push) (simp add: client_stream_def)
    have fields: "sent_response_salt u" "crypto u = cr" "payloads (data u) = payloads (data s) @ [bs]" "closing u = closing s"
      using ensure_view(2,5,6) [OF queued(2)] by (simp_all add: queued) (simp_all add: push_client_def)
    have "\<exists>d cr0 salt tx out' tx'. master_key cr0 = factory_key f \<and> client_salt c d cr0 = Inr (salt, tx) \<and>
        length salt = SaltSize \<and> encrypt_all c (filter (\<lambda>p. p \<noteq> []) (payloads (data s) @ [bs])) tx = (Inr out', tx') \<and>
        send_part tx' = send_part cr \<and> concat (client_stream s1 @ [out]) = salt @ out'"
      if "\<not> closing s"
      using queued(2)
    proof (cases rule: ensure_response_salt_cases)
      case sent
      with that assms(3) obtain d0 cr0 salt tx out0 tx0 where e: "master_key cr0 = factory_key f"
        "client_salt c d0 cr0 = Inr (salt, tx)" "encrypt_all c (filter (\<lambda>p. p \<noteq> []) (payloads (data s))) tx = (Inr out0, tx0)"
        "send_part tx0 = send_part (crypto s)" "concat (client_stream s) = salt @ out0" "length salt = SaltSize"
        by (auto simp: downstream_def)
      have "encrypt_tcp_chunk c bs (crypto s) = (Inr out, cr)" using queued(3) sent by simp
      from encrypt_tcp_chunk_send_part [OF e(4) this] obtain tx1 where
        t: "encrypt_tcp_chunk c bs tx0 = (Inr out, tx1)" "send_part tx1 = send_part cr" by blast
      have "client_stream s1 = client_stream s" using sent by (simp add: client_stream_def)
      then have "concat (client_stream s1 @ [out]) = salt @ out0 @ out" using e(5) by simp
      moreover have "encrypt_all c (filter (\<lambda>p. p \<noteq> []) (payloads (data s) @ [bs])) tx = (Inr (out0 @ out), tx1)"
        using encrypt_all_snoc [OF e(3) t(1)] queued(1) by simp
      ultimately show ?thesis using e(1,2,6) t(2) by blast
    next
      case (fresh salt cr1)
      from that assms(3) fresh(1) have "filter (\<lambda>p. p \<noteq> []) (payloads (data s)) = []" "client_stream s = []"
        "master_key (crypto s) = factory_key f"
        by (auto simp: downstream_def filter_empty_conv)
      moreover have "concat (client_stream s1 @ [out]) = salt @ out"
        using fresh(3) \<open>client_stream s = []\<close> by (auto simp: client_stream_def push_client_def split: if_splits)
      moreover have "client_salt c d (crypto s) = Inr (salt, cr1)" "length salt = SaltSize"
        using fresh(2) client_salt_length [OF assms(4)] by simp_all
      moreover have "encrypt_all c [bs] cr1 = (Inr out, cr)" using queued(3) fresh(3) by simp
      ultimately show ?thesis
        using queued(1) by (auto intro!: exI [of _ d] exI [of _ "crypto s"])
    qed
    with master fields st show ?thesis by (simp add: downstream_def)
  qed simp_all
qed

lemma on_recv_payload:
  assumes "queue_ok s" "window_ok s" "downstream c f s" "tpcb s \<noteq> None" "length bs < 65536" and "drbg_fills d"
    and "on_recv env c d (Some bs) ERR_OK s = (None, t)"
  shows "queue_ok t \<and> window_ok t \<and> downstream c f t"
proof -
  let ?s = "emit (Received bs) s"
  obtain x u where e: "enqueue_client_payload c d bs ?s = (x, u)" by fastforce
  note v = enqueue_view [OF e]
  have q: "queue_ok u" using v(1) assms(1) by (simp add: queue_ok_def)
  show ?thesis
  proof (cases x)
    case (Some ex)
    with e assms(7) have "t = close env u"
      by (auto simp: on_recv_def catch_close_def split: if_splits)
    moreover have "master_key (crypto u) = factory_key f" using v(6) assms(3) by (simp add: downstream_def)
    ultimately show ?thesis using q by (simp add: queue_ok_def window_ok_def downstream_def)
  next
    case None
    obtain p where p: "tpcb u = Some p" using v(7) assms(4) by auto
    have d: "downstream c f u" using enqueue_downstream e None assms(1,3,6) by blast
    have w: "word_of_nat (length (concat (payloads (data u)))) =
        (word_of_nat (recved_total (data u)) :: 64 word) + deferred_tcp_recved u + word_of_nat (length bs)" if "\<not> closing u"
      using assms(2) that v(2-5) by (simp add: window_ok_def)
    have len: "unat (word_of_nat (length bs) :: u16) = length bs"
      using assms(5) by (simp add: unsigned_of_nat take_bit_nat_eq_self)
    from e None p assms(7) consider
      "t = (use u)\<lparr>deferred_tcp_recved := deferred_tcp_recved u + word_of_nat (length bs)\<rparr>"
      | "t = emit (TcpRecved p (word_of_nat (length bs))) (use u)"
      by (auto simp: on_recv_def Let_def split: if_splits)
    moreover have "downstream c f ((use u)\<lparr>deferred_tcp_recved := w\<rparr>) = downstream c f u"
      "downstream c f (emit (TcpRecved p n) (use u)) = downstream c f u" for w n
      by (simp_all add: downstream_def client_stream_def)
    moreover have "queue_ok ((use u)\<lparr>deferred_tcp_recved := w\<rparr>) = queue_ok u" "queue_ok (emit (TcpRecved p n) (use u)) = queue_ok u" for w n
      by (simp_all add: queue_ok_def)
    ultimately show ?thesis
      using q w d len by cases (simp_all add: window_ok_def algebra_simps)
  qed
qed

section \<open>All invariants together\<close>

definition session_inv :: "mbedtls \<Rightarrow> ShadowsocksAeadFactory \<Rightarrow> TcpRelaySession \<Rightarrow> bool" where
  "session_inv c f s \<longleftrightarrow> life 0 s \<and> \<not> used_after_free s \<and> upstream s \<and> queue_ok s \<and> window_ok s \<and> downstream c f s"

lemma queue_ok_irrelevant [simp]:
  "queue_ok (s\<lparr>handler_refs := h\<rparr>) = queue_ok s"
  "window_ok (s\<lparr>handler_refs := h\<rparr>) = window_ok s"
  "downstream c f (s\<lparr>handler_refs := h\<rparr>) = downstream c f s"
  by (simp_all add: queue_ok_def window_ok_def downstream_def client_stream_def)

lemma down_handle:
  assumes "queue_ok s" "window_ok s" "downstream c f s" "enabled ev s" "dispatch env c d ev s = (None, t)" "drbg_fills d"
    and "life 0 s"
  shows "queue_ok t \<and> window_ok t \<and> downstream c f t"
proof -
  have mono: "closing s \<longrightarrow> closing t" using closing_handle assms(5) by (metis snd_conv)
  consider r where "ev = ClientWritten r" | bs where "ev = Recv (Some bs) ERR_OK"
    | "\<And>r. ev \<noteq> ClientWritten r" "\<And>bs. ev \<noteq> Recv (Some bs) ERR_OK" by blast
  then show ?thesis
  proof cases
    case (1 r)
    let ?s = "s\<lparr>handler_refs := handler_refs s + 1\<rparr>"
    have t: "t = snd (leave (on_client_written env r ?s))" using 1 assms(5) by (simp add: dispatch_def)
    have leave: "queue_ok (snd (leave y)) = queue_ok (snd y)" "window_ok (snd (leave y)) = window_ok (snd y)"
      "downstream c f (snd (leave y)) = downstream c f (snd y)" for y
      by (simp_all add: leave_def queue_ok_def window_ok_def downstream_def client_stream_def)
    show ?thesis
    proof (cases r)
      case None
      have "queue_ok (close env ((use (s\<lparr>handler_refs := h\<rparr>))\<lparr>writing_client := False\<rparr>))"
        "master_key (crypto s) = factory_key f" for h
        using assms(1,3) by (simp_all add: queue_ok_def downstream_def)
      with None show ?thesis
        by (simp add: t leave on_client_written_def) (simp add: window_ok_def downstream_def)
    next
      case (Some n)
      then obtain b where b: "last_write (data s) = Some b" "n = length b" "writing_client s"
        using assms(4) 1 last_write_data [of "trace s"] by (auto simp: enabled_def)
      obtain x u where "on_client_written env (Some (length b)) ?s = (x, u)" by fastforce
      with on_client_written_done [of ?s b env x u c f] b assms(1-3) Some show ?thesis
        by (simp add: t leave)
    qed
  next
    case (2 bs)
    then have "on_recv env c d (Some bs) ERR_OK s = (None, t)" "tpcb s \<noteq> None" "length bs < 65536"
      using assms(4,5,7) by (auto simp: dispatch_def enabled_def life_def)
    with on_recv_payload [OF assms(1-3)] assms(6) show ?thesis by blast
  next
    case 3
    then have "down_view t = down_view s" using down_view_handle [of ev env c d s] assms(5) by simp
    from view_invariants [OF this mono] assms(1-3) show ?thesis by blast
  qed
qed

lemma session_inv_start: "session_inv c f (start (TcpRelaySession_new f))"
  by (simp add: session_inv_def start_def TcpRelaySession_new_def life_def owners_def upstream_def packets_ok_def
      queue_ok_def window_ok_def downstream_def client_stream_def make_session_def ShadowsocksAeadSession_new_def data_def)

lemma session_inv_step:
  assumes "mbedtls_buffers c" "session_inv c f s" "tcp_step env c s t"
  shows "session_inv c f t"
  using assms(3)
proof cases
  case (tcp_event ev d)
  then have d: "dispatch env c d ev s = (None, t)" "\<not> used_after_free t" by (simp_all add: handle_None)
  from assms(2) have inv: "life 0 s" "\<not> used_after_free s" "upstream s" "queue_ok s" "window_ok s" "downstream c f s"
    by (simp_all add: session_inv_def)
  from life_handle [OF inv(1) tcp_event(1) d(1) inv(2)] upstream_handle [OF assms(1) inv(3) d(1)]
    down_handle [OF inv(4-6) tcp_event(1) d(1) tcp_event(2) inv(1)] d(2)
  show ?thesis by (simp add: session_inv_def)
qed

interpretation tcp_session: invariant_system "tcp_init f" "tcp_step env c" "\<lambda>s. mbedtls_buffers c \<longrightarrow> session_inv c f s"
  for f env c
proof
  show "mbedtls_buffers c \<longrightarrow> session_inv c f s" if "tcp_init f s" for s
    using that session_inv_start by (simp add: tcp_init_def)
  show "mbedtls_buffers c \<longrightarrow> session_inv c f t"
    if "mbedtls_buffers c \<longrightarrow> session_inv c f s" "tcp_step env c s t" for s t
    using that session_inv_step by blast
qed

lemma reachable_session_inv: "mbedtls_buffers c \<Longrightarrow> tcp_reachable env c f s \<Longrightarrow> session_inv c f s"
  using tcp_session.reachable_invariant by blast

section \<open>Where undefined behaviour can come from\<close>

lemma decrypt_tcp_chunk_no_ub:
  assumes "mbedtls_buffers c" "decrypt_tcp_chunk c s v = Inl e"
  shows "\<not> is_ub e"
proof -
  from assms(2) have "e = OutOfBounds \<or> (\<exists>m. e = RuntimeError m)"
    by (auto simp: decrypt_tcp_chunk_eq bind_result_conv read_be16_def span_at_def split: if_splits option.splits)
  moreover have "e \<noteq> OutOfBounds" using decrypt_tcp_chunk_in_bounds [OF assms(1)] assms(2) by auto
  ultimately show ?thesis by auto
qed

lemma crypto_no_ub:
  "client_salt c d s = Inl e \<Longrightarrow> \<not> is_ub e"
  "encrypt_tcp_chunk c p s = (Inl e, t) \<Longrightarrow> \<not> is_ub e"
  "set_client_salt c salt s = Inl e \<Longrightarrow> \<not> is_ub e"
  by (auto simp: client_salt_def random_bytes_def Csprng_new_def Csprng_fill_def derive_subkey_def
      encrypt_tcp_chunk_def crypt_def set_client_salt_def Let_def bind_result_conv split: if_splits option.splits sum.splits)

lemma process_no_ub:
  "process_decrypted_chunk env chunk s = (Some e, t) \<Longrightarrow> \<not> is_ub e"
  using parse_ss_address_total [of chunk]
  by (auto simp: process_decrypted_chunk_def connect_target_def resolve_domain_then_connect_def parse_lwip_ip_def
      Let_def split: if_splits sum.splits option.splits prod.splits)

lemma chunk_loop_no_ub:
  assumes "mbedtls_buffers c" "chunk_loop env c view s = (Some e, v, t)"
  shows "\<not> is_ub e"
proof -
  have "case Some e of None \<Rightarrow> True | Some e \<Rightarrow> \<not> is_ub e"
    by (rule chunk_loop_rule [where I = "\<lambda>x u. case x of None \<Rightarrow> True | Some e \<Rightarrow> \<not> is_ub e", OF _ _ _ assms(2)])
      (use process_no_ub decrypt_tcp_chunk_no_ub [OF assms(1)] in \<open>auto split: option.splits\<close>)
  then show ?thesis by simp
qed

lemma enqueue_no_ub:
  assumes "enqueue_client_payload c d bs s = (Some e, t)"
  shows "\<not> is_ub e"
  using assms
proof (cases rule: enqueue_cases)
  case (no_salt e')
  then show ?thesis by (auto simp: ensure_response_salt_def bind_result_conv crypto_no_ub split: if_splits)
qed (auto simp: crypto_no_ub)

lemma dispatch_ub:
  assumes "mbedtls_buffers c" "queue_ok s" "enabled ev s" "dispatch env c d ev s = (Some e, t)"
  shows "e = UseAfterFree \<and> (ev = Recv None ERR_OK \<or> (\<exists>n. ev = Sent n))"
proof (cases ev)
  case (SaltRead r)
  with assms(4) crypto_no_ub(3) show ?thesis
    by (auto simp: dispatch_def leave_def on_salt_read_def catch_close_def split: option.splits sum.splits if_splits)
next
  case (StreamRead r)
  let ?s = "s\<lparr>stream_reads := stream_reads s - 1, handler_refs := handler_refs s + 1\<rparr>"
  have x: "fst (on_stream_read env c r ?s) = Some e"
    using StreamRead assms(4) by (auto simp: dispatch_def leave_def)
  show ?thesis
  proof (cases r)
    case (Inr bs)
    let ?u = "?s\<lparr>encrypted_in := PacketBuffer_append (encrypted_in ?s) bs\<rparr>"
    obtain y v u where l: "chunk_loop env c (encrypted_in ?u) ?u = (y, v, u)" by (metis prod_cases3)
    with x Inr chunk_loop_no_ub [OF assms(1)] show ?thesis
      by (cases y) (auto simp: on_stream_read_def Let_def catch_close_def split: if_splits)
  qed (use x in \<open>simp add: on_stream_read_def\<close>)
next
  case (ClientWritten r)
  with assms(2-4) show ?thesis
    by (auto simp: dispatch_def leave_def on_client_written_def enabled_def queue_ok_def Let_def
        split: option.splits list.splits)
next
  case (Recv p er)
  then have r: "on_recv env c d p er s = (Some e, t)" using assms(4) by (simp add: dispatch_def)
  show ?thesis
  proof (cases p)
    case None
    with r Recv show ?thesis
      by (auto simp: on_recv_def handle_remote_fin_def Let_def split: if_splits)
  next
    case (Some bs)
    obtain x u where q: "enqueue_client_payload c d bs (emit (Received bs) s) = (x, u)" by fastforce
    show ?thesis
    proof (cases x)
      case None
      with q r Some show ?thesis by (simp add: on_recv_def split: if_splits)
    next
      case (Some e')
      with enqueue_no_ub q have "\<not> is_ub e'" by blast
      with q r Some \<open>p = Some bs\<close> show ?thesis by (simp add: on_recv_def catch_close_def split: if_splits)
    qed
  qed
next
  case (Sent n)
  with assms(4) show ?thesis
    by (auto simp: dispatch_def maybe_resume_client_read_def Let_def split: if_splits)
next
  case (Resolved er ip)
  with assms(4) show ?thesis by (auto simp: dispatch_def leave_def split: option.splits if_splits)
qed (use assms(4) in \<open>auto simp: dispatch_def on_connected_def split: if_splits\<close>)

section \<open>Where a destroyed session can be used\<close>

lemma flush_loop_used: "\<not> destroyed s \<Longrightarrow> used_after_free (flush_loop env p s) = used_after_free s"
proof (induction "length (pending_lwip s)" arbitrary: s)
  case 0
  then show ?case by (simp add: flush_loop.simps [of env p s])
next
  case (Suc n)
  then obtain pkt rest where q: "pending_lwip s = pkt # rest" by (cases "pending_lwip s") auto
  let ?w = "(emit (TcpWrite p (take (unat (word_of_nat (length pkt) :: u16)) pkt) ERR_OK) s)\<lparr>pending_lwip := rest\<rparr>"
  have "used_after_free (flush_loop env p ?w) = used_after_free ?w" by (rule Suc.hyps(1)) (use Suc q in simp_all)
  with Suc.prems show ?case by (subst flush_loop.simps) (simp add: q Let_def close_used)
qed

lemma alive_used:
  assumes "\<not> destroyed s"
  shows "used_after_free (flush_to_lwip env s) = used_after_free s"
    "used_after_free (read_encrypted_stream s) = used_after_free s"
    "used_after_free (flush_to_client s) = used_after_free s"
    "used_after_free (snd (catch_close env e s)) = used_after_free s"
  using assms by (simp_all add: flush_to_lwip_def read_encrypted_stream_def flush_to_client_def catch_close_def use_alive
      flush_loop_used close_used Let_def split: option.splits list.splits)

lemma enqueue_used:
  assumes "enqueue_client_payload c d bs s = (x, t)" "\<not> destroyed s"
  shows "used_after_free t = used_after_free s \<and> \<not> destroyed t"
proof -
  have e: "used_after_free s1 = used_after_free s \<and> \<not> destroyed s1" if "ensure_response_salt c d s = Inr s1" for s1
    using that assms(2) by (cases rule: ensure_response_salt_cases) (simp_all add: push_client_def)
  show ?thesis
    using assms(1)
  proof (cases rule: enqueue_cases)
    case (queued out s1 cr)
    with e [OF queued(2)] show ?thesis by (simp add: alive_used) (simp add: push_client_def)
  qed (use e assms(2) in simp_all)
qed

lemma leave_used:
  assumes "life (Suc 0) (snd r)" "leave r = (x, t)"
  shows "\<not> used_after_free t"
proof -
  have "t = drop_owner ((snd r)\<lparr>handler_refs := handler_refs (snd r) - 1\<rparr>)" using assms(2) by (simp add: leave_def)
  with assms(1) show ?thesis by (simp add: life_def)
qed

text \<open>A handler that holds a pointer cannot use a destroyed session; of the callbacks of the stack only two can.\<close>

lemma dispatch_used:
  assumes "life 0 s" "\<not> used_after_free s" "enabled ev s" "dispatch env c d ev s = (None, t)" "used_after_free t"
  shows "ev = Recv None ERR_OK \<or> (\<exists>n. ev = Sent n)"
proof -
  have alive: "\<not> destroyed s" if "registered s \<noteq> []"
    using that assms(1) by (auto simp: life_def owners_def)
  show ?thesis
  proof (cases ev)
    case (SaltRead r)
    let ?s = "s\<lparr>salt_reads := salt_reads s - 1, handler_refs := handler_refs s + 1\<rparr>"
    have "life (Suc 0) ?s" using assms(1-3) SaltRead by (auto simp: life_def owners_def enabled_def)
    from leave_used [OF life_on_salt_read [OF this]] SaltRead assms(4,5) show ?thesis by (auto simp: dispatch_def)
  next
    case (StreamRead r)
    let ?s = "s\<lparr>stream_reads := stream_reads s - 1, handler_refs := handler_refs s + 1\<rparr>"
    have "life (Suc 0) ?s" using assms(1-3) StreamRead by (auto simp: life_def owners_def enabled_def)
    from leave_used [OF life_on_stream_read [OF this]] StreamRead assms(4,5) show ?thesis by (auto simp: dispatch_def)
  next
    case (ClientWritten r)
    let ?s = "s\<lparr>handler_refs := handler_refs s + 1\<rparr>"
    have "life (Suc 0) ?s" using assms(1-3) ClientWritten by (auto simp: life_def owners_def enabled_def)
    from leave_used [OF life_on_client_written [OF this]] ClientWritten assms(4,5) show ?thesis by (auto simp: dispatch_def)
  next
    case (Connected e)
    with assms(2-5) alive show ?thesis
      by (auto simp: dispatch_def on_connected_def enabled_def close_used alive_used split: if_splits)
  next
    case (Recv p e)
    with alive assms(3) have a: "\<not> destroyed s" by (simp add: enabled_def)
    show ?thesis
    proof (cases "e = ERR_OK")
      case True
      show ?thesis
      proof (cases p)
        case (Some bs)
        obtain x u where q: "enqueue_client_payload c d bs (emit (Received bs) s) = (x, u)" by fastforce
        from enqueue_used [OF q] a assms(2) have "\<not> used_after_free u" "\<not> destroyed u" by simp_all
        with Recv True Some q assms(4,5) show ?thesis
          by (cases x) (auto simp: dispatch_def on_recv_def use_alive catch_close_def close_used Let_def split: if_splits option.splits)
      qed (use Recv True in simp)
    qed (use Recv a assms(2,4,5) in \<open>auto simp: dispatch_def on_recv_def close_used\<close>)
  next
    case (TcpErr e)
    with alive assms(3) have "\<not> destroyed s" by (simp add: enabled_def)
    with TcpErr assms(2,4,5) show ?thesis
      by (auto simp: dispatch_def on_err_def close_client_only_def use_alive Let_def split: if_splits)
  next
    case (Resolved e ip)
    then obtain prt where prt: "resolving s = Some prt" using assms(3) by (auto simp: enabled_def)
    show ?thesis
    proof (cases "destroyed s")
      case True
      with Resolved prt assms(2,4,5) show ?thesis by (auto simp: dispatch_def)
    next
      case False
      let ?s = "s\<lparr>resolving := None, handler_refs := handler_refs s + 1\<rparr>"
      have l: "life (Suc 0) ?s" using assms(1,2) False by (auto simp: life_def owners_def)
      have "got_target s" "tpcb s = None" using assms(1) prt by (auto simp: life_def)
      then have "life (Suc 0) (on_resolved env e ip prt ?s)"
        using l by (auto simp: on_resolved_def intro!: life_close life_connect_ip split: option.splits)
      with leave_used [of "(None, on_resolved env e ip prt ?s)"] Resolved prt False assms(4,5) show ?thesis
        by (simp add: dispatch_def)
    qed
  qed simp
qed

lemma handle_ub:
  assumes "mbedtls_buffers c" "session_inv c f s" "enabled ev s" "handle env c d ev s = (Some e, t)"
  shows "e = UseAfterFree \<and> (ev = Recv None ERR_OK \<or> (\<exists>n. ev = Sent n))"
  using assms dispatch_ub [OF assms(1) _ assms(3)] dispatch_used [OF _ _ assms(3)]
  unfolding handle_Some session_inv_def by blast

end
