(* ===== verification/ExampleCipher.thy ===== *)
theory ExampleCipher
  imports ShadowsocksAead
begin

text \<open>
  A cipher that does nothing and a generator of zeros. They have the laws that are asked of
  mbedTLS and make runs of the relay sessions cheap to evaluate.
\<close>

definition plain_mbedtls :: mbedtls where
  "plain_mbedtls =
     \<lparr>md5 = (\<lambda>m. replicate 16 0), hkdf_sha1 = (\<lambda>salt ikm info n. Some (replicate n 0)),
      chachapoly_setkey = (\<lambda>k. True), encrypt_and_tag = (\<lambda>k n m. Some (m, replicate 16 0)),
      auth_decrypt = (\<lambda>k n tag ct. Some ct)\<rparr>"

definition zero_drbg :: drbg where
  "zero_drbg = \<lparr>drbg_seed = True, drbg_random = (\<lambda>n. Some (replicate n 0))\<rparr>"

lemma plain_laws:
  "mbedtls_buffers plain_mbedtls" "aead_laws plain_mbedtls" "drbg_fills zero_drbg"
  "hkdf_total plain_mbedtls" "drbg_laws zero_drbg"
  by (simp_all add: mbedtls_buffers_def aead_laws_def drbg_fills_def hkdf_total_def drbg_laws_def
      plain_mbedtls_def zero_drbg_def)

definition example_factory :: ShadowsocksAeadFactory where
  "example_factory = ShadowsocksAeadFactory_new plain_mbedtls ''pw''"

definition example_salt :: bytes where
  "example_salt = replicate 32 0"

end
