(* ===== verification/TcpRelayProperties.thy ===== *)
theory TcpRelayProperties
  imports TcpRelayData ExampleCipher "HOL-Library.Code_Target_Nat"
begin

text \<open>The properties of TCP relay sessions, with runs of the model as witnesses.\<close>

section \<open>Example runs\<close>

text \<open>A client that shares the password: the chunks it sends after its salt.\<close>

definition example_client :: ShadowsocksAeadSession where
  "example_client =
     (case set_client_salt plain_mbedtls example_salt (make_session example_factory) of
        Inr s \<Rightarrow> s\<lparr>send_key := recv_key s, sent_salt := True\<rparr>
      | Inl e \<Rightarrow> make_session example_factory)"

definition example_stream :: "bytes list \<Rightarrow> bytes" where
  "example_stream ps = (case encrypt_all plain_mbedtls ps example_client of (Inr out, _) \<Rightarrow> out | (Inl e, _) \<Rightarrow> [])"

text \<open>A stack that accepts everything.\<close>

definition example_env :: lwip_env where
  "example_env =
     \<lparr>env_new = (\<lambda>tr. Some 1), env_connect = (\<lambda>tr. ERR_OK), env_write = (\<lambda>tr. ERR_OK),
      env_sndbuf = (\<lambda>tr. TCP_SND_BUF), env_sndqueuelen = (\<lambda>tr. 0), env_state = (\<lambda>tr. ESTABLISHED),
      env_shutdown = (\<lambda>tr. ERR_OK), env_close = (\<lambda>tr. ERR_OK), env_resolve = (\<lambda>tr. None)\<rparr>"

definition example_run :: "lwip_env \<Rightarrow> tcp_event list \<Rightarrow> TcpRelaySession option" where
  "example_run env evs = run_events env plain_mbedtls zero_drbg evs (start (TcpRelaySession_new example_factory))"

lemma example_run_reachable:
  "example_run env evs = Some s \<Longrightarrow> tcp_reachable env plain_mbedtls example_factory s"
  unfolding example_run_def by (rule run_events_reachable [OF _ plain_laws(3) start_reachable])

definition holds_after :: "lwip_env \<Rightarrow> tcp_event list \<Rightarrow> (TcpRelaySession \<Rightarrow> bool) \<Rightarrow> bool" where
  "holds_after env evs P = (case example_run env evs of None \<Rightarrow> False | Some s \<Rightarrow> P s)"

lemma holds_afterE:
  assumes "holds_after env evs P"
  obtains s where "tcp_reachable env plain_mbedtls example_factory s" and "P s"
  using assms example_run_reachable by (auto simp: holds_after_def split: option.splits)

text \<open>The target is the host \<^verbatim>\<open>a\<close> and port 80, with three bytes of payload; two bytes come back.\<close>

definition example_connect :: "tcp_event list" where
  "example_connect =
     [SaltRead (Some example_salt), StreamRead (Inr (example_stream [[3, 1, 97, 0, 80, 7, 8, 9]])),
      Resolved ERR_OK (Some (IP_V4 1)), Connected ERR_OK]"

definition example_exchange :: "tcp_event list" where
  "example_exchange = example_connect @ [Recv (Some [5, 6]) ERR_OK]"

lemma example_exchange_run:
  "holds_after example_env example_exchange (\<lambda>s. \<not> closing s \<and> got_target s \<and> sent_response_salt s \<and>
     tpcb s = Some 1 \<and> registered s = [1] \<and> written (trace s) = [7, 8, 9] \<and> payloads (trace s) = [[5, 6]] \<and> pending_lwip s = [])"
  by code_simp

section \<open>Properties\<close>

text \<open>
  (C2) Bytes from the client reach the stack complete, in order and once: while a session
  that knows its target is not closing, the payload of the chunks it decrypted (the first
  one without its address header) is what \<^verbatim>\<open>tcp_write\<close> accepted followed by what is
  still queued.
\<close>

theorem tcp_upstream_integrity:
  assumes "mbedtls_buffers c" "tcp_reachable env c f s" "\<not> closing s" "got_target s"
  shows "\<exists>k ks t rest. chunks_in (trace s) = k # ks \<and> parse_ss_address k = Inr (Some t, rest) \<and>
    rest @ concat ks = written (trace s) @ concat (pending_lwip s)"
  using reachable_session_inv [OF assms(1,2)] assms(3,4) filter_data [of "trace s"]
  by (auto simp: session_inv_def upstream_def)

theorem tcp_upstream_integrity_witness:
  "\<exists>s k ks t rest. tcp_reachable example_env plain_mbedtls example_factory s \<and> chunks_in (trace s) = k # ks \<and>
     parse_ss_address k = Inr (Some t, rest) \<and> rest @ concat ks = [7, 8, 9]"
proof -
  obtain s where reach: "tcp_reachable example_env plain_mbedtls example_factory s"
    and r: "\<not> closing s" "got_target s" "written (trace s) = [7, 8, 9]" "pending_lwip s = []"
    using example_exchange_run by (rule holds_afterE) blast
  from tcp_upstream_integrity [OF plain_laws(1) reach r(1,2)] r(3,4) reach show ?thesis by fastforce
qed

text \<open>
  (C3) Bytes from the stack reach the client encrypted, complete, in order and once. While a
  session is not closing: before the first payload nothing has been written or queued for the
  client, and from then on the buffers written to the client and those still queued are a salt and
  a stream that a client with the same password decrypts to exactly the non-empty payloads the
  stack delivered.
\<close>

theorem tcp_downstream_integrity:
  assumes "mbedtls_buffers c" "aead_laws c" "tcp_reachable env c f s" "\<not> closing s"
  shows "if sent_response_salt s then
      \<exists>salt out rx rx'. concat (client_stream s) = salt @ out \<and>
        set_client_salt c salt (make_session f) = Inr rx \<and>
        decrypt_all c rx out = (filter (\<lambda>p. p \<noteq> []) (payloads (trace s)), None, [], rx')
    else filter (\<lambda>p. p \<noteq> []) (payloads (trace s)) = [] \<and> client_stream s = []"
proof (cases "sent_response_salt s")
  case True
  from reachable_session_inv [OF assms(1,3)] assms(4) True filter_data(3) [of "trace s"] obtain d cr salt tx out tx' where
    s: "master_key cr = factory_key f" "client_salt c d cr = Inr (salt, tx)" "length salt = SaltSize"
      "encrypt_all c (filter (\<lambda>p. p \<noteq> []) (payloads (trace s))) tx = (Inr out, tx')"
      "concat (client_stream s) = salt @ out"
    by (auto simp: session_inv_def downstream_def)
  have "master_key (make_session f) = master_key cr"
    using s(1) by (simp add: make_session_def ShadowsocksAeadSession_new_def)
  from client_salt_sync [OF assms(1) s(2,3) this] obtain rx where
    rx: "set_client_salt c salt (make_session f) = Inr rx" "in_sync tx rx" by blast
  from encrypt_all_sync [OF assms(1,2) rx(2) encrypt_all_bound [OF s(4)]] s(4) rx(1) s(5) True show ?thesis by auto
next
  case False
  with reachable_session_inv [OF assms(1,3)] assms(4) filter_data(3) [of "trace s"] show ?thesis
    by (simp add: session_inv_def downstream_def)
qed

theorem tcp_downstream_integrity_witness:
  "\<exists>s salt out rx rx'. tcp_reachable example_env plain_mbedtls example_factory s \<and> concat (client_stream s) = salt @ out \<and>
    set_client_salt plain_mbedtls salt (make_session example_factory) = Inr rx \<and>
    decrypt_all plain_mbedtls rx out = ([[5, 6]], None, [], rx')"
proof -
  obtain s where reach: "tcp_reachable example_env plain_mbedtls example_factory s"
    and r: "\<not> closing s" "sent_response_salt s" "payloads (trace s) = [[5, 6]]"
    using example_exchange_run by (rule holds_afterE) blast
  obtain salt out rx rx' where "concat (client_stream s) = salt @ out"
    "set_client_salt plain_mbedtls salt (make_session example_factory) = Inr rx"
    "decrypt_all plain_mbedtls rx out = (filter (\<lambda>p. p \<noteq> []) (payloads (trace s)), None, [], rx')"
    using tcp_downstream_integrity [OF plain_laws(1,2) reach r(1)] r(2) by auto
  moreover have "filter (\<lambda>p. p \<noteq> []) (payloads (trace s)) = [[5, 6]]" using r(3) by simp
  ultimately show ?thesis using reach by metis
qed

text \<open>
  (C39) The counter of queued bytes is the size of the queue towards the client (modulo the
  width of \<^verbatim>\<open>size_t\<close>), and a write in flight always is the front of a queue that is
  not empty, so the completion handler never pops an empty queue.
\<close>

theorem tcp_client_queue_exact:
  assumes "mbedtls_buffers c" "tcp_reachable env c f s"
  shows "client_queue_bytes s = word_of_nat (length (concat (pending_client s))) \<and>
    (writing_client s \<longrightarrow> pending_client s \<noteq> [] \<and> last_write (trace s) = Some (hd (pending_client s)))"
  using reachable_session_inv [OF assms] last_write_data [of "trace s"]
  by (auto simp: session_inv_def queue_ok_def last_write_client_writes)

theorem tcp_client_queue_exact_witness:
  "\<exists>s. tcp_reachable example_env plain_mbedtls example_factory s \<and> sent_response_salt s \<and>
     client_queue_bytes s = word_of_nat (length (concat (pending_client s)))"
proof -
  obtain s where reach: "tcp_reachable example_env plain_mbedtls example_factory s" and r: "sent_response_salt s"
    using example_exchange_run by (rule holds_afterE) blast
  from tcp_client_queue_exact [OF plain_laws(1) reach] reach r show ?thesis by blast
qed

text \<open>
  (C17) Flow control loses nothing: while a session is not closing, the bytes the stack
  delivered are the bytes given back to its receive window with \<^verbatim>\<open>tcp_recved\<close> plus
  the bytes whose acknowledgement is deferred (as 64-bit numbers).
\<close>

theorem tcp_window_exact:
  assumes "mbedtls_buffers c" "tcp_reachable env c f s" "\<not> closing s"
  shows "word_of_nat (length (concat (payloads (trace s)))) =
    (word_of_nat (recved_total (trace s)) :: 64 word) + deferred_tcp_recved s"
  using reachable_session_inv [OF assms(1,2)] assms(3) filter_data [of "trace s"]
  by (simp add: session_inv_def window_ok_def)

theorem tcp_window_exact_witness:
  "\<exists>s. tcp_reachable example_env plain_mbedtls example_factory s \<and> payloads (trace s) = [[5, 6]] \<and>
     (2 :: 64 word) = word_of_nat (recved_total (trace s)) + deferred_tcp_recved s"
proof -
  obtain s where reach: "tcp_reachable example_env plain_mbedtls example_factory s"
    and r: "\<not> closing s" "payloads (trace s) = [[5, 6]]"
    using example_exchange_run by (rule holds_afterE) blast
  have "word_of_nat (length (concat (payloads (trace s)))) = (2 :: 64 word)" unfolding r(2) by simp
  with tcp_window_exact [OF plain_laws(1) reach r(1)] reach r(2) show ?thesis by auto
qed

text \<open>
  (C5) No completion and no callback of the stack is ever delivered to a session that has been
  destroyed. The stack calls back for every control block whose callbacks were set and not cleared;
  in every reachable state that is exactly the block the session holds, and while there is one the
  session owns itself. Only the answer to a name lookup may come later, and the code holds a weak
  pointer for it.
\<close>

theorem tcp_events_find_session:
  assumes "tcp_reachable env c f s" "enabled ev s" "\<forall>e ip. ev \<noteq> Resolved e ip"
  shows "\<not> destroyed s \<and> registered s = pcb_list (tpcb s) \<and> (registered s \<noteq> [] \<longrightarrow> active_self s)"
proof -
  have l: "life 0 s" using tcp_life.reachable_invariant [OF assms(1)] by blast
  then have "\<not> destroyed s"
    using assms(2,3) by (cases ev) (auto simp: life_def owners_def enabled_def)
  with l show ?thesis by (simp add: life_def)
qed

theorem tcp_events_find_session_witness:
  "\<exists>s. tcp_reachable example_env plain_mbedtls example_factory s \<and> enabled (Sent 1) s \<and> \<not> destroyed s"
proof -
  obtain s where reach: "tcp_reachable example_env plain_mbedtls example_factory s" and r: "registered s = [1]"
    using example_exchange_run by (rule holds_afterE) blast
  have e: "enabled (Sent 1) s" by (simp add: enabled_def r)
  from tcp_events_find_session [OF reach e] e reach show ?thesis by blast
qed

text \<open>
  (C30) Memory safety of an event: it reads outside of no buffer and pops no empty queue, and it
  uses no member of the session after the session was destroyed, with two exceptions, both after
  the session released its last owner: the end of the remote stream, and a send acknowledgement
  that finds a failing \<^verbatim>\<open>tcp_write\<close>.
\<close>

theorem tcp_undefined_behaviour:
  assumes "mbedtls_buffers c" "tcp_reachable env c f s" "enabled ev s" "handle env c d ev s = (Some e, t)"
  shows "e = UseAfterFree \<and> (ev = Recv None ERR_OK \<or> (\<exists>n. ev = Sent n))"
  using handle_ub [OF assms(1) reachable_session_inv [OF assms(1,2)] assms(3,4)] .

text \<open>The client ends its side; everything sent back so far has been written.\<close>

definition example_half_closed :: "tcp_event list" where
  "example_half_closed = example_connect @ [StreamRead (Inl AsioEof)]"

lemma example_half_closed_run:
  "holds_after example_env example_half_closed (\<lambda>s. enabled (Recv None ERR_OK) s \<and>
     fst (handle example_env plain_mbedtls zero_drbg (Recv None ERR_OK) s) = Some UseAfterFree)"
  by code_simp

theorem tcp_undefined_behaviour_witness:
  "\<exists>s t. tcp_reachable example_env plain_mbedtls example_factory s \<and>
     handle example_env plain_mbedtls zero_drbg (Recv None ERR_OK) s = (Some UseAfterFree, t) \<and>
     (Recv None ERR_OK = Recv None ERR_OK \<or> (\<exists>n. Recv None ERR_OK = Sent n))"
proof -
  obtain s where reach: "tcp_reachable example_env plain_mbedtls example_factory s"
    and r: "enabled (Recv None ERR_OK) s" "fst (handle example_env plain_mbedtls zero_drbg (Recv None ERR_OK) s) = Some UseAfterFree"
    using example_half_closed_run by (rule holds_afterE) blast
  then obtain t where h: "handle example_env plain_mbedtls zero_drbg (Recv None ERR_OK) s = (Some UseAfterFree, t)"
    by (metis prod.collapse)
  from tcp_undefined_behaviour [OF plain_laws(1) reach r(1) h] reach h show ?thesis by blast
qed

text \<open>
  (C37) A remote end of stream after the client's: the session with no operation in flight
  is owned only by itself, \<^verbatim>\<open>handle_remote_fin\<close> releases that pointer and then reads
  \<^verbatim>\<open>client_eof_\<close> of the destroyed object.
\<close>

theorem tcp_remote_fin_use_after_free:
  assumes "life 0 s" "tpcb s \<noteq> None" "salt_reads s = 0" "stream_reads s = 0" "\<not> writing_client s"
  shows "\<exists>t. handle env c d (Recv None ERR_OK) s = (Some UseAfterFree, t)"
proof -
  let ?u = "close_pcb env (emit SockShutdownSend ((use s)\<lparr>remote_eof := True\<rparr>))"
  have own: "active_self s" "handler_refs s = 0" "\<not> destroyed s" using assms(1,2) by (auto simp: life_def owners_def)
  have u: "active_self ?u" "\<not> destroyed ?u" "owners (?u\<lparr>active_self := False\<rparr>) = 0"
    using own assms(3-5) by (simp_all add: owners_def)
  have "destroyed (release_active_self ?u)"
    using u by (simp add: release_active_self_def drop_owner_def destroy_def use_alive Let_def)
  then show ?thesis
    using assms(2) by (simp add: handle_def dispatch_def on_recv_def handle_remote_fin_def Let_def)
qed

lemma example_half_closed_quiet:
  "holds_after example_env example_half_closed (\<lambda>s. \<not> closing s \<and> client_eof s \<and> tpcb s \<noteq> None \<and>
     salt_reads s = 0 \<and> stream_reads s = 0 \<and> \<not> writing_client s)"
  by code_simp

theorem tcp_remote_fin_use_after_free_witness:
  "\<exists>s t. tcp_reachable example_env plain_mbedtls example_factory s \<and> client_eof s \<and> \<not> closing s \<and>
     handle example_env plain_mbedtls zero_drbg (Recv None ERR_OK) s = (Some UseAfterFree, t)"
proof -
  obtain s where reach: "tcp_reachable example_env plain_mbedtls example_factory s"
    and r: "\<not> closing s" "client_eof s" "tpcb s \<noteq> None" "salt_reads s = 0" "stream_reads s = 0" "\<not> writing_client s"
    using example_half_closed_quiet by (rule holds_afterE) blast
  have "life 0 s" using tcp_life.reachable_invariant [OF reach] by blast
  from tcp_remote_fin_use_after_free [OF this r(3-6)] reach r(1,2) show ?thesis by blast
qed

lemma example_late_target_run:
  "holds_after example_env
     [SaltRead (Some example_salt), StreamRead (Inr (example_stream [[1], [1, 10, 0, 0, 1, 0, 80]]))]
     (\<lambda>s. closing s \<and> tpcb s = Some 1 \<and> active_self s \<and> stream_reads s = 0 \<and> \<not> writing_client s \<and> salt_reads s = 0)"
  by code_simp

text \<open>
  The read loop goes on after a chunk closed the session: a first chunk without a complete
  address closes the client's socket, a second one with an address still connects, and the
  closing session keeps a control block and a pointer to itself.
\<close>

theorem tcp_connects_while_closing:
  "\<exists>env c f s. tcp_reachable env c f s \<and> closing s \<and> tpcb s \<noteq> None \<and> active_self s \<and>
     salt_reads s = 0 \<and> stream_reads s = 0 \<and> \<not> writing_client s"
proof -
  obtain s where reach: "tcp_reachable example_env plain_mbedtls example_factory s"
    and r: "closing s" "tpcb s = Some 1" "active_self s" "stream_reads s = 0" "\<not> writing_client s" "salt_reads s = 0"
    using example_late_target_run by (rule holds_afterE) blast
  then show ?thesis by blast
qed

lemma example_fin_run:
  "holds_after example_env (example_exchange @ [Recv None ERR_OK, ClientWritten (Some 32)])
     (\<lambda>s. (case trace s of AsyncWrite b # tr \<Rightarrow> SockShutdownSend \<in> set tr | _ \<Rightarrow> False) \<and>
        remote_eof s \<and> payloads (trace s) = [[5, 6]])"
  by code_simp

text \<open>
  A remote end of stream shuts down the sending side of the client's socket at once: what
  is still queued for the client is written to a socket that can no longer send.
\<close>

theorem tcp_fin_loses_queued_data:
  "\<exists>env c f s b tr. tcp_reachable env c f s \<and> trace s = AsyncWrite b # tr \<and>
     SockShutdownSend \<in> set tr \<and> remote_eof s \<and> payloads (trace s) \<noteq> []"
proof -
  obtain s where reach: "tcp_reachable example_env plain_mbedtls example_factory s"
    and r: "case trace s of AsyncWrite b # tr \<Rightarrow> SockShutdownSend \<in> set tr | _ \<Rightarrow> False"
      "remote_eof s" "payloads (trace s) \<noteq> []"
    using example_fin_run by (rule holds_afterE) (auto split: list.splits)
  from r(1) obtain b tr where "trace s = AsyncWrite b # tr" "SockShutdownSend \<in> set tr"
    by (auto split: list.splits tcp_action.splits)
  with reach r(2,3) show ?thesis by blast
qed

text \<open>
  A delivery of more than 16383 bytes, which the stack may make of segments that arrived out of
  order, does not fit into one chunk and is not split: once the salt has been sent such a delivery
  closes the session.
\<close>

lemma large_delivery_closes:
  assumes "0x3fff < length bs" "sent_response_salt s" "sent_salt (crypto s)"
  shows "on_recv env c d (Some bs) ERR_OK s = (None, close env (emit (Received bs) s))"
proof -
  have "bs \<noteq> []" using assms(1) by auto
  then show ?thesis
    using assms by (simp add: on_recv_def enqueue_client_payload_def ensure_response_salt_def encrypt_tcp_chunk_def catch_close_def)
qed

end
