(* ===== verification/PcbTable.thy ===== *)
theory PcbTable
  imports Main "HOL-Library.AList" "HOL-Library.Multiset"
begin

text \<open>
  Tables whose entries own control blocks of the stack: the lookups of \<^verbatim>\<open>LwipRuntime\<close> and
  the mappings of \<^verbatim>\<open>UdpRelaySession\<close>. Each entry has a block with a callback that points
  back at the entry; the table removes the callback when it drops the entry. A table is an
  association list, \<open>f\<close> gives the block of an entry, \<open>pcbs\<close> are the blocks with a callback.
\<close>

section \<open>Association lists\<close>

lemma set_delete: "set (AList.delete k t) = {e \<in> set t. fst e \<noteq> k}"
  by (auto simp: AList.delete_eq)

lemma delete_mset:
  "distinct (map fst t) \<Longrightarrow> map_of t k = Some q \<Longrightarrow> mset t = add_mset (k, q) (mset (AList.delete k t))"
proof (induction t)
  case (Cons e t)
  obtain k' v where [simp]: "e = (k', v)" by fastforce
  show ?case
  proof (cases "k' = k")
    case True
    then have "AList.delete k t = t" using Cons.prems by (auto simp: delete_id)
    with True Cons.prems show ?thesis by simp
  next
    case False
    with Cons show ?thesis by simp
  qed
qed simp

lemma set_remove_nth: "n < length xs \<Longrightarrow> x \<in> set xs \<Longrightarrow> x \<noteq> xs ! n \<Longrightarrow> x \<in> set (take n xs @ drop (Suc n) xs)"
  by (metis Cons_nth_drop_Suc Un_iff append_take_drop_id set_ConsD set_append)

section \<open>Ownership\<close>

text \<open>Every entry has a block of its own with a callback.\<close>

definition owns_pcbs :: "('q \<Rightarrow> nat option) \<Rightarrow> ('k \<times> 'q) list \<Rightarrow> nat list \<Rightarrow> bool" where
  "owns_pcbs f tbl pcbs \<longleftrightarrow> distinct (map fst tbl) \<and> distinct (map (f \<circ> snd) tbl) \<and>
     f ` snd ` set tbl \<subseteq> Some ` set pcbs"

text \<open>Every callback belongs to an entry.\<close>

definition pcbs_owned :: "('q \<Rightarrow> nat option) \<Rightarrow> ('k \<times> 'q) list \<Rightarrow> nat list \<Rightarrow> bool" where
  "pcbs_owned f tbl pcbs \<longleftrightarrow> Some ` set pcbs \<subseteq> f ` snd ` set tbl"

lemma owns_empty [simp]: "owns_pcbs f [] pcbs" "pcbs_owned f tbl []"
  by (simp_all add: owns_pcbs_def pcbs_owned_def)

lemma owns_insert:
  assumes "owns_pcbs f tbl pcbs" "map_of tbl k = None" "f q = Some p" "p \<notin> set pcbs"
  shows "owns_pcbs f ((k, q) # tbl) (p # pcbs)"
proof -
  have "Some p \<notin> f ` snd ` set tbl" using assms(1,4) by (auto simp: owns_pcbs_def)
  with assms show ?thesis by (auto simp: owns_pcbs_def map_of_eq_None_iff image_image)
qed

lemma owns_more: "owns_pcbs f tbl pcbs \<Longrightarrow> owns_pcbs f tbl (p # pcbs)"
  by (auto simp: owns_pcbs_def)

lemma owned_insert: "pcbs_owned f tbl pcbs \<Longrightarrow> f q = Some p \<Longrightarrow> pcbs_owned f ((k, q) # tbl) (p # pcbs)"
  by (auto simp: pcbs_owned_def)

lemma owns_other:
  assumes "owns_pcbs f tbl pcbs" "(k, q) \<in> set tbl" "(k', q') \<in> set tbl"
  shows "f q = f q' \<longleftrightarrow> k = k'"
proof
  assume "f q = f q'"
  with assms show "k = k'" by (metis distinct_map fst_conv inj_onD o_apply owns_pcbs_def snd_conv)
next
  assume "k = k'"
  with assms show "f q = f q'" by (metis eq_key_imp_eq_value owns_pcbs_def)
qed

lemma owns_erase:
  assumes "owns_pcbs f tbl pcbs" "map_of tbl k = Some q"
  shows "owns_pcbs f (AList.delete k tbl) (filter (\<lambda>p. Some p \<noteq> f q) pcbs)"
proof -
  have mem: "(k, q) \<in> set tbl" using assms(2) by (rule map_of_SomeD)
  have "f r \<in> Some ` set (filter (\<lambda>p. Some p \<noteq> f q) pcbs)" if "(k', r) \<in> set tbl" "k' \<noteq> k" for k' r
    using owns_other [OF assms(1) that(1) mem] that assms(1) by (force simp: owns_pcbs_def)
  then have "f ` snd ` set (AList.delete k tbl) \<subseteq> Some ` set (filter (\<lambda>p. Some p \<noteq> f q) pcbs)"
    by (auto simp: set_delete)
  with assms(1) show ?thesis
    by (simp add: owns_pcbs_def distinct_delete AList.delete_eq distinct_map_filter)
qed

lemma owned_erase:
  assumes "owns_pcbs f tbl pcbs" "pcbs_owned f tbl pcbs" "map_of tbl k = Some q"
  shows "pcbs_owned f (AList.delete k tbl) (filter (\<lambda>p. Some p \<noteq> f q) pcbs)"
  unfolding pcbs_owned_def
proof
  fix x assume "x \<in> Some ` set (filter (\<lambda>p. Some p \<noteq> f q) pcbs)"
  then obtain p where p: "x = Some p" "p \<in> set pcbs" "Some p \<noteq> f q" by auto
  with assms(2) have "Some p \<in> f ` snd ` set tbl" by (auto simp: pcbs_owned_def)
  then obtain k' r where r: "(k', r) \<in> set tbl" "f r = Some p" by auto
  moreover have "k' \<noteq> k" using owns_other [OF assms(1) r(1) map_of_SomeD [OF assms(3)]] p(3) r(2) by auto
  ultimately show "x \<in> f ` snd ` set (AList.delete k tbl)" using p(1) by (force simp: set_delete)
qed

lemma owned_clear: "pcbs_owned f tbl pcbs \<Longrightarrow> filter (\<lambda>p. Some p \<notin> f ` snd ` set tbl) pcbs = []"
  by (auto simp: pcbs_owned_def filter_empty_conv)

text \<open>A callback finds the entry it was registered for.\<close>

lemma owner_found:
  assumes "pcbs_owned f tbl pcbs" "p \<in> set pcbs"
  obtains k q where "find (\<lambda>(k, q). f q = Some p) tbl = Some (k, q)" and "(k, q) \<in> set tbl" and "f q = Some p"
proof -
  from assms have "Some p \<in> f ` snd ` set tbl" by (auto simp: pcbs_owned_def)
  then obtain k r where "(k, r) \<in> set tbl" "f r = Some p" by auto
  then have "find (\<lambda>(k, q). f q = Some p) tbl \<noteq> None"
    by (metis (mono_tags, lifting) case_prod_conv find_None_iff)
  then obtain k q where f: "find (\<lambda>(k, q). f q = Some p) tbl = Some (k, q)" by auto
  then have "(k, q) \<in> set tbl \<and> f q = Some p"
    by (metis (mono_tags, lifting) case_prod_conv find_Some_iff nth_mem)
  with f that show ?thesis by blast
qed

end
