(* ===== verification/LwipRuntime.thy ===== *)
theory LwipRuntime
  imports InstanceConfig DnsMessage LwipTypes PcbTable
begin

unbundle bit_operations_syntax

text \<open>
  The owner of the user-space network interface, \<^verbatim>\<open>src/src/LwipRuntime.cpp\<close> from line 62
  and the class of \<^verbatim>\<open>include/ovpn2ss/LwipRuntime.h\<close>: the addresses of the interface,
  packets in and out, and the table of name lookups that are in flight.

  What the stack answers (a control block from \<^verbatim>\<open>udp_new_pcb\<close>, whether \<^verbatim>\<open>pbuf_alloc\<close>
  succeeds, the result of \<^verbatim>\<open>udp_sendto\<close>) is an argument. The lookup handlers are named by
  numbers; a run of one is recorded in \<open>called\<close>. The stack lock is recursive and every
  operation takes it first, so it does not appear.
\<close>

section \<open>Interface addresses\<close>

definition parse_ip_addr :: "string \<Rightarrow> bool \<Rightarrow> ip_addr_t result" where
  "parse_ip_addr txt ipv6 =
     (case (if ipv6 then ipaddr_aton (c_str txt) else ipaddr_aton (c_str txt)) of
        None \<Rightarrow> Inl (RuntimeError (''invalid IP address: '' @ txt))
      | Some a \<Rightarrow> Inr a)"

definition prefix_to_netmask :: "int \<Rightarrow> u32 result" where
  "prefix_to_netmask prefix =
     (if prefix < 0 \<or> prefix > 32 then Inl (RuntimeError ''invalid IPv4 prefix length'')
      else
        let nmask = (if prefix = 0 then 0 else push_bit (nat (32 - prefix)) 0xffffffff) :: u32
        in Inr (lwip_htonl nmask))"

text \<open>The words that \<^verbatim>\<open>ip_2_ip4\<close> and \<^verbatim>\<open>ip_2_ip6\<close> point to; the other words of an address are zero.\<close>

fun ip_2_ip4 :: "ip_addr_t \<Rightarrow> u32" where
  "ip_2_ip4 (IP_V4 w) = w"
| "ip_2_ip4 (IP_V6 w0 w1 w2 w3) = w0"

fun ip_2_ip6 :: "ip_addr_t \<Rightarrow> u32 \<times> u32 \<times> u32 \<times> u32" where
  "ip_2_ip6 (IP_V4 w) = (w, 0, 0, 0)"
| "ip_2_ip6 (IP_V6 w0 w1 w2 w3) = (w0, w1, w2, w3)"

section \<open>State\<close>

record DnsQuery =
  query_id :: u16
  query_type :: u16
  handler :: nat
  query_pcb :: "nat option"

text \<open>
  What is posted to the \<^verbatim>\<open>io_context\<close>: a call of a lookup handler, or a packet for the
  interface together with the lifetime token it captured. A wait on the timer of a lookup is
  its id, the token it captured and the handler of the query object that owns the timer.
\<close>

datatype posted = RunHandler nat err_t "ip_addr_t option" | InjectPacket nat bytes

type_synonym dns_wait = "u16 \<times> nat \<times> nat"

text \<open>
  The lifetime token is a number and the value it points to; a weak pointer to a token locks
  while that token is the current one. \<^verbatim>\<open>next_id\<close> is shared by all instances of the process.
  The last five fields record what happened: handlers passed to \<^verbatim>\<open>async_resolve\<close>, calls of
  handlers, handlers destroyed without a call, among them those of queries that did not get
  into the table, and the ids of queries whose construction was left by an exception.
\<close>

record LwipRuntime =
  active_config :: TunConfig
  netif_mtu :: u16
  netif_ip4 :: "u32 \<times> u32 \<times> u32"
  netif_ip6 :: "(u32 \<times> u32 \<times> u32 \<times> u32) option"
  packet_output :: "nat option"
  dns_queries :: "(u16 \<times> DnsQuery) list"
  lifetime_token :: "nat \<times> bool"
  running :: bool
  next_id :: u32
  posted_tasks :: "posted list"
  dns_timers :: "dns_wait list"
  tick_timers :: nat
  udp_pcbs :: "nat list"
  netif_inputs :: "bytes list"
  netif_outputs :: "(nat \<times> bytes) list"
  dns_packets :: "(nat \<times> bytes \<times> ip_addr_t \<times> u16) list"
  issued :: "nat list"
  called :: "(nat \<times> err_t \<times> ip_addr_t option) list"
  dropped :: "nat list"
  orphaned :: "nat list"
  stranded :: "u16 list"

text \<open>The constructor adds the interface with zero addresses; \<^verbatim>\<open>netif_init\<close> sets its MTU.\<close>

definition LwipRuntime_new :: "u32 \<Rightarrow> LwipRuntime" where
  "LwipRuntime_new n =
     \<lparr>active_config = default_TunConfig, netif_mtu = 1500, netif_ip4 = (0, 0, 0), netif_ip6 = None,
      packet_output = None, dns_queries = [], lifetime_token = (0, True), running = False, next_id = n,
      posted_tasks = [], dns_timers = [], tick_timers = 0, udp_pcbs = [], netif_inputs = [],
      netif_outputs = [], dns_packets = [], issued = [], called = [], dropped = [], orphaned = [], stranded = []\<rparr>"

definition post_task :: "posted \<Rightarrow> LwipRuntime \<Rightarrow> LwipRuntime" where
  "post_task t s = s\<lparr>posted_tasks := posted_tasks s @ [t]\<rparr>"

section \<open>Interface configuration\<close>

fun apply_addresses :: "TunAddress list \<Rightarrow> LwipRuntime \<Rightarrow> exn option \<times> LwipRuntime" where
  "apply_addresses [] s = (None, s)"
| "apply_addresses (a # rest) s =
     (if tun_ipv6 a then
        (case parse_ip_addr (tun_address a) True of
           Inl e \<Rightarrow> (Some e, s)
         | Inr ip \<Rightarrow> apply_addresses rest (s\<lparr>netif_ip6 := Some (ip_2_ip6 ip)\<rparr>))
      else
        (case parse_ip_addr (tun_address a) False of
           Inl e \<Rightarrow> (Some e, s)
         | Inr ip \<Rightarrow>
             (case prefix_to_netmask (prefix_length a) of
                Inl e \<Rightarrow> (Some e, s)
              | Inr nmask \<Rightarrow>
                  (case (if tun_gateway a \<noteq> [] then
                           bind_result (parse_ip_addr (tun_gateway a) False) (\<lambda>g. Inr (ip_2_ip4 g))
                         else Inr 0) of
                     Inl e \<Rightarrow> (Some e, s)
                   | Inr gw \<Rightarrow> apply_addresses rest (s\<lparr>netif_ip4 := (ip_2_ip4 ip, nmask, gw)\<rparr>)))))"

definition apply_tun_config_locked :: "TunConfig \<Rightarrow> LwipRuntime \<Rightarrow> exn option \<times> LwipRuntime" where
  "apply_tun_config_locked config s =
     apply_addresses (addresses config)
       (s\<lparr>active_config := config,
          netif_mtu := word_of_int (if mtu config > 0 then mtu config else 1500)\<rparr>)"

definition apply_tun_config_and_output ::
  "TunConfig \<Rightarrow> nat \<Rightarrow> LwipRuntime \<Rightarrow> exn option \<times> LwipRuntime" where
  "apply_tun_config_and_output config out s =
     (case apply_tun_config_locked config s of
        (Some e, t) \<Rightarrow> (Some e, t)
      | (None, t) \<Rightarrow> (None, t\<lparr>packet_output := Some out\<rparr>))"

definition set_packet_output :: "nat option \<Rightarrow> LwipRuntime \<Rightarrow> LwipRuntime" where
  "set_packet_output out s = s\<lparr>packet_output := out\<rparr>"

section \<open>Packets\<close>

definition inject_l3_packet :: "bool \<Rightarrow> bytes \<Rightarrow> LwipRuntime \<Rightarrow> LwipRuntime" where
  "inject_l3_packet alloc packet s =
     (if packet = [] \<or> \<not> alloc then s
      else s\<lparr>netif_inputs := netif_inputs s @ [take (unat (word_of_nat (length packet) :: u16)) packet]\<rparr>)"

definition post_inject_l3_packet :: "bytes \<Rightarrow> LwipRuntime \<Rightarrow> LwipRuntime" where
  "post_inject_l3_packet packet s =
     (if packet = [] then s else post_task (InjectPacket (fst (lifetime_token s)) packet) s)"

definition emit_packet :: "pbuf \<Rightarrow> LwipRuntime \<Rightarrow> err_t \<times> LwipRuntime" where
  "emit_packet p s =
     (case packet_output s of
        None \<Rightarrow> (ERR_RTE, s)
      | Some out \<Rightarrow>
          (let bs = pbuf_copy_partial p (tot_len p) 0
           in if word_of_nat (length bs) \<noteq> tot_len p then (ERR_BUF, s)
              else (ERR_OK, s\<lparr>netif_outputs := netif_outputs s @ [(out, bs)]\<rparr>)))"

section \<open>Lookups\<close>

definition dns_server :: "LwipRuntime \<Rightarrow> ip_addr_t option result" where
  "dns_server s =
     (case ipv4_dns (active_config s) of
        a # _ \<Rightarrow> bind_result (parse_ip_addr a False) (\<lambda>ip. Inr (Some ip))
      | [] \<Rightarrow>
          (case ipv6_dns (active_config s) of
             a # _ \<Rightarrow> bind_result (parse_ip_addr a True) (\<lambda>ip. Inr (Some ip))
           | [] \<Rightarrow> Inr None))"

text \<open>The query's timer is cancelled by leaving the table; its wait still completes, with an error.\<close>

definition complete_dns_query :: "u16 \<Rightarrow> err_t \<Rightarrow> ip_addr_t option \<Rightarrow> LwipRuntime \<Rightarrow> LwipRuntime" where
  "complete_dns_query i err ip s =
     (case map_of (dns_queries s) i of
        None \<Rightarrow> s
      | Some q \<Rightarrow>
          post_task (RunHandler (handler q) err ip)
            (s\<lparr>dns_queries := AList.delete i (dns_queries s),
               udp_pcbs := filter (\<lambda>p. Some p \<noteq> query_pcb q) (udp_pcbs s)\<rparr>))"

record dns_answers =
  new_pcb :: "nat option"
  pbuf_ok :: bool
  send_result :: err_t

text \<open>
  \<^verbatim>\<open>emplace\<close> leaves the table alone when the id is taken: the new query object is destroyed
  when the function is left, but its control block stays registered.
\<close>

definition register_query :: "u16 \<Rightarrow> DnsQuery \<Rightarrow> nat \<Rightarrow> LwipRuntime \<Rightarrow> LwipRuntime" where
  "register_query i q p s =
     (let s1 = s\<lparr>udp_pcbs := p # udp_pcbs s\<rparr>
      in if map_of (dns_queries s) i = None then s1\<lparr>dns_queries := (i, q) # dns_queries s\<rparr>
         else s1\<lparr>dropped := handler q # dropped s, orphaned := handler q # orphaned s\<rparr>)"

text \<open>The part of \<^verbatim>\<open>async_resolve\<close> from line 427, for a query with a control block.\<close>

definition send_query ::
  "dns_answers \<Rightarrow> string \<Rightarrow> ip_addr_t \<Rightarrow> DnsQuery \<Rightarrow> nat \<Rightarrow> LwipRuntime \<Rightarrow> exn option \<times> LwipRuntime" where
  "send_query ans hst server q p s =
     (let i = query_id q;
          inserted = (map_of (dns_queries s) i = None);
          s1 = register_query i q p s
      in case make_dns_query i hst (query_type q) of
           Inl e \<Rightarrow> (Some e, if inserted then s1\<lparr>stranded := i # stranded s1\<rparr> else s1)
         | Inr packet \<Rightarrow>
             (let sent = take (unat (word_of_nat (length packet) :: u16)) packet;
                  send_error = (if pbuf_ok ans then send_result ans else ERR_MEM);
                  s2 = (if pbuf_ok ans then s1\<lparr>dns_packets := dns_packets s1 @ [(p, sent, server, DnsPort)]\<rparr> else s1)
              in if send_error \<noteq> ERR_OK then (None, complete_dns_query i send_error None s2)
                 else if inserted then
                   (None, s2\<lparr>dns_timers := dns_timers s2 @ [(i, fst (lifetime_token s2), handler q)]\<rparr>)
                 else (None, s2)))"

definition async_resolve ::
  "dns_answers \<Rightarrow> string \<Rightarrow> nat \<Rightarrow> LwipRuntime \<Rightarrow> exn option \<times> LwipRuntime" where
  "async_resolve ans hst h s0 =
     (let s = s0\<lparr>issued := h # issued s0,
                 lifetime_token := (if snd (lifetime_token s0) then lifetime_token s0
                                    else (fst (lifetime_token s0) + 1, True))\<rparr>
      in case ipaddr_aton (c_str hst) of
           Some literal \<Rightarrow> (None, post_task (RunHandler h ERR_OK (Some literal)) s)
         | None \<Rightarrow>
             (case dns_server s of
                Inl e \<Rightarrow> (Some e, s\<lparr>dropped := h # dropped s\<rparr>)
              | Inr None \<Rightarrow> (None, post_task (RunHandler h ERR_RTE None) s)
              | Inr (Some server) \<Rightarrow>
                  (let i = ucast (next_id s) :: u16;
                       s1 = s\<lparr>next_id := next_id s + 1\<rparr>;
                       q = \<lparr>query_id = i, query_type = (if IP_IS_V6 server then DnsTypeAaaa else DnsTypeA),
                            handler = h, query_pcb = new_pcb ans\<rparr>
                   in case new_pcb ans of
                        None \<Rightarrow> (None, post_task (RunHandler h ERR_MEM None) s1)
                      | Some p \<Rightarrow> send_query ans hst server q p s1)))"

text \<open>
  The argument of the callback is the query object that was created with the control block;
  it exists while it is in the table.
\<close>

definition dns_recv :: "nat \<Rightarrow> pbuf option \<Rightarrow> LwipRuntime \<Rightarrow> exn option \<times> LwipRuntime" where
  "dns_recv p buf s =
     (case buf of
        None \<Rightarrow> (None, s)
      | Some b \<Rightarrow>
          (case find (\<lambda>(i, q). query_pcb q = Some p) (dns_queries s) of
             None \<Rightarrow> (Some UseAfterFree, s)
           | Some (i, q) \<Rightarrow>
               (case parse_dns_response (pbuf_copy_partial b (tot_len b) 0) (query_id q) (query_type q) of
                  Inl e \<Rightarrow> (Some e, s)
                | Inr ip \<Rightarrow>
                    (None, complete_dns_query (query_id q) (if ip \<noteq> None then ERR_OK else ERR_VAL) ip s))))"

text \<open>The handler of the wait on a lookup's timer; \<open>ok\<close> is \<^verbatim>\<open>!ec\<close>.\<close>

definition on_dns_timer :: "dns_wait \<Rightarrow> bool \<Rightarrow> LwipRuntime \<Rightarrow> LwipRuntime" where
  "on_dns_timer w ok s =
     (case w of (i, tok, h) \<Rightarrow>
        if ok \<and> tok = fst (lifetime_token s) \<and> snd (lifetime_token s)
        then complete_dns_query i ERR_TIMEOUT None s else s)"

section \<open>Starting, stopping, the tick\<close>

definition arm_timer :: "LwipRuntime \<Rightarrow> LwipRuntime" where
  "arm_timer s = s\<lparr>tick_timers := tick_timers s + 1\<rparr>"

definition LwipRuntime_start :: "LwipRuntime \<Rightarrow> LwipRuntime" where
  "LwipRuntime_start s = (if running s then s else arm_timer (s\<lparr>running := True\<rparr>))"

definition LwipRuntime_stop :: "LwipRuntime \<Rightarrow> LwipRuntime" where
  "LwipRuntime_stop s =
     s\<lparr>running := False,
       lifetime_token := (fst (lifetime_token s), False),
       dns_queries := [],
       udp_pcbs := filter (\<lambda>p. Some p \<notin> query_pcb ` snd ` set (dns_queries s)) (udp_pcbs s),
       dropped := map (handler \<circ> snd) (dns_queries s) @ dropped s\<rparr>"

text \<open>\<open>x\<close> is the exception that leaves \<^verbatim>\<open>sys_check_timeouts\<close>, if any.\<close>

definition poll_timeouts :: "exn option \<Rightarrow> LwipRuntime \<Rightarrow> exn option \<times> LwipRuntime" where
  "poll_timeouts x s = (case x of None \<Rightarrow> (None, s) | Some e \<Rightarrow> (Some e, LwipRuntime_stop s))"

definition on_tick :: "bool \<Rightarrow> exn option \<Rightarrow> LwipRuntime \<Rightarrow> exn option \<times> LwipRuntime" where
  "on_tick ok x s =
     (if \<not> ok \<or> \<not> running s then (None, s)
      else case poll_timeouts x s of
        (Some e, t) \<Rightarrow> (Some e, t)
      | (None, t) \<Rightarrow> (None, arm_timer t))"

text \<open>A task taken off the queue of the \<^verbatim>\<open>io_context\<close>.\<close>

fun run_task :: "bool \<Rightarrow> posted \<Rightarrow> LwipRuntime \<Rightarrow> LwipRuntime" where
  "run_task alloc (RunHandler h err ip) s = s\<lparr>called := called s @ [(h, err, ip)]\<rparr>"
| "run_task alloc (InjectPacket tok packet) s =
     (if tok = fst (lifetime_token s) \<and> snd (lifetime_token s) \<and> running s
      then inject_l3_packet alloc packet s else s)"

section \<open>Events\<close>

datatype lwip_event =
    Resolve dns_answers string nat
  | DnsRecv nat "pbuf option"
  | DnsTimer nat bool
  | RunPosted bool
  | Tick bool "exn option"
  | StartRuntime
  | StopRuntime
  | ApplyConfig TunConfig nat
  | SetOutput "nat option"
  | PostInject bytes
  | EmitPacket pbuf
  | OtherLookups u32

abbreviation table_handlers :: "LwipRuntime \<Rightarrow> nat list" where
  "table_handlers s \<equiv> map (handler \<circ> snd) (dns_queries s)"

text \<open>
  When an event can happen: each call of \<^verbatim>\<open>async_resolve\<close> brings a handler of its own,
  \<^verbatim>\<open>udp_new_pcb\<close> returns a block that is not in use, the stack calls back for a block that
  is, and a wait on a timer completes with an error only once its query has left the table.
\<close>

definition lwip_enabled :: "lwip_event \<Rightarrow> LwipRuntime \<Rightarrow> bool" where
  "lwip_enabled ev s =
     (case ev of
        Resolve ans hst h \<Rightarrow> h \<notin> set (issued s) \<and>
          (case new_pcb ans of None \<Rightarrow> True | Some p \<Rightarrow> p \<notin> set (udp_pcbs s))
      | DnsRecv p buf \<Rightarrow> p \<in> set (udp_pcbs s)
      | DnsTimer n ok \<Rightarrow> n < length (dns_timers s) \<and>
          (ok \<or> snd (snd (dns_timers s ! n)) \<notin> set (table_handlers s))
      | RunPosted alloc \<Rightarrow> posted_tasks s \<noteq> []
      | Tick ok x \<Rightarrow> 0 < tick_timers s \<and> (case x of None \<Rightarrow> True | Some e \<Rightarrow> \<not> is_ub e)
      | _ \<Rightarrow> True)"

definition lwip_handle :: "lwip_event \<Rightarrow> LwipRuntime \<Rightarrow> exn option \<times> LwipRuntime" where
  "lwip_handle ev s =
     (case ev of
        Resolve ans hst h \<Rightarrow> async_resolve ans hst h s
      | DnsRecv p buf \<Rightarrow> dns_recv p buf s
      | DnsTimer n ok \<Rightarrow>
          (None, on_dns_timer (dns_timers s ! n) ok
             (s\<lparr>dns_timers := take n (dns_timers s) @ drop (Suc n) (dns_timers s)\<rparr>))
      | RunPosted alloc \<Rightarrow>
          (None, run_task alloc (hd (posted_tasks s)) (s\<lparr>posted_tasks := tl (posted_tasks s)\<rparr>))
      | Tick ok x \<Rightarrow> on_tick ok x (s\<lparr>tick_timers := tick_timers s - 1\<rparr>)
      | StartRuntime \<Rightarrow> (None, LwipRuntime_start s)
      | StopRuntime \<Rightarrow> (None, LwipRuntime_stop s)
      | ApplyConfig config out \<Rightarrow> apply_tun_config_and_output config out s
      | SetOutput out \<Rightarrow> (None, set_packet_output out s)
      | PostInject packet \<Rightarrow> (None, post_inject_l3_packet packet s)
      | EmitPacket p \<Rightarrow> (None, snd (emit_packet p s))
      | OtherLookups n \<Rightarrow> (None, s\<lparr>next_id := next_id s + n\<rparr>))"

text \<open>An exception is caught by the caller; undefined behaviour ends the run.\<close>

inductive lwip_step :: "LwipRuntime \<Rightarrow> LwipRuntime \<Rightarrow> bool" where
  lwip_event: "lwip_enabled ev s \<Longrightarrow> lwip_handle ev s = (r, t) \<Longrightarrow>
    (case r of None \<Rightarrow> True | Some e \<Rightarrow> \<not> is_ub e) \<Longrightarrow> lwip_step s t"

inductive_cases lwip_stepE: "lwip_step s t"

definition lwip_init :: "LwipRuntime \<Rightarrow> bool" where
  "lwip_init s \<longleftrightarrow> (\<exists>n. s = LwipRuntime_new n)"

abbreviation lwip_reachable :: "LwipRuntime \<Rightarrow> bool" where
  "lwip_reachable \<equiv> reachable lwip_init lwip_step"

fun run_lwip :: "lwip_event list \<Rightarrow> LwipRuntime \<Rightarrow> LwipRuntime option" where
  "run_lwip [] s = Some s"
| "run_lwip (ev # evs) s =
     (if lwip_enabled ev s then
        (case lwip_handle ev s of
           (None, t) \<Rightarrow> run_lwip evs t
         | (Some e, t) \<Rightarrow> if is_ub e then None else run_lwip evs t)
      else None)"

lemma run_lwip_reachable: "run_lwip evs s = Some t \<Longrightarrow> lwip_reachable s \<Longrightarrow> lwip_reachable t"
proof (induction evs arbitrary: s)
  case (Cons ev evs)
  obtain r u where h: "lwip_handle ev s = (r, u)" by fastforce
  with Cons.prems have e: "lwip_enabled ev s" and r: "case r of None \<Rightarrow> True | Some e \<Rightarrow> \<not> is_ub e"
    and rest: "run_lwip evs u = Some t"
    by (auto split: if_splits option.splits)
  from reach_step [OF Cons.prems(2) lwip_event [OF e h r]] Cons.IH [OF rest] show ?case by blast
qed simp

section \<open>The invariant of the lookup table\<close>

fun posted_handlers :: "posted list \<Rightarrow> nat list" where
  "posted_handlers [] = []"
| "posted_handlers (RunHandler h e ip # ts) = h # posted_handlers ts"
| "posted_handlers (InjectPacket tok b # ts) = posted_handlers ts"

lemma posted_handlers_append [simp]: "posted_handlers (xs @ ys) = posted_handlers xs @ posted_handlers ys"
  by (induction xs rule: posted_handlers.induct) simp_all

text \<open>Every handler is in the table, about to be called, called, or destroyed: exactly one of these.\<close>

definition accounted :: "LwipRuntime \<Rightarrow> bool" where
  "accounted s \<longleftrightarrow> distinct (issued s) \<and>
     mset (issued s) = mset (table_handlers s) + mset (posted_handlers (posted_tasks s)) +
       mset (map fst (called s)) + mset (dropped s)"

text \<open>Entries own the control block their callback is registered for.\<close>

definition table_ok :: "LwipRuntime \<Rightarrow> bool" where
  "table_ok s \<longleftrightarrow> owns_pcbs query_pcb (dns_queries s) (udp_pcbs s) \<and>
     (\<forall>(i, q) \<in> set (dns_queries s). query_id q = i) \<and>
     (orphaned s = [] \<longrightarrow> pcbs_owned query_pcb (dns_queries s) (udp_pcbs s))"

text \<open>Every entry has a timer that is still running, unless its construction was cut short.\<close>

definition timers_ok :: "LwipRuntime \<Rightarrow> bool" where
  "timers_ok s \<longleftrightarrow> (dns_queries s \<noteq> [] \<longrightarrow> snd (lifetime_token s)) \<and>
     (\<forall>(i, q) \<in> set (dns_queries s).
        (i, fst (lifetime_token s), handler q) \<in> set (dns_timers s) \<or> i \<in> set (stranded s))"

definition lwip_inv :: "LwipRuntime \<Rightarrow> bool" where
  "lwip_inv s \<longleftrightarrow> accounted s \<and> table_ok s \<and> timers_ok s"

text \<open>The invariant does not depend on the interface and on the packets.\<close>

definition table_view where
  "table_view s = (dns_queries s, lifetime_token s, posted_handlers (posted_tasks s), dns_timers s,
     udp_pcbs s, issued s, map fst (called s), dropped s, orphaned s, stranded s)"

lemma lwip_inv_view: "table_view s = table_view t \<Longrightarrow> lwip_inv s \<Longrightarrow> lwip_inv t"
  by (simp add: table_view_def lwip_inv_def accounted_def table_ok_def timers_ok_def)

lemma complete_dns_query_inv:
  assumes inv: "lwip_inv s"
  shows "lwip_inv (complete_dns_query i err ip s)"
proof (cases "map_of (dns_queries s) i")
  case None
  with inv show ?thesis by (simp add: complete_dns_query_def)
next
  case (Some q)
  let ?t = "complete_dns_query i err ip s" and ?tbl = "dns_queries s"
  have t: "?t = post_task (RunHandler (handler q) err ip)
      (s\<lparr>dns_queries := AList.delete i ?tbl, udp_pcbs := filter (\<lambda>p. Some p \<noteq> query_pcb q) (udp_pcbs s)\<rparr>)"
    using Some by (simp add: complete_dns_query_def)
  have owns: "owns_pcbs query_pcb ?tbl (udp_pcbs s)" using inv by (simp add: lwip_inv_def table_ok_def)
  then have "mset ?tbl = add_mset (i, q) (mset (AList.delete i ?tbl))"
    using Some by (intro delete_mset) (simp add: owns_pcbs_def)
  then have "image_mset (handler \<circ> snd) (mset ?tbl) =
      add_mset (handler q) (image_mset (handler \<circ> snd) (mset (AList.delete i ?tbl)))" by simp
  then have "accounted ?t" using inv by (simp add: t lwip_inv_def accounted_def post_task_def)
  moreover have "table_ok ?t"
    using inv owns_erase [OF owns Some] owned_erase [OF owns _ Some]
    by (auto simp: t table_ok_def lwip_inv_def post_task_def set_delete)
  moreover have "timers_ok ?t"
    using inv by (auto simp: t lwip_inv_def timers_ok_def post_task_def set_delete)
  ultimately show ?thesis by (simp add: lwip_inv_def)
qed

text \<open>Inside \<^verbatim>\<open>async_resolve\<close> the handler is held by the function.\<close>

definition pending_inv :: "nat \<Rightarrow> LwipRuntime \<Rightarrow> bool" where
  "pending_inv h s \<longleftrightarrow> distinct (issued s) \<and> snd (lifetime_token s) \<and> table_ok s \<and> timers_ok s \<and>
     mset (issued s) = add_mset h (mset (table_handlers s) + mset (posted_handlers (posted_tasks s)) +
       mset (map fst (called s)) + mset (dropped s))"

lemma pending_posted: "pending_inv h s \<Longrightarrow> lwip_inv (post_task (RunHandler h e ip) s)"
  by (simp add: pending_inv_def lwip_inv_def accounted_def table_ok_def timers_ok_def post_task_def)

lemma pending_dropped: "pending_inv h s \<Longrightarrow> lwip_inv (s\<lparr>dropped := h # dropped s\<rparr>)"
  by (simp add: pending_inv_def lwip_inv_def accounted_def table_ok_def timers_ok_def)

lemma pending_orphan:
  "pending_inv h s \<Longrightarrow> lwip_inv (s\<lparr>udp_pcbs := p # udp_pcbs s, dropped := h # dropped s, orphaned := h # orphaned s\<rparr>)"
  by (auto simp: pending_inv_def lwip_inv_def accounted_def table_ok_def timers_ok_def owns_more)

lemma pending_view: "table_view s = table_view t \<Longrightarrow> pending_inv h s \<Longrightarrow> pending_inv h t"
  by (simp add: table_view_def pending_inv_def table_ok_def timers_ok_def)

text \<open>A query that enters the table, with a running timer or as one that is left by an exception.\<close>

lemma pending_inserted:
  assumes pre: "pending_inv (handler q) s" and free: "map_of (dns_queries s) i = None"
    and q: "query_id q = i" "query_pcb q = Some p" "p \<notin> set (udp_pcbs s)"
    and t: "table_view t = table_view (s\<lparr>udp_pcbs := p # udp_pcbs s, dns_queries := (i, q) # dns_queries s,
      dns_timers := ts, stranded := ids\<rparr>)"
    and sub: "set (dns_timers s) \<subseteq> set ts" "set (stranded s) \<subseteq> set ids"
    and timed: "(i, fst (lifetime_token s), handler q) \<in> set ts \<or> i \<in> set ids"
  shows "lwip_inv t"
proof -
  let ?u = "s\<lparr>udp_pcbs := p # udp_pcbs s, dns_queries := (i, q) # dns_queries s, dns_timers := ts, stranded := ids\<rparr>"
  have "accounted ?u" using pre by (simp add: pending_inv_def accounted_def)
  moreover have "table_ok ?u"
    using pre free q by (auto simp: pending_inv_def table_ok_def owns_insert owned_insert)
  moreover have "timers_ok ?u"
    using pre sub timed by (fastforce simp: pending_inv_def timers_ok_def)
  ultimately have "lwip_inv ?u" by (simp add: lwip_inv_def)
  with t [symmetric] show ?thesis by (rule lwip_inv_view)
qed

lemma complete_inserted:
  assumes free: "map_of (dns_queries s) i = None" and q: "query_pcb q = Some p" "p \<notin> set (udp_pcbs s)"
    and t: "dns_queries t = (i, q) # dns_queries s" "udp_pcbs t = p # udp_pcbs s"
    "lifetime_token t = lifetime_token s" "posted_tasks t = posted_tasks s" "dns_timers t = dns_timers s"
    "issued t = issued s" "called t = called s" "dropped t = dropped s" "orphaned t = orphaned s" "stranded t = stranded s"
  shows "table_view (complete_dns_query i e ip t) = table_view (post_task (RunHandler (handler q) e ip) s)"
proof -
  have "AList.delete i (dns_queries s) = dns_queries s"
    using free by (intro delete_id) (simp add: map_of_eq_None_iff)
  moreover have "filter (\<lambda>x. x \<noteq> p) (udp_pcbs s) = udp_pcbs s"
    using q(2) by (intro filter_True) auto
  ultimately show ?thesis
    using q(1) t by (simp add: complete_dns_query_def table_view_def post_task_def)
qed

lemma send_query_inv:
  assumes pre: "pending_inv (handler q) s" and p: "query_pcb q = Some p" "p \<notin> set (udp_pcbs s)"
  shows "lwip_inv (snd (send_query ans hst server q p s))"
proof (cases "map_of (dns_queries s) (query_id q) = None")
  case free: True
  let ?i = "query_id q"
  note ins = pending_inserted [OF pre free refl p]
  show ?thesis
  proof (cases "make_dns_query ?i hst (query_type q)")
    case (Inl e)
    then show ?thesis
      by (simp add: send_query_def register_query_def free Let_def)
        (rule ins [where ts = "dns_timers s" and ids = "?i # stranded s"]; auto simp: table_view_def)
  next
    case (Inr packet)
    have err: "lwip_inv (complete_dns_query ?i e None t)"
      if "dns_queries t = (?i, q) # dns_queries s" "udp_pcbs t = p # udp_pcbs s"
        "lifetime_token t = lifetime_token s" "posted_tasks t = posted_tasks s" "dns_timers t = dns_timers s"
        "issued t = issued s" "called t = called s" "dropped t = dropped s" "orphaned t = orphaned s"
        "stranded t = stranded s" for e t
      by (rule lwip_inv_view [OF complete_inserted [OF free p that, symmetric] pending_posted [OF pre]])
    have armed: "lwip_inv (t\<lparr>dns_timers := dns_timers s @ [(?i, fst (lifetime_token s), handler q)]\<rparr>)"
      if "table_view t = table_view (s\<lparr>udp_pcbs := p # udp_pcbs s, dns_queries := (?i, q) # dns_queries s\<rparr>)" for t
      using that
      by (intro ins [where ts = "dns_timers s @ [(?i, fst (lifetime_token s), handler q)]" and ids = "stranded s"])
        (auto simp: table_view_def)
    show ?thesis
      by (auto simp: send_query_def register_query_def free Inr Let_def table_view_def intro!: err armed)
  qed
next
  case taken: False
  let ?u = "s\<lparr>udp_pcbs := p # udp_pcbs s, dropped := handler q # dropped s, orphaned := handler q # orphaned s\<rparr>"
  have o: "lwip_inv t" if "table_view t = table_view ?u" for t
    by (rule lwip_inv_view [OF that [symmetric] pending_orphan [OF pre]])
  have c: "lwip_inv (complete_dns_query i e ip t)" if "table_view t = table_view ?u" for i e ip t
    by (rule complete_dns_query_inv [OF o [OF that]])
  show ?thesis
    using taken
    by (auto simp: send_query_def register_query_def Let_def split: sum.splits)
      ((rule c | rule o), simp add: table_view_def)+
qed

lemma async_resolve_inv:
  assumes inv: "lwip_inv s" and h: "h \<notin> set (issued s)"
    and p: "case new_pcb ans of None \<Rightarrow> True | Some p \<Rightarrow> p \<notin> set (udp_pcbs s)"
  shows "lwip_inv (snd (async_resolve ans hst h s))"
proof -
  define u where "u = s\<lparr>issued := h # issued s,
    lifetime_token := (if snd (lifetime_token s) then lifetime_token s else (fst (lifetime_token s) + 1, True))\<rparr>"
  have pre: "pending_inv h u"
    using inv h by (auto simp: u_def pending_inv_def lwip_inv_def accounted_def table_ok_def timers_ok_def)
  have nxt: "pending_inv h (u\<lparr>next_id := n\<rparr>)" for n
    by (rule pending_view [OF _ pre]) (simp add: table_view_def)
  have pcbs: "udp_pcbs u = udp_pcbs s" by (simp add: u_def)
  note resolve = async_resolve_def [of ans hst h s, folded u_def, unfolded Let_def]
  show ?thesis
  proof (cases "ipaddr_aton (c_str hst)")
    case (Some a)
    with pre show ?thesis by (simp add: resolve pending_posted)
  next
    case aton: None
    consider e where "dns_server u = Inl e" | "dns_server u = Inr None" | srv where "dns_server u = Inr (Some srv)"
      by (metis sum.exhaust option.exhaust)
    then show ?thesis
    proof cases
      case (3 srv)
      show ?thesis
      proof (cases "new_pcb ans")
        case None
        with 3 aton show ?thesis by (simp add: resolve pending_posted nxt)
      next
        case (Some q)
        with 3 aton p show ?thesis by (simp add: resolve send_query_inv nxt pcbs)
      qed
    qed (simp_all add: resolve aton pending_posted pending_dropped pre)
  qed
qed

lemma dns_recv_inv: "lwip_inv s \<Longrightarrow> lwip_inv (snd (dns_recv p buf s))"
  by (auto simp: dns_recv_def complete_dns_query_inv split: option.splits sum.splits)

lemma stop_inv: "lwip_inv s \<Longrightarrow> lwip_inv (LwipRuntime_stop s)"
  by (auto simp: LwipRuntime_stop_def lwip_inv_def accounted_def table_ok_def timers_ok_def owned_clear)

lemma lwip_inv_timers:
  assumes inv: "lwip_inv s"
    and keep: "\<And>i q. (i, q) \<in> set (dns_queries s) \<Longrightarrow> (i, fst (lifetime_token s), handler q) \<in> set (dns_timers s) \<Longrightarrow>
      (i, fst (lifetime_token s), handler q) \<in> set ts"
  shows "lwip_inv (s\<lparr>dns_timers := ts\<rparr>)"
  using inv keep by (fastforce simp: lwip_inv_def accounted_def table_ok_def timers_ok_def)

lemma complete_dns_query_timers:
  "complete_dns_query i e ip (s\<lparr>dns_timers := ts\<rparr>) = (complete_dns_query i e ip s)\<lparr>dns_timers := ts\<rparr>"
  "dns_timers (complete_dns_query i e ip s) = dns_timers s"
  by (simp_all add: complete_dns_query_def post_task_def split: option.splits)

lemma complete_dns_query_gone: "(i, q) \<notin> set (dns_queries (complete_dns_query i e ip s))"
  by (force simp: complete_dns_query_def post_task_def set_delete map_of_eq_None_iff split: option.splits)

lemma on_dns_timer_inv:
  assumes inv: "lwip_inv s" and n: "n < length (dns_timers s)"
    and ok: "ok \<or> snd (snd (dns_timers s ! n)) \<notin> set (table_handlers s)"
  shows "lwip_inv (on_dns_timer (dns_timers s ! n) ok
    (s\<lparr>dns_timers := take n (dns_timers s) @ drop (Suc n) (dns_timers s)\<rparr>))"
proof -
  obtain i tok h where w: "dns_timers s ! n = (i, tok, h)" by (metis prod_cases3)
  note rest = set_remove_nth [OF n, unfolded w]
  show ?thesis
  proof (cases "ok \<and> tok = fst (lifetime_token s) \<and> snd (lifetime_token s)")
    case True
    let ?t = "complete_dns_query i ERR_TIMEOUT None s"
    have "lwip_inv (?t\<lparr>dns_timers := take n (dns_timers s) @ drop (Suc n) (dns_timers s)\<rparr>)"
      using complete_dns_query_gone [of i _ ERR_TIMEOUT None s]
      by (intro lwip_inv_timers complete_dns_query_inv inv rest) (auto simp: complete_dns_query_timers)
    with True show ?thesis by (simp add: w on_dns_timer_def complete_dns_query_timers)
  next
    case False
    have "(k, fst (lifetime_token s), handler q) \<noteq> (i, tok, h)" if m: "(k, q) \<in> set (dns_queries s)" for k q
    proof -
      have "snd (lifetime_token s)" using m inv by (auto simp: lwip_inv_def timers_ok_def)
      with False ok m w show ?thesis by force
    qed
    then have "lwip_inv (s\<lparr>dns_timers := take n (dns_timers s) @ drop (Suc n) (dns_timers s)\<rparr>)"
      by (intro lwip_inv_timers inv rest) blast+
    with False show ?thesis by (auto simp: w on_dns_timer_def)
  qed
qed

lemma run_task_inv:
  assumes "lwip_inv s" "posted_tasks s = t # ts"
  shows "lwip_inv (run_task alloc t (s\<lparr>posted_tasks := ts\<rparr>))"
  using assms
  by (cases t) (auto simp: inject_l3_packet_def lwip_inv_def accounted_def table_ok_def timers_ok_def)

lemma apply_addresses_view: "table_view (snd (apply_addresses as s)) = table_view s"
  by (induction as s rule: apply_addresses.induct)
    (auto simp: table_view_def split: sum.splits)

text \<open>What the operations on the interface and on packets do not touch.\<close>

lemma table_view_simps:
  "table_view (snd (apply_tun_config_and_output config out s)) = table_view s"
  "table_view (set_packet_output o' s) = table_view s"
  "table_view (post_inject_l3_packet packet s) = table_view s"
  "table_view (snd (emit_packet p s)) = table_view s"
  "table_view (LwipRuntime_start s) = table_view s"
  "table_view (arm_timer s) = table_view s"
  "table_view (s\<lparr>next_id := n\<rparr>) = table_view s"
  "table_view (s\<lparr>tick_timers := k\<rparr>) = table_view s"
  using apply_addresses_view [of "addresses config" "s\<lparr>active_config := config,
    netif_mtu := word_of_int (if mtu config > 0 then mtu config else 1500)\<rparr>"]
  by (auto simp: table_view_def apply_tun_config_and_output_def apply_tun_config_locked_def set_packet_output_def
      post_inject_l3_packet_def post_task_def emit_packet_def LwipRuntime_start_def arm_timer_def Let_def
      split: option.splits prod.splits)

lemma lwip_handle_inv:
  assumes inv: "lwip_inv s" and en: "lwip_enabled ev s"
  shows "lwip_inv (snd (lwip_handle ev s))"
proof (cases ev)
  case (Resolve ans hst h)
  with inv en show ?thesis by (simp add: lwip_handle_def lwip_enabled_def async_resolve_inv)
next
  case (DnsRecv p buf)
  with inv show ?thesis by (simp add: lwip_handle_def dns_recv_inv)
next
  case (DnsTimer n ok)
  with inv en show ?thesis by (auto simp: lwip_handle_def lwip_enabled_def intro!: on_dns_timer_inv)
next
  case (RunPosted alloc)
  with inv en show ?thesis by (cases "posted_tasks s") (auto simp: lwip_handle_def lwip_enabled_def run_task_inv)
next
  case (Tick ok x)
  let ?s = "s\<lparr>tick_timers := tick_timers s - 1\<rparr>"
  have "lwip_inv ?s" by (rule lwip_inv_view [OF table_view_simps(8) [symmetric] inv])
  with Tick show ?thesis
    by (auto simp: lwip_handle_def on_tick_def poll_timeouts_def stop_inv split: option.splits
        intro: lwip_inv_view [OF table_view_simps(6) [symmetric]])
next
  case StopRuntime
  with inv show ?thesis by (simp add: lwip_handle_def stop_inv)
qed (auto simp: lwip_handle_def intro: lwip_inv_view [OF table_view_simps(1) [symmetric] inv]
    lwip_inv_view [OF table_view_simps(2) [symmetric] inv] lwip_inv_view [OF table_view_simps(3) [symmetric] inv]
    lwip_inv_view [OF table_view_simps(4) [symmetric] inv] lwip_inv_view [OF table_view_simps(5) [symmetric] inv]
    lwip_inv_view [OF table_view_simps(7) [symmetric] inv])

interpretation lwip_table: invariant_system lwip_init lwip_step lwip_inv
proof
  show "lwip_inv s" if "lwip_init s" for s
    using that by (auto simp: lwip_init_def LwipRuntime_new_def lwip_inv_def accounted_def table_ok_def timers_ok_def)
  show "lwip_inv t" if "lwip_inv s" "lwip_step s t" for s t
    using that(2) by (rule lwip_stepE) (metis lwip_handle_inv snd_conv that(1))
qed

section \<open>Letting the clock run\<close>

text \<open>All timers of lookups expire, then all posted tasks run.\<close>

lemma on_dns_timer_timers [simp]: "dns_timers (on_dns_timer w ok s) = dns_timers s"
  by (simp add: on_dns_timer_def complete_dns_query_timers split: prod.splits)

lemma run_task_tasks [simp]: "posted_tasks (run_task alloc t s) = posted_tasks s"
  by (cases t) (simp_all add: inject_l3_packet_def)

function fire_timers :: "LwipRuntime \<Rightarrow> LwipRuntime" where
  "fire_timers s =
     (case dns_timers s of
        [] \<Rightarrow> s
      | w # ws \<Rightarrow> fire_timers (on_dns_timer w True (s\<lparr>dns_timers := ws\<rparr>)))"
  by pat_completeness auto
termination
  by (relation "measure (\<lambda>s. length (dns_timers s))") auto

declare fire_timers.simps [simp del]

function run_tasks :: "bool \<Rightarrow> LwipRuntime \<Rightarrow> LwipRuntime" where
  "run_tasks alloc s =
     (case posted_tasks s of
        [] \<Rightarrow> s
      | t # ts \<Rightarrow> run_tasks alloc (run_task alloc t (s\<lparr>posted_tasks := ts\<rparr>)))"
  by pat_completeness auto
termination
  by (relation "measure (\<lambda>(alloc, s). length (posted_tasks s))") auto

declare run_tasks.simps [simp del]

lemma on_dns_timer_frame [simp]:
  "stranded (on_dns_timer w ok s) = stranded s" "dropped (on_dns_timer w ok s) = dropped s"
  "issued (on_dns_timer w ok s) = issued s"
  by (simp_all add: on_dns_timer_def complete_dns_query_def post_task_def split: prod.splits option.splits)

lemma run_task_frame [simp]:
  "dns_queries (run_task alloc t s) = dns_queries s" "dropped (run_task alloc t s) = dropped s"
  "issued (run_task alloc t s) = issued s"
  by (cases t; simp add: inject_l3_packet_def)+

lemma fire_timers_empties:
  "lwip_inv s \<Longrightarrow> stranded s = [] \<Longrightarrow>
   lwip_inv (fire_timers s) \<and> dns_queries (fire_timers s) = [] \<and> dropped (fire_timers s) = dropped s \<and>
   issued (fire_timers s) = issued s"
proof (induction s rule: fire_timers.induct)
  case (1 s)
  show ?case
  proof (cases "dns_timers s")
    case Nil
    with "1.prems" have "dns_queries s = []" by (cases "dns_queries s") (auto simp: lwip_inv_def timers_ok_def)
    with Nil "1.prems" show ?thesis by (simp add: fire_timers.simps [of s])
  next
    case (Cons w ws)
    have "lwip_inv (on_dns_timer w True (s\<lparr>dns_timers := ws\<rparr>))"
      using on_dns_timer_inv [OF "1.prems"(1), of 0 True] Cons by simp
    with "1.IH" [OF Cons] "1.prems" Cons show ?thesis by (simp add: fire_timers.simps [of s])
  qed
qed

lemma run_tasks_empties:
  "lwip_inv s \<Longrightarrow>
   lwip_inv (run_tasks alloc s) \<and> posted_tasks (run_tasks alloc s) = [] \<and>
   dns_queries (run_tasks alloc s) = dns_queries s \<and> dropped (run_tasks alloc s) = dropped s \<and>
   issued (run_tasks alloc s) = issued s"
proof (induction alloc s rule: run_tasks.induct)
  case (1 alloc s)
  show ?case
  proof (cases "posted_tasks s")
    case Nil
    with "1.prems" show ?thesis by (simp add: run_tasks.simps [of _ s])
  next
    case (Cons t ts)
    with "1.IH" [OF Cons run_task_inv [OF "1.prems" Cons]] show ?thesis by (simp add: run_tasks.simps [of _ s])
  qed
qed

end
