(* ===== verification/LwipRuntimeProperties.thy ===== *)
theory LwipRuntimeProperties
  imports LwipRuntime "HOL-Library.Code_Target_Nat"
begin

unbundle bit_operations_syntax

text \<open>The properties of the network interface and of its lookup table, with runs as witnesses.\<close>

section \<open>Netmasks\<close>

text \<open>
  lwIP's own test of a netmask, \<^verbatim>\<open>ip4_addr_netmask_valid\<close>: a walk over the bits from the
  highest to the first zero, and from there on in search of a one.
\<close>

lemma drop_bit_less:
  assumes "(m :: u32) \<noteq> 0"
  shows "unat (drop_bit (Suc 0) m) < unat m"
proof -
  have "unat (drop_bit (Suc 0) m) = unat m div 2" by (simp add: drop_bit_Suc unat_div)
  moreover have "0 < unat m" using assms by (simp add: unat_gt_0)
  ultimately show ?thesis by linarith
qed

function first_zero :: "u32 \<Rightarrow> u32 \<Rightarrow> u32" where
  "first_zero nm m = (if m = 0 then 0 else if nm AND m = 0 then m else first_zero nm (drop_bit 1 m))"
  by pat_completeness auto
termination
  by (relation "measure (\<lambda>(nm, m). unat m)") (auto simp: drop_bit_less)

function no_ones :: "u32 \<Rightarrow> u32 \<Rightarrow> bool" where
  "no_ones nm m = (if m = 0 then True else if nm AND m \<noteq> 0 then False else no_ones nm (drop_bit 1 m))"
  by pat_completeness auto
termination
  by (relation "measure (\<lambda>(nm, m). unat m)") (auto simp: drop_bit_less)

declare first_zero.simps [simp del] no_ones.simps [simp del]

definition ip4_addr_netmask_valid :: "u32 \<Rightarrow> bool" where
  "ip4_addr_netmask_valid netmask =
     (let nm = lwip_htonl netmask in no_ones nm (first_zero nm (push_bit 31 1)))"

lemma and_bit_zero: "(nm :: u32) AND push_bit k 1 = 0 \<longleftrightarrow> k \<ge> 32 \<or> \<not> bit nm k"
proof -
  have b: "bit (nm AND push_bit k 1) n \<longleftrightarrow> bit nm k \<and> n = k \<and> k < 32" for n
    by (auto simp: bit_simps dest: bit_imp_le_length)
  show ?thesis
  proof (cases "k < 32 \<and> bit nm k")
    case True
    then have "bit (nm AND push_bit k 1) k" using b by blast
    then have "nm AND push_bit k 1 \<noteq> 0" by (metis bit_0_eq bot_apply bot_bool_def)
    with True show ?thesis by simp
  next
    case False
    then have "nm AND push_bit k 1 = 0" by (intro bit_word_eqI) (use b in auto)
    with False show ?thesis by auto
  qed
qed

lemma drop_push_Suc: "drop_bit 1 (push_bit (Suc k) 1 :: u32) = (if Suc k < 32 then push_bit k 1 else 0)"
  by (rule bit_eqI) (auto simp: bit_simps)

lemma push_bit_nonzero: "k < 32 \<Longrightarrow> (push_bit k 1 :: u32) \<noteq> 0"
  using and_bit_zero [of "- 1" k] by auto

lemma no_ones_bits: "k < 32 \<Longrightarrow> no_ones nm (push_bit k 1) \<longleftrightarrow> (\<forall>j\<le>k. \<not> bit nm j)"
proof (induction k)
  case 0
  then show ?case
    by (simp add: no_ones.simps [of nm 1] no_ones.simps [of nm 0] and_bit_zero [of nm 0, simplified])
next
  case (Suc k)
  have "no_ones nm (push_bit (Suc k) 1) \<longleftrightarrow> \<not> bit nm (Suc k) \<and> no_ones nm (push_bit k 1)"
    using Suc.prems push_bit_nonzero [OF Suc.prems] and_bit_zero [of nm "Suc k"]
    by (subst no_ones.simps) (simp only: drop_push_Suc, auto)
  with Suc show ?case by (auto simp: le_Suc_eq)
qed

lemma first_zero_bits:
  "k < 32 \<Longrightarrow> \<forall>j\<le>k. bit nm j \<longleftrightarrow> z \<le> j \<Longrightarrow>
   first_zero nm (push_bit k 1) = (if z = 0 then 0 else if z \<le> k then push_bit (z - 1) 1 else push_bit k 1)"
proof (induction k)
  case 0
  then show ?case
    using and_bit_zero [of nm 0]
    by (auto simp: first_zero.simps [of nm 1] first_zero.simps [of nm 0])
next
  case (Suc k)
  have "first_zero nm (push_bit (Suc k) 1) =
      (if bit nm (Suc k) then first_zero nm (push_bit k 1) else push_bit (Suc k) 1)"
    using Suc.prems push_bit_nonzero [OF Suc.prems(1)] and_bit_zero [of nm "Suc k"]
    by (subst first_zero.simps) (simp only: drop_push_Suc, auto)
  moreover have "first_zero nm (push_bit k 1) =
      (if z = 0 then 0 else if z \<le> k then push_bit (z - 1) 1 else push_bit k 1)"
    using Suc by (intro Suc.IH) auto
  ultimately show ?case using Suc.prems by (auto simp: le_Suc_eq)
qed

lemma netmask_valid_bits:
  assumes "\<And>j. j < 32 \<Longrightarrow> bit (lwip_htonl m) j \<longleftrightarrow> z \<le> j"
  shows "ip4_addr_netmask_valid m"
proof -
  have "first_zero (lwip_htonl m) (push_bit 31 1) =
      (if z = 0 then 0 else if z \<le> 31 then push_bit (z - 1) 1 else push_bit 31 1)"
    using assms by (intro first_zero_bits) auto
  then show ?thesis
    using assms no_ones_bits [of "z - 1" "lwip_htonl m"] no_ones_bits [of 31 "lwip_htonl m"]
    by (auto simp: ip4_addr_netmask_valid_def no_ones.simps [of _ 0])
qed

lemma mem_bytes_makeu32_ex: "\<exists>a b c d. w = LWIP_MAKEU32 a b c d"
  using mem_bytes_makeu32 mem_bytes_inject mem_bytes_4 [of w] by metis

lemma mem_bytes_htonl_rev: "mem_bytes (lwip_htonl w) = rev (mem_bytes w)"
  using mem_bytes_makeu32_ex [of w] by (auto simp: mem_bytes_makeu32)

lemma lwip_htonl_htonl: "lwip_htonl (lwip_htonl w) = w"
  by (simp add: mem_bytes_inject [symmetric] mem_bytes_htonl_rev)

text \<open>
  (C40) A prefix length from 0 to 32 becomes a netmask with exactly that many leading ones, which
  lwIP accepts; every other length is refused with an exception.
\<close>

theorem prefix_to_netmask_exact:
  "case prefix_to_netmask prefix of
     Inl e \<Rightarrow> (prefix < 0 \<or> 32 < prefix) \<and> e = RuntimeError ''invalid IPv4 prefix length''
   | Inr m \<Rightarrow> 0 \<le> prefix \<and> prefix \<le> 32 \<and> ip4_addr_netmask_valid m \<and>
       card {j. bit (lwip_htonl m) j} = nat prefix"
proof (cases "prefix < 0 \<or> 32 < prefix")
  case True
  then show ?thesis by (auto simp: prefix_to_netmask_def)
next
  case False
  define z where "z = nat (32 - prefix)"
  define m :: u32 where "m = (if prefix = 0 then 0 else push_bit (nat (32 - prefix)) 0xffffffff)"
  have bits: "bit m j \<longleftrightarrow> z \<le> j \<and> j < 32" for j
  proof (cases "prefix = 0")
    case True
    then show ?thesis by (simp add: m_def z_def)
  next
    case False
    then have "m = push_bit z 0xffffffff" by (simp add: m_def z_def)
    moreover have "(0xffffffff :: u32) = - 1" by simp
    ultimately have "m = push_bit z (- 1)" by simp
    then show ?thesis by (auto simp: bit_not_iff bit_mask_iff)
  qed
  have "{j. bit m j} = {z..<32}" by (simp only: bits) auto
  moreover have "32 - z = nat prefix" unfolding z_def using False by linarith
  ultimately have "card {j. bit m j} = nat prefix" by simp
  moreover have "ip4_addr_netmask_valid (lwip_htonl m)"
    by (rule netmask_valid_bits [of _ z]) (simp only: lwip_htonl_htonl bits simp_thms)
  moreover have "prefix_to_netmask prefix = Inr (lwip_htonl m)"
    using False by (simp add: prefix_to_netmask_def m_def Let_def)
  ultimately show ?thesis using False by (simp add: lwip_htonl_htonl)
qed

section \<open>Runs\<close>

definition lwip_after :: "lwip_event list \<Rightarrow> (LwipRuntime \<Rightarrow> bool) \<Rightarrow> bool" where
  "lwip_after evs P = (case run_lwip evs (LwipRuntime_new 1) of None \<Rightarrow> False | Some s \<Rightarrow> P s)"

lemma lwip_afterE:
  assumes "lwip_after evs P"
  obtains s where "lwip_reachable s" and "P s"
proof -
  have "lwip_reachable (LwipRuntime_new 1)" by (rule reach_init) (auto simp: lwip_init_def)
  with assms that show ?thesis
    by (auto simp: lwip_after_def split: option.splits dest: run_lwip_reachable)
qed

definition example_tun :: TunConfig where
  "example_tun = \<lparr>addresses = [], ipv4_dns = [''9''], ipv6_dns = [], mtu = 1500\<rparr>"

definition example_answers :: "nat \<Rightarrow> dns_answers" where
  "example_answers p = \<lparr>new_pcb = Some p, pbuf_ok = True, send_result = ERR_OK\<rparr>"

text \<open>One lookup is sent; the next one has an empty label.\<close>

definition example_lookup :: "lwip_event list" where
  "example_lookup = [ApplyConfig example_tun 0, Resolve (example_answers 7) ''b'' 100]"

definition example_bad_name :: "lwip_event list" where
  "example_bad_name = [ApplyConfig example_tun 0, Resolve (example_answers 7) ''.'' 100]"

lemma example_lookup_run:
  "lwip_after example_lookup (\<lambda>s. issued s = [100] \<and> called s = [] \<and> udp_pcbs s = [7] \<and> orphaned s = [] \<and>
     stranded s = [] \<and> dropped s = [])"
  by code_simp

lemma example_bad_name_run:
  "lwip_after example_bad_name (\<lambda>s. table_handlers s = [100] \<and> dns_timers s = [] \<and> posted_tasks s = [] \<and> udp_pcbs s = [7])"
  by code_simp

lemma example_collision_run:
  "lwip_after (example_bad_name @ [OtherLookups 65535, Resolve (example_answers 8) ''b'' 101])
     (\<lambda>s. 8 \<in> set (udp_pcbs s) \<and> fst (dns_recv 8 (Some [[0]]) s) = Some UseAfterFree)"
  by code_simp

section \<open>Lookups\<close>

text \<open>
  (C6) No lookup handler is lost or called twice: in every reachable state the handlers passed
  to \<^verbatim>\<open>async_resolve\<close> are split without overlap into those in the table, those posted,
  those already called and those destroyed.
\<close>

theorem lookup_handlers_once:
  assumes "lwip_reachable s"
  shows "distinct (table_handlers s @ posted_handlers (posted_tasks s) @ map fst (called s) @ dropped s) \<and>
    set (issued s) = set (table_handlers s @ posted_handlers (posted_tasks s) @ map fst (called s) @ dropped s)"
proof -
  let ?parts = "table_handlers s @ posted_handlers (posted_tasks s) @ map fst (called s) @ dropped s"
  have "accounted s" using lwip_table.reachable_invariant [OF assms] by (simp add: lwip_inv_def)
  then have "distinct (issued s)" "mset (issued s) = mset ?parts" by (simp_all add: accounted_def)
  then show ?thesis by (metis mset_eq_imp_distinct_iff mset_eq_setD)
qed

theorem lookup_handlers_once_witness:
  "\<exists>s. lwip_reachable s \<and> issued s = [100] \<and> distinct (table_handlers s @ posted_handlers (posted_tasks s) @
     map fst (called s) @ dropped s)"
proof -
  obtain s where r: "lwip_reachable s" "issued s = [100]" using example_lookup_run by (rule lwip_afterE) blast
  with lookup_handlers_once [OF r(1)] show ?thesis by blast
qed

text \<open>
  (C12) Lookups are answered: in a state in which no exception has left a query in the table
  without a timer (\<open>stranded\<close> is empty; a name with an illegal label does that), letting the timers
  expire and the posted tasks run empties the table, and every handler has been called or was
  destroyed before, by \<^verbatim>\<open>stop\<close> or by an exception.
\<close>

theorem lookups_answered:
  assumes "lwip_reachable s" "stranded s = []"
  shows "dns_queries (run_tasks alloc (fire_timers s)) = [] \<and>
    set (issued s) = fst ` set (called (run_tasks alloc (fire_timers s))) \<union> set (dropped s)"
proof -
  have "lwip_inv s" using assms(1) by (rule lwip_table.reachable_invariant)
  then have f: "lwip_inv (fire_timers s) \<and> dns_queries (fire_timers s) = [] \<and>
      dropped (fire_timers s) = dropped s \<and> issued (fire_timers s) = issued s"
    using assms(2) by (rule fire_timers_empties)
  then have r: "lwip_inv (run_tasks alloc (fire_timers s)) \<and> posted_tasks (run_tasks alloc (fire_timers s)) = [] \<and>
      dns_queries (run_tasks alloc (fire_timers s)) = [] \<and> dropped (run_tasks alloc (fire_timers s)) = dropped s \<and>
      issued (run_tasks alloc (fire_timers s)) = issued s"
    using run_tasks_empties [of "fire_timers s" alloc] by simp
  then have "mset (issued s) = mset (map fst (called (run_tasks alloc (fire_timers s)))) + mset (dropped s)"
    by (auto simp: lwip_inv_def accounted_def)
  then have "set (issued s) = set (map fst (called (run_tasks alloc (fire_timers s))) @ dropped s)"
    by (metis mset_append mset_eq_setD)
  with r show ?thesis by simp
qed

theorem lookups_answered_witness:
  "\<exists>s. lwip_reachable s \<and> called s = [] \<and> fst ` set (called (run_tasks True (fire_timers s))) = {100}"
proof -
  obtain s where r: "lwip_reachable s" "issued s = [100]" "called s = []" "stranded s = []" "dropped s = []"
    using example_lookup_run by (rule lwip_afterE) blast
  with lookups_answered [OF r(1,4), of True] show ?thesis by auto
qed

text \<open>A lookup leaves with \<^verbatim>\<open>std::runtime_error\<close> or not at all.\<close>

lemma dns_labels_raises: "dns_labels s = Inl e \<Longrightarrow> \<exists>m. e = RuntimeError m"
proof (induction s rule: dns_labels.induct)
  case (1 s)
  from "1.prems" show ?case
    by (subst (asm) dns_labels.simps) (auto simp: Let_def split: if_splits sum.splits dest: "1.IH" [OF _ refl refl])
qed

lemma async_resolve_raises:
  assumes "async_resolve ans hst h l = (Some x, l')"
  shows "\<exists>m. x = RuntimeError m"
proof -
  have q: "\<exists>m. e = RuntimeError m" if "make_dns_query i hst t = Inl e" for i t e
    using that by (auto simp: make_dns_query_def bind_result_def Let_def split: sum.splits dest: dns_labels_raises)
  have "\<exists>m. e = RuntimeError m" if "dns_server s = Inl e" for s e
    using that by (auto simp: dns_server_def bind_result_def parse_ip_addr_def split: list.splits option.splits sum.splits)
  with assms q show ?thesis
    by (auto simp: async_resolve_def send_query_def Let_def split: option.splits sum.splits if_splits)
qed

lemma dns_recv_finds:
  assumes "lwip_inv s" "orphaned s = []" "p \<in> set (udp_pcbs s)"
  shows "\<exists>t. dns_recv p (Some buf) s = (None, t) \<and> length (dns_queries t) < length (dns_queries s)"
proof -
  have inv: "lwip_inv s" by (rule assms(1))
  then have "pcbs_owned query_pcb (dns_queries s) (udp_pcbs s)"
    using assms(2) by (simp add: lwip_inv_def table_ok_def)
  then obtain i q where f: "find (\<lambda>(i, q). query_pcb q = Some p) (dns_queries s) = Some (i, q)"
    and "(i, q) \<in> set (dns_queries s)"
    using assms(3) by (rule owner_found)
  then have i: "query_id q = i" and map: "map_of (dns_queries s) i = Some q"
    using inv by (auto simp: lwip_inv_def table_ok_def owns_pcbs_def)
  obtain ip where ip: "parse_dns_response (pbuf_copy_partial buf (tot_len buf) 0) i (query_type q) = Inr ip"
    using parse_dns_response_total by blast
  have "mset (dns_queries s) = add_mset (i, q) (mset (AList.delete i (dns_queries s)))"
    using inv map by (intro delete_mset) (auto simp: lwip_inv_def table_ok_def owns_pcbs_def)
  then have "length (AList.delete i (dns_queries s)) < length (dns_queries s)"
    by (metis lessI size_add_mset size_mset)
  with f i ip map show ?thesis by (simp add: dns_recv_def complete_dns_query_def post_task_def)
qed

text \<open>
  (C24) The receive callback finds its query: while no query was refused by the table for having
  the id of another one, a datagram for a registered control block is handled without touching
  a destroyed query, and it takes the query out of the table.
\<close>

theorem dns_callback_safe:
  assumes "lwip_reachable s" "orphaned s = []" "p \<in> set (udp_pcbs s)"
  shows "\<exists>t. dns_recv p (Some buf) s = (None, t) \<and> length (dns_queries t) < length (dns_queries s)"
  using dns_recv_finds [OF lwip_table.reachable_invariant [OF assms(1)] assms(2,3)] .

theorem dns_callback_safe_witness:
  "\<exists>s t. lwip_reachable s \<and> dns_recv 7 (Some [[0]]) s = (None, t) \<and> length (dns_queries t) < length (dns_queries s)"
proof -
  obtain s where r: "lwip_reachable s" "udp_pcbs s = [7]" "orphaned s = []"
    using example_lookup_run by (rule lwip_afterE) blast
  from r(2) have "7 \<in> set (udp_pcbs s)" by simp
  from dns_callback_safe [OF r(1,3) this, of "[[0]]"] r(1) show ?thesis by blast
qed

text \<open>
  A name with an empty or an overlong label raises after the query entered the table: the
  query stays there with its control block, without a timer and with nothing posted, so its
  handler is never called.
\<close>

theorem bad_name_strands_lookup:
  "\<exists>s. lwip_reachable s \<and> table_handlers s = [100] \<and> dns_timers s = [] \<and> posted_tasks s = [] \<and> udp_pcbs s \<noteq> []"
  using example_bad_name_run by (rule lwip_afterE) auto

text \<open>
  When the 16-bit ids wrap around to one that is still in the table, the new query is
  destroyed but its control block keeps the callback: the next datagram reads freed memory.
\<close>

theorem id_collision_use_after_free:
  "\<exists>s p. lwip_reachable s \<and> lwip_enabled (DnsRecv p (Some [[0]])) s \<and>
     fst (lwip_handle (DnsRecv p (Some [[0]])) s) = Some UseAfterFree"
proof -
  obtain s where "lwip_reachable s" "8 \<in> set (udp_pcbs s)" "fst (dns_recv 8 (Some [[0]]) s) = Some UseAfterFree"
    using example_collision_run by (rule lwip_afterE) blast
  then show ?thesis by (intro exI [of _ s] exI [of _ 8]) (simp add: lwip_enabled_def lwip_handle_def)
qed

section \<open>Interface\<close>

text \<open>
  A packet the stack sends reaches the tunnel whole and once: for a well-formed chain of
  buffers and an installed output, the bytes of the chain are handed over.
\<close>

theorem emit_packet_exact:
  assumes "pbuf_wf p" "packet_output s = Some out"
  shows "emit_packet p s = (ERR_OK, s\<lparr>netif_outputs := netif_outputs s @ [(out, concat p)]\<rparr>)"
  using assms by (simp add: emit_packet_def pbuf_copy_partial_all Let_def) (simp add: tot_len_def)

theorem emit_packet_exact_witness:
  "fst (emit_packet [[1, 2], [3]] ((LwipRuntime_new 1)\<lparr>packet_output := Some 5\<rparr>)) = ERR_OK"
  using emit_packet_exact [of "[[1, 2], [3]]" "(LwipRuntime_new 1)\<lparr>packet_output := Some 5\<rparr>" 5]
  by (simp add: pbuf_wf_def)

end
