(* ===== verification/LwipNtoa.thy ===== *)
theory LwipNtoa
  imports LwipIpAddr
begin

unbundle bit_operations_syntax

text \<open>
  Text of an address of either family, \<^verbatim>\<open>ipaddr_ntoa\<close> of
  \<^verbatim>\<open>src/third_party/lwip/src/core/ip.c\<close> and \<^verbatim>\<open>ip6addr_ntoa_r\<close> of
  \<^verbatim>\<open>core/ipv6/ip6_addr.c\<close>. The result is \<open>OutOfBounds\<close> where the code reads the word
  behind the address, and \<open>None\<close> where it returns a null pointer.
\<close>

definition lwip_xchar :: "u32 \<Rightarrow> char" where
  "lwip_xchar v = (if v < 10 then char_of (48 + unat v) else char_of (55 + unat v))"

text \<open>The 16-bit block number \<open>i\<close> of an address.\<close>

definition ip6_block :: "u32 list \<Rightarrow> nat \<Rightarrow> u32" where
  "ip6_block ws i = (let v = lwip_htonl (ws ! (i div 2)) in (if even i then drop_bit 16 v else v) AND 0xffff)"

definition hex_block :: "u32 \<Rightarrow> string" where
  "hex_block v =
     map lwip_xchar
       (dropWhile (\<lambda>n. n = 0)
          [drop_bit 12 (v AND 0xf000), drop_bit 8 (v AND 0xf00), drop_bit 4 (v AND 0xf0)] @ [v AND 0xf])"

text \<open>After each character the code returns null when the buffer is full.\<close>

definition put_text :: "nat \<Rightarrow> string \<Rightarrow> string \<Rightarrow> string option" where
  "put_text buflen buf cs = (if length buf + length cs < buflen then Some (buf @ cs) else None)"

function ntoa6_loop :: "u32 list \<Rightarrow> nat \<Rightarrow> nat \<Rightarrow> nat \<Rightarrow> string \<Rightarrow> string option result" where
  "ntoa6_loop ws buflen i empty_flag buf =
     (if i \<ge> 8 then Inr (Some buf)
      else
        let v = ip6_block ws i
        in if v = 0 \<and> i = 7 \<and> empty_flag = 1 then Inr (put_text buflen buf '':'')
           else if v = 0 \<and> empty_flag = 0 \<and> i = 7 then Inl OutOfBounds
           else if v = 0 \<and> empty_flag = 0 \<and> ip6_block ws (i + 1) = 0 then
             (case put_text buflen buf '':'' of
                None \<Rightarrow> Inr None
              | Some b \<Rightarrow> ntoa6_loop ws buflen (i + 1) 1 b)
           else if v = 0 \<and> empty_flag = 1 then ntoa6_loop ws buflen (i + 1) empty_flag buf
           else
             (case put_text buflen buf ((if i > 0 then '':'' else '''') @ hex_block v) of
                None \<Rightarrow> Inr None
              | Some b \<Rightarrow>
                  ntoa6_loop ws buflen (i + 1) (if v \<noteq> 0 \<and> empty_flag = 1 then 2 else empty_flag) b))"
  by pat_completeness auto
termination
  by (relation "measure (\<lambda>(ws, buflen, i, empty_flag, buf). 8 - i)") auto

declare ntoa6_loop.simps [simp del]

definition ip6_addr_isipv4mappedipv6 :: "u32 list \<Rightarrow> bool" where
  "ip6_addr_isipv4mappedipv6 ws \<longleftrightarrow> ws ! 0 = 0 \<and> ws ! 1 = 0 \<and> ws ! 2 = lwip_htonl 0x0000FFFF"

definition ip6addr_ntoa_r :: "u32 list \<Rightarrow> nat \<Rightarrow> string option result" where
  "ip6addr_ntoa_r ws buflen =
     (if ip6_addr_isipv4mappedipv6 ws then
        (if buflen < 8 then Inr None
         else Inr (map_option (\<lambda>t. ''::FFFF:'' @ t) (ip4addr_ntoa_r (ws ! 3) (buflen - 7))))
      else ntoa6_loop ws buflen 0 0 [])"

fun ipaddr_ntoa :: "ip_addr_t \<Rightarrow> string option result" where
  "ipaddr_ntoa (IP_V4 w) = Inr (ip4addr_ntoa w)"
| "ipaddr_ntoa (IP_V6 w0 w1 w2 w3) = ip6addr_ntoa_r [w0, w1, w2, w3] 40"

text \<open>An IPv4 address always has a text, and it is the dotted one.\<close>

lemma ipaddr_ntoa_v4:
  "ipaddr_ntoa (IP_V4 w) = Inr (Some (ipv4_text (mem_bytes w ! 0) (mem_bytes w ! 1) (mem_bytes w ! 2) (mem_bytes w ! 3)))"
  by (simp add: ip4addr_ntoa_text mem_bytes_4 [symmetric])

text \<open>An address that ends in a single zero block makes the code read behind it.\<close>

lemma hex_block_length: "length (hex_block v) \<le> 4"
  by (simp add: hex_block_def)

lemma ntoa6_loop_behind:
  assumes "list_all (\<lambda>j. ip6_block ws j \<noteq> 0) [i..<7]" "ip6_block ws 7 = 0" "i \<le> 7" "length buf + 5 * (7 - i) < buflen"
  shows "ntoa6_loop ws buflen i 0 buf = Inl OutOfBounds"
  using assms
proof (induction "7 - i" arbitrary: i buf)
  case 0
  then show ?case by (simp add: ntoa6_loop.simps)
next
  case (Suc n)
  let ?t = "(if i > 0 then '':'' else '''') @ hex_block (ip6_block ws i)"
  have i: "i < 7" "ip6_block ws i \<noteq> 0" "list_all (\<lambda>j. ip6_block ws j \<noteq> 0) [Suc i..<7]"
    using Suc.hyps(2) Suc.prems(1) by (auto simp: upt_conv_Cons)
  have l: "length ?t \<le> 5" using hex_block_length [of "ip6_block ws i"] by (cases "i = 0") simp_all
  have "5 * (7 - i) = 5 + 5 * (7 - Suc i)" using i(1) by simp
  with l Suc.prems(4) have "length (buf @ ?t) + 5 * (7 - Suc i) < buflen" by simp
  then have "ntoa6_loop ws buflen (Suc i) 0 (buf @ ?t) = Inl OutOfBounds" and "put_text buflen buf ?t = Some (buf @ ?t)"
    using Suc.hyps(1) [of "Suc i" "buf @ ?t"] Suc.hyps(2) Suc.prems(2) i by (simp_all add: put_text_def)
  with i show ?case by (subst ntoa6_loop.simps) (simp add: Let_def)
qed

lemma ipaddr_ntoa_behind:
  assumes "list_all (\<lambda>j. ip6_block [w0, w1, w2, w3] j \<noteq> 0) [0..<7]" "ip6_block [w0, w1, w2, w3] 7 = 0"
  shows "ipaddr_ntoa (IP_V6 w0 w1 w2 w3) = Inl OutOfBounds"
proof -
  have "ip6_block [w0, w1, w2, w3] 0 \<noteq> 0" using assms(1) by (simp add: list_all_iff)
  then have "w0 \<noteq> 0" by (auto simp: ip6_block_def lwip_htonl_def)
  with ntoa6_loop_behind [OF assms] show ?thesis by (simp add: ip6addr_ntoa_r_def ip6_addr_isipv4mappedipv6_def)
qed

end
