(* ===== verification/UdpRelaySession.thy ===== *)
theory UdpRelaySession
  imports SsAddress LwipTypes LwipNtoa PcbTable
begin

text \<open>
  The UDP relay of an instance, \<^verbatim>\<open>src/src/UdpRelaySession.cpp\<close>: datagrams of Shadowsocks
  clients are decrypted and sent through a UDP control block of the stack, one block for each
  pair of client and target; datagrams received on a block go back to its client.

  The object is the record \<open>UdpRelaySession\<close>; beside its members it has the operations that
  are in flight (receives, lookups, waits on idle timers), the control blocks with a registered
  callback, and the datagrams sent to the stack and to the clients. An endpoint is the text of
  its address, as \<^verbatim>\<open>address().to_string()\<close> gives it, and its port.
\<close>

section \<open>State\<close>

record endpoint =
  ep_address :: string
  ep_port :: u16

text \<open>\<open>serial\<close> is the wait the idle timer of the mapping is armed with.\<close>

record Mapping =
  client :: endpoint
  target :: TargetAddress
  key :: string
  mapping_pcb :: "nat option"
  serial :: nat

text \<open>A lookup in flight: what its handler captured.\<close>

record udp_lookup =
  lookup_token :: "nat option"
  lookup_payload :: bytes
  lookup_client :: endpoint
  lookup_target :: TargetAddress

text \<open>
  The lifetime token is the number of the current one; the one it points to is true, all
  earlier ones are false.
\<close>

record UdpRelaySession =
  udp_crypto :: ShadowsocksAeadFactory
  mappings :: "(string \<times> Mapping) list"
  udp_token :: "nat option"
  next_token :: nat
  udp_running :: bool
  socket_open :: bool
  receives :: nat
  lookups :: "udp_lookup list"
  idle_waits :: "(string \<times> nat) list"
  next_serial :: nat
  callbacks :: "nat list"
  to_stack :: "(nat \<times> bytes \<times> ip_addr_t \<times> u16) list"
  to_clients :: "(endpoint \<times> bytes) list"

definition UdpRelaySession_new :: "ShadowsocksAeadFactory \<Rightarrow> UdpRelaySession" where
  "UdpRelaySession_new f =
     \<lparr>udp_crypto = f, mappings = [], udp_token = Some 0, next_token = 1, udp_running = False, socket_open = True,
      receives = 0, lookups = [], idle_waits = [], next_serial = 0, callbacks = [], to_stack = [], to_clients = []\<rparr>"

section \<open>Mappings\<close>

definition mapping_key :: "endpoint \<Rightarrow> TargetAddress \<Rightarrow> string" where
  "mapping_key c t =
     ep_address c @ '':'' @ dec_string (unat (ep_port c)) @ ''|'' @ host t @ '':'' @ dec_string (unat (port t))"

definition parse_ip :: "string \<Rightarrow> ip_addr_t result" where
  "parse_ip h =
     (case ipaddr_aton (c_str h) of
        None \<Rightarrow> Inl (RuntimeError (''invalid UDP target IP: '' @ h))
      | Some ip \<Rightarrow> Inr ip)"

text \<open>\<open>new_pcb\<close> is what \<^verbatim>\<open>udp_new_pcb\<close> returns. The result is the entry that is found or made.\<close>

definition mapping_for ::
  "nat option \<Rightarrow> endpoint \<Rightarrow> TargetAddress \<Rightarrow> UdpRelaySession \<Rightarrow> Mapping result \<times> UdpRelaySession" where
  "mapping_for new_pcb c t s =
     (let k = mapping_key c t
      in case map_of (mappings s) k of
           Some m \<Rightarrow> (Inr m, s)
         | None \<Rightarrow>
             (case new_pcb of
                None \<Rightarrow> (Inl (RuntimeError ''udp_new failed''), s)
              | Some p \<Rightarrow>
                  (let m = \<lparr>client = c, target = t, key = k, mapping_pcb = Some p, serial = next_serial s\<rparr>
                   in (Inr m, s\<lparr>callbacks := p # callbacks s, mappings := (k, m) # mappings s\<rparr>))))"

text \<open>Arming the timer replaces the wait it was armed with; the old wait completes with an error.\<close>

definition arm_idle_timer :: "string \<Rightarrow> UdpRelaySession \<Rightarrow> UdpRelaySession" where
  "arm_idle_timer k s =
     s\<lparr>mappings := map (\<lambda>(k', m). (k', if k' = k then m\<lparr>serial := next_serial s\<rparr> else m)) (mappings s),
       idle_waits := (k, next_serial s) # idle_waits s,
       next_serial := next_serial s + 1\<rparr>"

definition erase_mapping :: "string \<Rightarrow> UdpRelaySession \<Rightarrow> UdpRelaySession" where
  "erase_mapping k s =
     (case map_of (mappings s) k of
        None \<Rightarrow> s
      | Some m \<Rightarrow>
          s\<lparr>callbacks := filter (\<lambda>p. Some p \<noteq> mapping_pcb m) (callbacks s),
            mappings := AList.delete k (mappings s)\<rparr>)"

section \<open>From the clients\<close>

record udp_answers =
  udp_new :: "nat option"
  udp_pbuf_ok :: bool
  udp_resolve :: "exn option"

text \<open>\<^verbatim>\<open>catch (...) {}\<close>: what remains is undefined behaviour.\<close>

definition swallow :: "exn \<Rightarrow> exn option" where
  "swallow e = (if is_ub e then Some e else None)"

definition send_payload_to_ip ::
  "udp_answers \<Rightarrow> bytes \<Rightarrow> endpoint \<Rightarrow> TargetAddress \<Rightarrow> ip_addr_t \<Rightarrow> UdpRelaySession \<Rightarrow> exn option \<times> UdpRelaySession" where
  "send_payload_to_ip ans payload c t ip s =
     (case mapping_for (udp_new ans) c t s of
        (Inl e, s1) \<Rightarrow> (swallow e, s1)
      | (Inr m, s1) \<Rightarrow>
          (let s2 = arm_idle_timer (key m) s1
           in if \<not> udp_pbuf_ok ans then (None, s2)
              else case mapping_pcb m of
                None \<Rightarrow> (Some UseAfterFree, s2)
              | Some p \<Rightarrow>
                  (None, s2\<lparr>to_stack := to_stack s2 @
                     [(p, take (unat (word_of_nat (length payload) :: u16)) payload, ip, port t)]\<rparr>)))"

definition resolve_domain_then_send ::
  "udp_answers \<Rightarrow> bytes \<Rightarrow> endpoint \<Rightarrow> TargetAddress \<Rightarrow> UdpRelaySession \<Rightarrow> exn option \<times> UdpRelaySession" where
  "resolve_domain_then_send ans payload c t s =
     (case udp_resolve ans of
        Some e \<Rightarrow> (Some e, s)
      | None \<Rightarrow>
          (None, s\<lparr>lookups := lookups s @
             [\<lparr>lookup_token = udp_token s, lookup_payload = payload, lookup_client = c, lookup_target = t\<rparr>]\<rparr>))"

definition on_udp_resolved ::
  "udp_answers \<Rightarrow> udp_lookup \<Rightarrow> err_t \<Rightarrow> ip_addr_t option \<Rightarrow> UdpRelaySession \<Rightarrow> exn option \<times> UdpRelaySession" where
  "on_udp_resolved ans l err ip s =
     (case ip of
        None \<Rightarrow> (None, s)
      | Some a \<Rightarrow>
          if lookup_token l = None \<or> lookup_token l \<noteq> udp_token s \<or> \<not> udp_running s \<or> err \<noteq> ERR_OK then (None, s)
          else send_payload_to_ip ans (lookup_payload l) (lookup_client l) (lookup_target l) a s)"

definition send_to_lwip ::
  "mbedtls \<Rightarrow> udp_answers \<Rightarrow> bytes \<Rightarrow> endpoint \<Rightarrow> UdpRelaySession \<Rightarrow> exn option \<times> UdpRelaySession" where
  "send_to_lwip c ans datagram cl s =
     (case decrypt_udp_packet c (make_session (udp_crypto s)) datagram of
        Inl e \<Rightarrow> (swallow e, s)
      | Inr None \<Rightarrow> (None, s)
      | Inr (Some plain) \<Rightarrow>
          (case parse_ss_address plain of
             Inl e \<Rightarrow> (swallow e, s)
           | Inr (None, _) \<Rightarrow> (None, s)
           | Inr (Some t, payload) \<Rightarrow>
               if addr_type t = Domain then
                 (case resolve_domain_then_send ans payload cl t s of
                    (Some e, s1) \<Rightarrow> (swallow e, s1)
                  | (None, s1) \<Rightarrow> (None, s1))
               else
                 (case parse_ip (host t) of
                    Inl e \<Rightarrow> (swallow e, s)
                  | Inr ip \<Rightarrow> send_payload_to_ip ans payload cl t ip s)))"

definition receive_loop :: "UdpRelaySession \<Rightarrow> UdpRelaySession" where
  "receive_loop s = (if udp_running s then s\<lparr>receives := receives s + 1\<rparr> else s)"

definition on_received ::
  "mbedtls \<Rightarrow> udp_answers \<Rightarrow> (bytes \<times> endpoint) option \<Rightarrow> UdpRelaySession \<Rightarrow> exn option \<times> UdpRelaySession" where
  "on_received c ans r s =
     (case r of
        None \<Rightarrow> (None, receive_loop s)
      | Some (datagram, cl) \<Rightarrow>
          (case send_to_lwip c ans datagram cl s of
             (Some e, s1) \<Rightarrow> (Some e, s1)
           | (None, s1) \<Rightarrow> (None, receive_loop s1)))"

section \<open>To the clients\<close>

text \<open>The address the datagram is labelled with; a null text cannot be made into a string.\<close>

definition reply_target :: "Mapping \<Rightarrow> ip_addr_t \<Rightarrow> u16 \<Rightarrow> TargetAddress result" where
  "reply_target m addr prt =
     (let t = (target m)\<lparr>port := prt\<rparr>
      in if addr_type (target m) \<noteq> Domain then
           bind_result (ipaddr_ntoa addr) (\<lambda>r.
             case r of
               None \<Rightarrow> Inl OutOfBounds
             | Some h \<Rightarrow> Inr (t\<lparr>host := h, addr_type := (if IP_IS_V6 addr then Ipv6 else Ipv4)\<rparr>))
         else Inr t)"

definition send_to_client ::
  "mbedtls \<Rightarrow> drbg \<Rightarrow> inet_pton \<Rightarrow> Mapping \<Rightarrow> bytes \<Rightarrow> ip_addr_t \<Rightarrow> u16 \<Rightarrow> UdpRelaySession \<Rightarrow>
   exn option \<times> UdpRelaySession" where
  "send_to_client c d a m payload addr prt s =
     (case bind_result (reply_target m addr prt) (encode_ss_address a) of
        Inl e \<Rightarrow> (Some e, s)
      | Inr header \<Rightarrow>
          (case encrypt_udp_packet c d (PacketBuffer_append header payload) (make_session (udp_crypto s)) of
             (Inl e, _) \<Rightarrow> (Some e, s)
           | (Inr encrypted, _) \<Rightarrow> (None, s\<lparr>to_clients := to_clients s @ [(client m, encrypted)]\<rparr>)))"

text \<open>
  The argument of the callback is the mapping that was created with the control block; it
  exists while it is in the table. Exceptions leave the callback; they pass through the C code
  of the stack, and the model takes them for outcomes after which the run goes on.
\<close>

definition on_udp_recv ::
  "mbedtls \<Rightarrow> drbg \<Rightarrow> inet_pton \<Rightarrow> nat \<Rightarrow> pbuf option \<Rightarrow> ip_addr_t \<Rightarrow> u16 \<Rightarrow> UdpRelaySession \<Rightarrow>
   exn option \<times> UdpRelaySession" where
  "on_udp_recv c d a p buf addr prt s =
     (case buf of
        None \<Rightarrow> (None, s)
      | Some b \<Rightarrow>
          (case find (\<lambda>(k, m). mapping_pcb m = Some p) (mappings s) of
             None \<Rightarrow> (Some UseAfterFree, s)
           | Some (k, m) \<Rightarrow> send_to_client c d a m (pbuf_copy_partial b (tot_len b) 0) addr prt s))"

section \<open>Starting and stopping\<close>

definition UdpRelaySession_start :: "UdpRelaySession \<Rightarrow> UdpRelaySession" where
  "UdpRelaySession_start s =
     receive_loop
       ((case udp_token s of
           None \<Rightarrow> s\<lparr>udp_token := Some (next_token s), next_token := next_token s + 1\<rparr>
         | Some _ \<Rightarrow> s)\<lparr>udp_running := True\<rparr>)"

definition UdpRelaySession_stop :: "UdpRelaySession \<Rightarrow> UdpRelaySession" where
  "UdpRelaySession_stop s =
     s\<lparr>udp_running := False, udp_token := None, socket_open := False,
       callbacks := filter (\<lambda>p. Some p \<notin> mapping_pcb ` snd ` set (mappings s)) (callbacks s),
       mappings := []\<rparr>"

section \<open>Events\<close>

datatype udp_event =
    UdpReceived udp_answers "(bytes \<times> endpoint) option"
  | UdpResolved udp_answers nat err_t "ip_addr_t option"
  | UdpRecv drbg nat "pbuf option" ip_addr_t u16
  | IdleTimer nat bool
  | UdpStart
  | UdpStop

text \<open>
  When an event can happen: asio completes a receive that is in flight with a datagram and the
  endpoint it came from, whose address text has no bar; the stack returns a block that is not in
  use and calls back for one that is; a wait on an idle timer completes with an error only once
  the timer was armed anew or its mapping is gone.
\<close>

definition endpoint_ok :: "endpoint \<Rightarrow> bool" where
  "endpoint_ok c \<longleftrightarrow> CHR ''|'' \<notin> set (ep_address c)"

definition udp_event_enabled :: "udp_event \<Rightarrow> UdpRelaySession \<Rightarrow> bool" where
  "udp_event_enabled ev s =
     (case ev of
        UdpReceived ans r \<Rightarrow> 0 < receives s \<and>
          (case r of None \<Rightarrow> True | Some (datagram, cl) \<Rightarrow> endpoint_ok cl) \<and>
          (case udp_new ans of None \<Rightarrow> True | Some p \<Rightarrow> p \<notin> set (callbacks s))
      | UdpResolved ans n err ip \<Rightarrow> n < length (lookups s) \<and>
          (case udp_new ans of None \<Rightarrow> True | Some p \<Rightarrow> p \<notin> set (callbacks s))
      | UdpRecv d p buf addr prt \<Rightarrow> p \<in> set (callbacks s)
      | IdleTimer n ok \<Rightarrow> n < length (idle_waits s) \<and>
          (ok \<or> snd (idle_waits s ! n) \<notin> (serial \<circ> snd) ` set (mappings s))
      | _ \<Rightarrow> True)"

definition udp_handle :: "mbedtls \<Rightarrow> inet_pton \<Rightarrow> udp_event \<Rightarrow> UdpRelaySession \<Rightarrow> exn option \<times> UdpRelaySession" where
  "udp_handle c a ev s =
     (case ev of
        UdpReceived ans r \<Rightarrow> on_received c ans r (s\<lparr>receives := receives s - 1\<rparr>)
      | UdpResolved ans n err ip \<Rightarrow>
          on_udp_resolved ans (lookups s ! n) err ip (s\<lparr>lookups := take n (lookups s) @ drop (Suc n) (lookups s)\<rparr>)
      | UdpRecv d p buf addr prt \<Rightarrow> on_udp_recv c d a p buf addr prt s
      | IdleTimer n ok \<Rightarrow>
          (let w = idle_waits s ! n; s1 = s\<lparr>idle_waits := take n (idle_waits s) @ drop (Suc n) (idle_waits s)\<rparr>
           in (None, if ok then erase_mapping (fst w) s1 else s1))
      | UdpStart \<Rightarrow> (None, UdpRelaySession_start s)
      | UdpStop \<Rightarrow> (None, UdpRelaySession_stop s))"

inductive udp_step :: "mbedtls \<Rightarrow> inet_pton \<Rightarrow> UdpRelaySession \<Rightarrow> UdpRelaySession \<Rightarrow> bool"
  for c a where
  udp_event: "udp_event_enabled ev s \<Longrightarrow> udp_handle c a ev s = (r, t) \<Longrightarrow>
    (case r of None \<Rightarrow> True | Some e \<Rightarrow> \<not> is_ub e) \<Longrightarrow> udp_step c a s t"

inductive_cases udp_stepE: "udp_step c a s t"

definition udp_init :: "ShadowsocksAeadFactory \<Rightarrow> UdpRelaySession \<Rightarrow> bool" where
  "udp_init f s \<longleftrightarrow> s = UdpRelaySession_new f"

abbreviation udp_reachable :: "mbedtls \<Rightarrow> inet_pton \<Rightarrow> ShadowsocksAeadFactory \<Rightarrow> UdpRelaySession \<Rightarrow> bool" where
  "udp_reachable c a f \<equiv> reachable (udp_init f) (udp_step c a)"

fun run_udp :: "mbedtls \<Rightarrow> inet_pton \<Rightarrow> udp_event list \<Rightarrow> UdpRelaySession \<Rightarrow> UdpRelaySession option" where
  "run_udp c a [] s = Some s"
| "run_udp c a (ev # evs) s =
     (if udp_event_enabled ev s then
        (case udp_handle c a ev s of
           (None, t) \<Rightarrow> run_udp c a evs t
         | (Some e, t) \<Rightarrow> if is_ub e then None else run_udp c a evs t)
      else None)"

lemma run_udp_reachable: "run_udp c a evs s = Some t \<Longrightarrow> udp_reachable c a f s \<Longrightarrow> udp_reachable c a f t"
proof (induction evs arbitrary: s)
  case (Cons ev evs)
  obtain r u where h: "udp_handle c a ev s = (r, u)" by fastforce
  with Cons.prems have e: "udp_event_enabled ev s" and r: "case r of None \<Rightarrow> True | Some e \<Rightarrow> \<not> is_ub e"
    and rest: "run_udp c a evs u = Some t"
    by (auto split: if_splits option.splits)
  from reach_step [OF Cons.prems(2) udp_event [OF e h r]] Cons.IH [OF rest] show ?case by blast
qed simp

section \<open>Keys\<close>

lemma dec_string_inject: "dec_string m = dec_string n \<longleftrightarrow> m = n"
proof (induction m arbitrary: n rule: dec_string.induct)
  case (1 m)
  have ne: "dec_string k \<noteq> []" for k by (subst dec_string.simps) simp
  have digit: "char_of (48 + i) = (char_of (48 + j) :: char) \<longleftrightarrow> i = j" if "i < 10" "j < 10" for i j :: nat
    using that by (auto dest: arg_cong [where f = "of_char :: char \<Rightarrow> nat"])
  have split: "m = n" if "m div 10 = n div 10" "m mod 10 = n mod 10"
    using that by (metis div_mult_mod_eq)
  show ?case
    using ne [of "n div 10"] ne [of "m div 10"] digit [of "m mod 10" "n mod 10"] "1.IH" [of "n div 10"] digit [of m n]
    by (auto simp: dec_string.simps [of m] dec_string.simps [of n] intro: split)
qed

lemma dec_string_chars: "CHR '':'' \<notin> set (dec_string n)" "CHR ''|'' \<notin> set (dec_string n)"
  using dec_string_digits [of _ n] by (fastforce)+

lemma separator_split:
  assumes "xs @ x # ys = xs' @ x # ys'" "x \<notin> set xs" "x \<notin> set xs'"
  shows "xs = xs' \<and> ys = ys'"
proof -
  have "takeWhile (\<lambda>y. y \<noteq> x) (zs @ x # ws) = zs" if "x \<notin> set zs" for zs ws
    using that by (induction zs) auto
  then have "xs = xs'" using assms by metis
  with assms(1) show ?thesis by simp
qed

lemma colon_split:
  assumes "a @ '':'' @ dec_string m = b @ '':'' @ dec_string n"
  shows "a = b \<and> m = n"
proof -
  have "rev (dec_string m) @ CHR '':'' # rev a = rev (dec_string n) @ CHR '':'' # rev b"
    using arg_cong [OF assms, of rev] by simp
  from separator_split [OF this] dec_string_chars(1) have "rev (dec_string m) = rev (dec_string n) \<and> rev a = rev b"
    by simp
  then show ?thesis by (simp add: dec_string_inject)
qed

lemma mapping_key_inject:
  assumes eq: "mapping_key c t = mapping_key c' t'" and ok: "endpoint_ok c" "endpoint_ok c'"
  shows "c = c' \<and> host t = host t' \<and> port t = port t'"
proof -
  have "(ep_address c @ '':'' @ dec_string (unat (ep_port c))) @ CHR ''|'' # host t @ '':'' @ dec_string (unat (port t)) =
      (ep_address c' @ '':'' @ dec_string (unat (ep_port c'))) @ CHR ''|'' # host t' @ '':'' @ dec_string (unat (port t'))"
    using eq by (simp add: mapping_key_def)
  from separator_split [OF this] ok dec_string_chars(2)
  have a: "ep_address c @ '':'' @ dec_string (unat (ep_port c)) = ep_address c' @ '':'' @ dec_string (unat (ep_port c'))"
    and b: "host t @ '':'' @ dec_string (unat (port t)) = host t' @ '':'' @ dec_string (unat (port t'))"
    by (simp_all add: endpoint_ok_def)
  from colon_split [OF a] colon_split [OF b] show ?thesis
    by (auto intro: endpoint.equality simp: word_unat_eq_iff)
qed

section \<open>The invariant of the mappings\<close>

text \<open>
  Entries own their control block and every callback belongs to an entry; an entry is filed
  under the key of its client and target and has an idle timer that is running.
\<close>

definition mapping_ok :: "UdpRelaySession \<Rightarrow> string \<times> Mapping \<Rightarrow> bool" where
  "mapping_ok s e = (case e of (k, m) \<Rightarrow>
     key m = k \<and> mapping_key (client m) (target m) = k \<and> endpoint_ok (client m) \<and> (k, serial m) \<in> set (idle_waits s))"

definition udp_inv :: "UdpRelaySession \<Rightarrow> bool" where
  "udp_inv s \<longleftrightarrow> owns_pcbs mapping_pcb (mappings s) (callbacks s) \<and>
     pcbs_owned mapping_pcb (mappings s) (callbacks s) \<and>
     (\<forall>e \<in> set (mappings s). mapping_ok s e) \<and> (\<forall>l \<in> set (lookups s). endpoint_ok (lookup_client l))"

definition udp_view where
  "udp_view s = (mappings s, callbacks s, idle_waits s, lookup_client ` set (lookups s))"

lemma udp_inv_view:
  assumes "udp_view s = udp_view t" "udp_inv s"
  shows "udp_inv t"
proof -
  have v: "mappings s = mappings t" "callbacks s = callbacks t" "mapping_ok s = mapping_ok t"
    and l: "lookup_client ` set (lookups s) = lookup_client ` set (lookups t)"
    using assms(1) by (simp_all add: udp_view_def mapping_ok_def fun_eq_iff)
  have "endpoint_ok (lookup_client x)" if "x \<in> set (lookups t)" for x
    using that l assms(2) by (metis (no_types, lifting) image_iff udp_inv_def)
  with assms(2) v show ?thesis by (simp add: udp_inv_def)
qed

lemma erase_mapping_inv:
  assumes "udp_inv s"
  shows "udp_inv (erase_mapping k s)"
proof (cases "map_of (mappings s) k")
  case (Some m)
  with assms owns_erase [OF _ Some] owned_erase [OF _ _ Some] show ?thesis
    by (auto simp: erase_mapping_def udp_inv_def mapping_ok_def set_delete)
qed (use assms in \<open>simp add: erase_mapping_def\<close>)

lemma erase_mapping_gone: "map_of (mappings (erase_mapping k s)) k = None"
  by (simp add: erase_mapping_def delete_conv split: option.splits)

text \<open>Sending through a mapping: it is found or made, and its timer is armed.\<close>

lemma mapping_for_found:
  assumes "udp_inv s" "endpoint_ok c" "mapping_for np c t s = (Inr m, s1)"
  shows "client m = c \<and> host (target m) = host t \<and> port (target m) = port t \<and> key m = mapping_key c t"
proof (cases "map_of (mappings s) (mapping_key c t)")
  case (Some m')
  then have "m = m'" using assms(3) by (simp add: mapping_for_def)
  moreover have "mapping_ok s (mapping_key c t, m')" using assms(1) map_of_SomeD [OF Some] by (simp add: udp_inv_def)
  ultimately show ?thesis using mapping_key_inject [of "client m" "target m" c t] assms(2) by (auto simp: mapping_ok_def)
next
  case None
  with assms(3) show ?thesis by (auto simp: mapping_for_def Let_def split: option.splits)
qed

lemma arm_idle_timer_maps:
  "map fst (map (\<lambda>(k', m). (k', if k' = k then m\<lparr>serial := n\<rparr> else m)) t) = map fst t"
  "map (mapping_pcb \<circ> snd) (map (\<lambda>(k', m). (k', if k' = k then m\<lparr>serial := n\<rparr> else m)) t) = map (mapping_pcb \<circ> snd) t"
  by (induction t) auto

lemma owns_same:
  assumes "map fst t = map fst t'" "map (f \<circ> snd) t = map (f \<circ> snd) t'"
  shows "owns_pcbs f t ps = owns_pcbs f t' ps \<and> pcbs_owned f t ps = pcbs_owned f t' ps"
proof -
  have "f ` snd ` set u = set (map (f \<circ> snd) u)" for u :: "('a \<times> 'b) list" by (simp add: image_comp)
  then show ?thesis unfolding owns_pcbs_def pcbs_owned_def by (simp only: assms)
qed

lemma arm_idle_timer_inv:
  assumes "owns_pcbs mapping_pcb (mappings s) (callbacks s)" "pcbs_owned mapping_pcb (mappings s) (callbacks s)"
    and "\<forall>e \<in> set (mappings s). fst e \<noteq> k \<longrightarrow> mapping_ok s e"
    and "\<forall>e \<in> set (mappings s). fst e = k \<longrightarrow>
      key (snd e) = k \<and> mapping_key (client (snd e)) (target (snd e)) = k \<and> endpoint_ok (client (snd e))"
    and "\<forall>l \<in> set (lookups s). endpoint_ok (lookup_client l)"
  shows "udp_inv (arm_idle_timer k s)"
proof -
  have "mapping_ok (arm_idle_timer k s) e" if e: "e \<in> set (mappings (arm_idle_timer k s))" for e
  proof -
    obtain a b where ab: "(a, b) \<in> set (mappings s)" "e = (a, if a = k then b\<lparr>serial := next_serial s\<rparr> else b)"
      using e by (auto simp: arm_idle_timer_def)
    with bspec [OF assms(3) ab(1)] bspec [OF assms(4) ab(1)] show ?thesis
      by (cases "a = k") (auto simp: mapping_ok_def arm_idle_timer_def)
  qed
  moreover have "owns_pcbs mapping_pcb (mappings (arm_idle_timer k s)) (callbacks s)"
    "pcbs_owned mapping_pcb (mappings (arm_idle_timer k s)) (callbacks s)"
    using assms(1,2) by (simp_all add: arm_idle_timer_def owns_same [OF arm_idle_timer_maps])
  ultimately show ?thesis using assms(5) by (simp add: udp_inv_def) (simp add: arm_idle_timer_def)
qed

lemma send_payload_inv:
  assumes inv: "udp_inv s" and c: "endpoint_ok c"
    and np: "case udp_new ans of None \<Rightarrow> True | Some p \<Rightarrow> p \<notin> set (callbacks s)"
  shows "udp_inv (snd (send_payload_to_ip ans payload c t ip s)) \<and> fst (send_payload_to_ip ans payload c t ip s) = None"
proof -
  let ?k = "mapping_key c t"
  obtain r s1 where f: "mapping_for (udp_new ans) c t s = (r, s1)" by fastforce
  show ?thesis
  proof (cases r)
    case (Inl e)
    with f have "s1 = s" "\<not> is_ub e" by (auto simp: mapping_for_def Let_def split: option.splits)
    with Inl f inv show ?thesis by (simp add: send_payload_to_ip_def swallow_def)
  next
    case (Inr m)
    have k: "key m = ?k" using mapping_for_found [OF inv c] f Inr by blast
    have p: "mapping_pcb m \<noteq> None" and armed: "udp_inv (arm_idle_timer ?k s1)"
    proof (atomize (full), cases "map_of (mappings s) ?k")
      case (Some m')
      then have "s1 = s" "m = m'" using f Inr by (simp_all add: mapping_for_def)
      moreover have "mapping_pcb m' \<noteq> None"
        using inv map_of_SomeD [OF Some] by (force simp: udp_inv_def owns_pcbs_def)
      moreover have "udp_inv (arm_idle_timer ?k s)"
        using inv by (intro arm_idle_timer_inv) (auto simp: udp_inv_def mapping_ok_def)
      ultimately show "mapping_pcb m \<noteq> None \<and> udp_inv (arm_idle_timer ?k s1)" by simp
    next
      case None
      then obtain p where p: "udp_new ans = Some p" "m = \<lparr>client = c, target = t, key = ?k, mapping_pcb = Some p, serial = next_serial s\<rparr>"
        "s1 = s\<lparr>callbacks := p # callbacks s, mappings := (?k, m) # mappings s\<rparr>"
        using f Inr by (auto simp: mapping_for_def Let_def split: option.splits)
      have "owns_pcbs mapping_pcb ((?k, m) # mappings s) (p # callbacks s)"
        "pcbs_owned mapping_pcb ((?k, m) # mappings s) (p # callbacks s)"
        using inv None np p(1,2) by (auto simp: udp_inv_def intro!: owns_insert owned_insert)
      then have "udp_inv (arm_idle_timer ?k s1)"
        using inv c p(2,3) by (intro arm_idle_timer_inv) (auto simp: udp_inv_def mapping_ok_def)
      with p(2) show "mapping_pcb m \<noteq> None \<and> udp_inv (arm_idle_timer ?k s1)" by simp
    qed
    have "udp_inv ((arm_idle_timer ?k s1)\<lparr>to_stack := x\<rparr>)" for x
      by (rule udp_inv_view [OF _ armed]) (simp add: udp_view_def)
    with p armed f Inr k show ?thesis
      by (auto simp: send_payload_to_ip_def Let_def split: option.splits)
  qed
qed

lemma send_to_lwip_inv:
  assumes inv: "udp_inv s" and c: "endpoint_ok cl"
    and np: "case udp_new ans of None \<Rightarrow> True | Some p \<Rightarrow> p \<notin> set (callbacks s)"
  shows "udp_inv (snd (send_to_lwip c ans datagram cl s))"
proof -
  have "udp_inv (snd (resolve_domain_then_send ans payload cl t s))" for payload t
    using inv c by (auto simp: resolve_domain_then_send_def udp_inv_def mapping_ok_def split: option.splits)
  then show ?thesis
    using inv send_payload_inv [OF inv c np]
    by (auto simp: send_to_lwip_def split: sum.splits option.splits prod.splits) (metis snd_conv)+
qed

lemma receive_loop_view: "udp_view (receive_loop s) = udp_view s"
  by (simp add: receive_loop_def udp_view_def)

lemma on_received_inv:
  assumes inv: "udp_inv s" and r: "case r of None \<Rightarrow> True | Some (datagram, cl) \<Rightarrow> endpoint_ok cl"
    and np: "case udp_new ans of None \<Rightarrow> True | Some p \<Rightarrow> p \<notin> set (callbacks s)"
  shows "udp_inv (snd (on_received c ans r s))"
proof (cases r)
  case None
  then show ?thesis
    using udp_inv_view [OF receive_loop_view [symmetric] inv] by (simp add: on_received_def)
next
  case (Some dc)
  obtain datagram cl where dc: "dc = (datagram, cl)" by fastforce
  obtain e s1 where l: "send_to_lwip c ans datagram cl s = (e, s1)" by fastforce
  have "udp_inv s1" using send_to_lwip_inv [OF inv _ np, of cl c datagram] r Some dc l by simp
  with udp_inv_view [OF receive_loop_view [symmetric] this] Some dc l show ?thesis
    by (cases e) (simp_all add: on_received_def)
qed

lemma stop_udp_inv: "udp_inv s \<Longrightarrow> udp_inv (UdpRelaySession_stop s)"
  by (simp add: UdpRelaySession_stop_def udp_inv_def owned_clear)

lemma start_udp_view: "udp_view (UdpRelaySession_start s) = udp_view s"
  by (simp add: UdpRelaySession_start_def receive_loop_def udp_view_def split: option.splits)

lemma on_udp_recv_view: "udp_view (snd (on_udp_recv c d a p buf addr prt s)) = udp_view s"
  by (auto simp: on_udp_recv_def send_to_client_def udp_view_def split: option.splits sum.splits prod.splits)

lemma udp_inv_waits:
  assumes "udp_inv s" "\<And>k m. (k, m) \<in> set (mappings s) \<Longrightarrow> (k, serial m) \<in> set (idle_waits s) \<Longrightarrow> (k, serial m) \<in> set ws"
  shows "udp_inv (s\<lparr>idle_waits := ws\<rparr>)"
  using assms by (auto simp: udp_inv_def mapping_ok_def)

lemma erase_mapping_waits:
  "erase_mapping k (s\<lparr>idle_waits := ws\<rparr>) = (erase_mapping k s)\<lparr>idle_waits := ws\<rparr>"
  "idle_waits (erase_mapping k s) = idle_waits s"
  by (simp_all add: erase_mapping_def split: option.splits)

lemma idle_timer_inv:
  assumes inv: "udp_inv s" and n: "n < length (idle_waits s)"
    and ok: "ok \<or> snd (idle_waits s ! n) \<notin> (serial \<circ> snd) ` set (mappings s)"
  shows "udp_inv (snd (udp_handle c a (IdleTimer n ok) s))"
proof -
  let ?ws = "take n (idle_waits s) @ drop (Suc n) (idle_waits s)"
  obtain k i where w: "idle_waits s ! n = (k, i)" by fastforce
  note rest = set_remove_nth [OF n, unfolded w]
  show ?thesis
  proof (cases ok)
    case True
    have "(k, m) \<notin> set (mappings (erase_mapping k s))" for m
      using erase_mapping_gone [of k s] by (force simp: map_of_eq_None_iff)
    then have "udp_inv ((erase_mapping k s)\<lparr>idle_waits := ?ws\<rparr>)"
      by (intro udp_inv_waits erase_mapping_inv inv rest) (auto simp: erase_mapping_waits)
    with True show ?thesis by (simp add: udp_handle_def w erase_mapping_waits)
  next
    case False
    with ok w have "udp_inv (s\<lparr>idle_waits := ?ws\<rparr>)"
      by (intro udp_inv_waits inv rest) (auto simp: image_iff)
    with False show ?thesis by (simp add: udp_handle_def)
  qed
qed

lemma on_udp_resolved_inv:
  assumes inv: "udp_inv s" and c: "endpoint_ok (lookup_client l)"
    and np: "case udp_new ans of None \<Rightarrow> True | Some p \<Rightarrow> p \<notin> set (callbacks s)"
  shows "udp_inv (snd (on_udp_resolved ans l err ip s))"
  using inv send_payload_inv [OF inv c np] by (simp add: on_udp_resolved_def split: option.splits)

lemma udp_handle_inv:
  assumes inv: "udp_inv s" and en: "udp_event_enabled ev s"
  shows "udp_inv (snd (udp_handle c a ev s))"
proof (cases ev)
  case (UdpReceived ans r)
  have "udp_inv (s\<lparr>receives := receives s - 1\<rparr>)" by (rule udp_inv_view [OF _ inv]) (simp add: udp_view_def)
  with UdpReceived en show ?thesis
    by (auto simp: udp_handle_def udp_event_enabled_def intro!: on_received_inv split: option.splits)
next
  case (UdpResolved ans n err ip)
  let ?s = "s\<lparr>lookups := take n (lookups s) @ drop (Suc n) (lookups s)\<rparr>"
  have "udp_inv ?s" using inv by (auto simp: udp_inv_def mapping_ok_def dest: in_set_takeD in_set_dropD)
  moreover have "endpoint_ok (lookup_client (lookups s ! n))"
    using inv en UdpResolved by (auto simp: udp_inv_def udp_event_enabled_def)
  ultimately show ?thesis
    using UdpResolved en by (auto simp: udp_handle_def udp_event_enabled_def intro!: on_udp_resolved_inv split: option.splits)
next
  case (UdpRecv d p buf addr prt)
  then show ?thesis using udp_inv_view [OF on_udp_recv_view [symmetric] inv] by (simp add: udp_handle_def)
next
  case (IdleTimer n ok)
  with en have "n < length (idle_waits s)" "ok \<or> snd (idle_waits s ! n) \<notin> (serial \<circ> snd) ` set (mappings s)"
    by (simp_all add: udp_event_enabled_def)
  from idle_timer_inv [OF inv this] IdleTimer show ?thesis by simp
next
  case UdpStart
  then show ?thesis using udp_inv_view [OF start_udp_view [symmetric] inv] by (simp add: udp_handle_def)
next
  case UdpStop
  with inv show ?thesis by (simp add: udp_handle_def stop_udp_inv)
qed

interpretation udp_table: invariant_system "udp_init f" "udp_step c a" udp_inv for f c a
proof
  show "udp_inv s" if "udp_init f s" for s
    using that by (simp add: udp_init_def UdpRelaySession_new_def udp_inv_def)
  show "udp_inv t" if "udp_inv s" "udp_step c a s t" for s t
    using that(2) by (rule udp_stepE) (metis udp_handle_inv snd_conv that(1))
qed

section \<open>Letting the idle timers expire\<close>

function fire_idle :: "UdpRelaySession \<Rightarrow> UdpRelaySession" where
  "fire_idle s =
     (case idle_waits s of
        [] \<Rightarrow> s
      | w # ws \<Rightarrow> fire_idle (erase_mapping (fst w) (s\<lparr>idle_waits := ws\<rparr>)))"
  by pat_completeness auto
termination
  by (relation "measure (\<lambda>s. length (idle_waits s))") (auto simp: erase_mapping_waits)

declare fire_idle.simps [simp del]

lemma fire_idle_empties: "udp_inv s \<Longrightarrow> udp_inv (fire_idle s) \<and> idle_waits (fire_idle s) = []"
proof (induction s rule: fire_idle.induct)
  case (1 s)
  show ?case
  proof (cases "idle_waits s")
    case Nil
    with "1.prems" show ?thesis by (simp add: fire_idle.simps [of s])
  next
    case (Cons w ws)
    have "udp_inv (erase_mapping (fst w) (s\<lparr>idle_waits := ws\<rparr>))"
      using idle_timer_inv [OF "1.prems", of 0 True] Cons by (simp add: udp_handle_def)
    with "1.IH" [OF Cons] Cons show ?thesis by (simp add: fire_idle.simps [of s])
  qed
qed

end
