(* ===== verification/UdpRelayProperties.thy ===== *)
theory UdpRelayProperties
  imports UdpRelaySession ExampleCipher "HOL-Library.Code_Target_Nat"
begin

text \<open>The properties of the UDP relay, with runs of the model as witnesses.\<close>

section \<open>Example runs\<close>

definition example_endpoint :: endpoint where
  "example_endpoint = \<lparr>ep_address = ''c'', ep_port = 5\<rparr>"

definition udp_example_answers :: udp_answers where
  "udp_example_answers = \<lparr>udp_new = Some 7, udp_pbuf_ok = True, udp_resolve = None\<rparr>"

text \<open>A datagram as a client makes it; the cipher does nothing, so it is salt, plain text and tag.\<close>

definition example_datagram :: "bytes \<Rightarrow> bytes" where
  "example_datagram plain = example_salt @ plain @ replicate 16 0"

definition udp_after :: "udp_event list \<Rightarrow> (UdpRelaySession \<Rightarrow> bool) \<Rightarrow> bool" where
  "udp_after evs P =
     (case run_udp plain_mbedtls lwip_inet_pton evs (UdpRelaySession_new example_factory) of None \<Rightarrow> False | Some s \<Rightarrow> P s)"

lemma udp_afterE:
  assumes "udp_after evs P"
  obtains s where "udp_reachable plain_mbedtls lwip_inet_pton example_factory s" and "P s"
proof -
  have "udp_reachable plain_mbedtls lwip_inet_pton example_factory (UdpRelaySession_new example_factory)"
    by (rule reach_init) (simp add: udp_init_def)
  with assms that show ?thesis
    by (auto simp: udp_after_def split: option.splits dest: run_udp_reachable)
qed

text \<open>A datagram for the name \<^verbatim>\<open>b\<close>, port 53, whose lookup answers.\<close>

definition example_request :: "udp_event list" where
  "example_request =
     [UdpStart, UdpReceived udp_example_answers (Some (example_datagram [3, 1, 98, 0, 53, 9], example_endpoint)),
      UdpResolved udp_example_answers 0 ERR_OK (Some (IP_V4 1))]"

lemma example_request_run:
  "udp_after example_request (\<lambda>s. callbacks s = [7] \<and> to_stack s = [(7, [9], IP_V4 1, 53)] \<and>
     map fst (mappings s) = [''c:5|b:53''] \<and> udp_crypto s = example_factory)"
  by code_simp

section \<open>Callbacks and mappings\<close>

text \<open>
  (C7) The receive callback finds its mapping: in every reachable state a datagram on a block
  with a callback is handled for a mapping of the table that owns the block.
\<close>

theorem udp_callback_safe:
  assumes "udp_reachable c a f s" "p \<in> set (callbacks s)"
  shows "\<exists>k m. (k, m) \<in> set (mappings s) \<and> mapping_pcb m = Some p \<and>
    on_udp_recv c d a p (Some buf) addr prt s = send_to_client c d a m (pbuf_copy_partial buf (tot_len buf) 0) addr prt s"
proof -
  have "pcbs_owned mapping_pcb (mappings s) (callbacks s)"
    using udp_table.reachable_invariant [OF assms(1)] by (simp add: udp_inv_def)
  from owner_found [OF this assms(2)] obtain k m where
    "find (\<lambda>(k, m). mapping_pcb m = Some p) (mappings s) = Some (k, m)" "(k, m) \<in> set (mappings s)" "mapping_pcb m = Some p" .
  then show ?thesis by (auto simp: on_udp_recv_def)
qed

theorem udp_callback_safe_witness:
  "\<exists>s k m. udp_reachable plain_mbedtls lwip_inet_pton example_factory s \<and> (k, m) \<in> set (mappings s) \<and> mapping_pcb m = Some 7"
proof -
  obtain s where r: "udp_reachable plain_mbedtls lwip_inet_pton example_factory s" "callbacks s = [7]"
    using example_request_run by (rule udp_afterE) blast
  then have "7 \<in> set (callbacks s)" by simp
  from udp_callback_safe [OF r(1) this] r(1) show ?thesis by blast
qed

text \<open>
  (C14) Clients do not share mappings: the mapping used for a client and a target belongs to that
  client and to that host and port, although mappings are looked up by a text.
\<close>

theorem udp_mapping_isolated:
  assumes "udp_reachable c a f s" "endpoint_ok cl" "mapping_for np cl t s = (Inr m, s1)"
  shows "client m = cl \<and> host (target m) = host t \<and> port (target m) = port t"
  using mapping_for_found [OF udp_table.reachable_invariant [OF assms(1)] assms(2,3)] by blast

theorem udp_mapping_isolated_witness:
  "\<exists>s m s1. udp_reachable plain_mbedtls lwip_inet_pton example_factory s \<and>
     mapping_for None example_endpoint \<lparr>addr_type = Domain, host = ''b'', port = 53\<rparr> s = (Inr m, s1) \<and>
     client m = example_endpoint"
proof -
  let ?t = "\<lparr>addr_type = Domain, host = ''b'', port = 53\<rparr>"
  obtain s where r: "udp_reachable plain_mbedtls lwip_inet_pton example_factory s" "map fst (mappings s) = [''c:5|b:53'']"
    using example_request_run by (rule udp_afterE) meson
  have k: "mapping_key example_endpoint ?t = ''c:5|b:53''"
    by code_simp
  have "map_of (mappings s) ''c:5|b:53'' \<noteq> None" using r(2) by (simp add: map_of_eq_None_iff flip: set_map)
  then obtain m where "map_of (mappings s) ''c:5|b:53'' = Some m" by blast
  then have m: "mapping_for None example_endpoint ?t s = (Inr m, s)" by (simp add: mapping_for_def k)
  have "endpoint_ok example_endpoint" by (simp add: endpoint_ok_def example_endpoint_def)
  from udp_mapping_isolated [OF r(1) this m] r(1) m show ?thesis by blast
qed

text \<open>
  (C27) Mappings do not leak: when the idle timers that are running expire, every mapping and
  every callback is gone.
\<close>

theorem udp_mappings_expire:
  assumes "udp_reachable c a f s"
  shows "mappings (fire_idle s) = [] \<and> callbacks (fire_idle s) = []"
proof -
  have f: "udp_inv (fire_idle s)" "idle_waits (fire_idle s) = []"
    using fire_idle_empties [OF udp_table.reachable_invariant [OF assms]] by simp_all
  then have "mappings (fire_idle s) = []"
    by (cases "mappings (fire_idle s)") (auto simp: udp_inv_def mapping_ok_def)
  with f(1) show ?thesis by (simp add: udp_inv_def pcbs_owned_def)
qed

theorem udp_mappings_expire_witness:
  "\<exists>s. udp_reachable plain_mbedtls lwip_inet_pton example_factory s \<and> callbacks s = [7] \<and> callbacks (fire_idle s) = []"
proof -
  obtain s where r: "udp_reachable plain_mbedtls lwip_inet_pton example_factory s" "callbacks s = [7]"
    using example_request_run by (rule udp_afterE) blast
  with udp_mappings_expire [OF r(1)] show ?thesis by blast
qed

section \<open>Datagrams\<close>

lemma parse_ipv4_header:
  "parse_ss_address (1 # b0 # b1 # b2 # b3 # append_be16 [] v @ rest) =
     Inr (Some \<lparr>addr_type = Ipv4, host = ipv4_text b0 b1 b2 b3, port = v\<rparr>, rest)"
  using parse_ss_address_Some [of 1 "b0 # b1 # b2 # b3 # append_be16 [] v @ rest" "ipv4_text b0 b1 b2 b3" v rest]
  by (simp add: parse_ss_host_eq ss16.put_length)

lemma encode_ipv4_header:
  "inet_pton_laws a \<Longrightarrow>
   encode_ss_address a \<lparr>addr_type = Ipv4, host = ipv4_text b0 b1 b2 b3, port = v\<rparr> =
     Inr (1 # b0 # b1 # b2 # b3 # append_be16 [] v)"
  by (simp add: encode_ss_address_def inet_pton_laws_def PacketBuffer_append_def append_be16_eq [of "_ # _"])

lemma parse_ip_ipv4: "parse_ip (ipv4_text b0 b1 b2 b3) = Inr (IP_ADDR4 b0 b1 b2 b3)"
proof -
  have "dropWhile (\<lambda>c. c \<noteq> CHR '':'' \<and> c \<noteq> CHR ''.'') (dec_string n @ CHR ''.'' # cs) = CHR ''.'' # cs" for n cs
    using dec_string_chars(1) [of n] dec_string_digits [of "CHR ''.''" n] by (subst dropWhile_append2) auto
  then have "ipaddr_aton (ipv4_text b0 b1 b2 b3) = map_option IP_V4 (ip4addr_aton (ipv4_text b0 b1 b2 b3))"
    by (simp add: ipaddr_aton_def ipv4_text_def)
  then have "ipaddr_aton (ipv4_text b0 b1 b2 b3) = Some (IP_ADDR4 b0 b1 b2 b3)"
    by (simp add: ip4addr_aton_text IP_ADDR4_def)
  then show ?thesis by (simp add: parse_ip_def)
qed

text \<open>
  (C20) A reply from an IPv4 host to a mapping whose target was given as an address, not as a domain
  name, reaches the client of the mapping as a datagram that decrypts, under the same password, to
  the address and port it came from and its payload. (A mapping for a domain name answers under
  that name.) The hypotheses are the documented behaviour of the cipher, of the key derivation, of
  the random generator and of \<^verbatim>\<open>inet_pton\<close>.
\<close>

theorem udp_reply_roundtrip:
  assumes "mbedtls_buffers c" "aead_laws c" "hkdf_total c" "drbg_laws d" "inet_pton_laws a"
    and "addr_type (target m) \<noteq> Domain"
  shows "\<exists>out plain. send_to_client c d a m payload (IP_ADDR4 b0 b1 b2 b3) prt s =
      (None, s\<lparr>to_clients := to_clients s @ [(client m, out)]\<rparr>) \<and>
    decrypt_udp_packet c (make_session (udp_crypto s)) out = Inr (Some plain) \<and>
    parse_ss_address plain = Inr (Some \<lparr>addr_type = Ipv4, host = ipv4_text b0 b1 b2 b3, port = prt\<rparr>, payload)"
proof -
  let ?t = "\<lparr>addr_type = Ipv4, host = ipv4_text b0 b1 b2 b3, port = prt\<rparr>"
  let ?plain = "1 # b0 # b1 # b2 # b3 # append_be16 [] prt @ payload"
  have "reply_target m (IP_ADDR4 b0 b1 b2 b3) prt = Inr ?t"
    using assms(6) by (cases "target m") (simp add: reply_target_def IP_ADDR4_def ip4addr_ntoa_text IP_IS_V6_def)
  then have h: "bind_result (reply_target m (IP_ADDR4 b0 b1 b2 b3) prt) (encode_ss_address a) =
      Inr (1 # b0 # b1 # b2 # b3 # append_be16 [] prt)"
    by (simp add: encode_ipv4_header [OF assms(5)])
  obtain out tx' where e: "encrypt_udp_packet c d ?plain (make_session (udp_crypto s)) = (Inr out, tx')"
    and d: "decrypt_udp_packet c (make_session (udp_crypto s)) out = Inr (Some ?plain)"
    using udp_packet_roundtrip [OF assms(1-4) refl, where plain = ?plain] by blast
  have "send_to_client c d a m payload (IP_ADDR4 b0 b1 b2 b3) prt s =
      (None, s\<lparr>to_clients := to_clients s @ [(client m, out)]\<rparr>)"
    using h e by (simp add: send_to_client_def PacketBuffer_append_def)
  with d parse_ipv4_header show ?thesis by blast
qed

theorem udp_reply_roundtrip_witness:
  "\<exists>out plain. send_to_client plain_mbedtls zero_drbg lwip_inet_pton
      \<lparr>client = example_endpoint, target = \<lparr>addr_type = Ipv4, host = ''1.2.3.4'', port = 53\<rparr>, key = '''',
       mapping_pcb = Some 7, serial = 0\<rparr> [9] (IP_ADDR4 1 2 3 4) 53 (UdpRelaySession_new example_factory) =
      (None, (UdpRelaySession_new example_factory)\<lparr>to_clients := [(example_endpoint, out)]\<rparr>) \<and>
    parse_ss_address plain = Inr (Some \<lparr>addr_type = Ipv4, host = ipv4_text 1 2 3 4, port = 53\<rparr>, [9])"
  using udp_reply_roundtrip [OF plain_laws(1,2,4,5) lwip_inet_pton_laws,
      of "\<lparr>client = example_endpoint, target = \<lparr>addr_type = Ipv4, host = ''1.2.3.4'', port = 53\<rparr>, key = '''',
        mapping_pcb = Some 7, serial = 0\<rparr>" "[9]" 1 2 3 4 53 "UdpRelaySession_new example_factory"]
  by (auto simp: UdpRelaySession_new_def)

lemma mapping_for_made:
  assumes "udp_inv s" "np = Some q"
  obtains m s1 p where "mapping_for np c t s = (Inr m, s1)" "(mapping_key c t, m) \<in> set (mappings s1)"
    "to_stack s1 = to_stack s" "mapping_pcb m = Some p"
proof (cases "map_of (mappings s) (mapping_key c t)")
  case None
  with assms(2) that show thesis by (force simp: mapping_for_def Let_def)
next
  case (Some m)
  have mem: "(mapping_key c t, m) \<in> set (mappings s)" using Some by (rule map_of_SomeD)
  then have "mapping_pcb m \<noteq> None" using assms(1) by (force simp: udp_inv_def owns_pcbs_def)
  with Some mem that show thesis by (auto simp: mapping_for_def)
qed

text \<open>
  (C21) A request for an IPv4 target is forwarded: the payload, of less than 65536 bytes, of a
  datagram that a client encrypted under the password goes, whole and once, to the address and port
  it names, through a control block whose replies go to that client, provided that the stack can
  allocate a control block for a new mapping and a buffer for the payload.
\<close>

theorem udp_request_forwarded:
  assumes "mbedtls_buffers c" "aead_laws c" "hkdf_total c" "drbg_laws d"
    and "udp_reachable c a f s" "endpoint_ok cl" "length payload < 65536"
    and "udp_new ans = Some q" "udp_pbuf_ok ans"
    and "encrypt_udp_packet c d (1 # b0 # b1 # b2 # b3 # append_be16 [] prt @ payload) (make_session (udp_crypto s)) =
      (Inr datagram, tx)"
  shows "\<exists>p t k m. send_to_lwip c ans datagram cl s = (None, t) \<and>
    to_stack t = to_stack s @ [(p, payload, IP_ADDR4 b0 b1 b2 b3, prt)] \<and>
    (k, m) \<in> set (mappings t) \<and> mapping_pcb m = Some p \<and> client m = cl"
proof -
  let ?t = "\<lparr>addr_type = Ipv4, host = ipv4_text b0 b1 b2 b3, port = prt\<rparr>"
  have inv: "udp_inv s" using assms(5) by (rule udp_table.reachable_invariant)
  have "decrypt_udp_packet c (make_session (udp_crypto s)) datagram =
      Inr (Some (1 # b0 # b1 # b2 # b3 # append_be16 [] prt @ payload))"
    using udp_packet_roundtrip [OF assms(1-4) refl, of "1 # b0 # b1 # b2 # b3 # append_be16 [] prt @ payload" "make_session (udp_crypto s)"] assms(10)
    by simp
  moreover have "parse_ip (ipv4_text b0 b1 b2 b3) = Inr (IP_ADDR4 b0 b1 b2 b3)"
    by (rule parse_ip_ipv4)
  ultimately have l: "send_to_lwip c ans datagram cl s = send_payload_to_ip ans payload cl ?t (IP_ADDR4 b0 b1 b2 b3) s"
    by (simp add: send_to_lwip_def parse_ipv4_header)
  obtain m s1 p where f: "mapping_for (udp_new ans) cl ?t s = (Inr m, s1)" and mem: "(mapping_key cl ?t, m) \<in> set (mappings s1)"
    and st: "to_stack s1 = to_stack s" and p: "mapping_pcb m = Some p"
    using inv assms(8) by (rule mapping_for_made)
  note found = mapping_for_found [OF inv assms(6) f]
  have "unat (word_of_nat (length payload) :: u16) = length payload"
    using assms(7) by (simp add: unsigned_of_nat take_bit_nat_eq_self)
  moreover define m' t where "m' = m\<lparr>serial := next_serial s1\<rparr>"
    and "t = (arm_idle_timer (key m) s1)\<lparr>to_stack := to_stack s @ [(p, payload, IP_ADDR4 b0 b1 b2 b3, prt)]\<rparr>"
  ultimately have "send_to_lwip c ans datagram cl s = (None, t)"
    using l f p assms(9) st by (simp add: send_payload_to_ip_def arm_idle_timer_def)
  moreover have "to_stack t = to_stack s @ [(p, payload, IP_ADDR4 b0 b1 b2 b3, prt)]" by (simp add: t_def)
  moreover have "(mapping_key cl ?t, m') \<in> set (mappings t)"
    using mem found by (force simp: arm_idle_timer_def t_def m'_def)
  moreover have "mapping_pcb m' = Some p" "client m' = cl" using p found by (simp_all add: m'_def)
  ultimately show ?thesis by blast
qed

theorem udp_request_forwarded_witness:
  "\<exists>datagram p t. send_to_lwip plain_mbedtls udp_example_answers datagram example_endpoint
      (UdpRelaySession_new example_factory) = (None, t) \<and> to_stack t = [(p, [9], IP_ADDR4 1 2 3 4, 53)]"
proof -
  let ?s = "UdpRelaySession_new example_factory"
  have r: "udp_reachable plain_mbedtls lwip_inet_pton example_factory ?s" by (rule reach_init) (simp add: udp_init_def)
  obtain out tx where e: "encrypt_udp_packet plain_mbedtls zero_drbg (1 # 1 # 2 # 3 # 4 # append_be16 [] 53 @ [9])
      (make_session (udp_crypto ?s)) = (Inr out, tx)"
    using udp_packet_roundtrip [OF plain_laws(1,2,4,5) refl] by blast
  have "endpoint_ok example_endpoint" by (simp add: endpoint_ok_def example_endpoint_def)
  from udp_request_forwarded [OF plain_laws(1,2,4,5) r this, of "[9]" udp_example_answers 7] e show ?thesis
    by (force simp: udp_example_answers_def UdpRelaySession_new_def)
qed

text \<open>A run with a datagram for an address.\<close>

definition example_request4 :: "udp_event list" where
  "example_request4 =
     [UdpStart, UdpReceived udp_example_answers (Some (example_datagram [1, 1, 1, 1, 1, 0, 53, 9], example_endpoint))]"

lemma example_request4_run:
  "udp_after example_request4 (\<lambda>s. callbacks s = [7] \<and>
     list_all (\<lambda>(k, m). addr_type (target m) \<noteq> Domain) (mappings s))"
proof -
  have d: "decrypt_udp_packet plain_mbedtls (make_session example_factory) (example_datagram [1, 1, 1, 1, 1, 0, 53, 9]) =
      Inr (Some (1 # 1 # 1 # 1 # 1 # append_be16 [] 53 @ [9]))"
    by code_simp
  show ?thesis
    by (simp add: udp_after_def example_request4_def udp_event_enabled_def udp_handle_def UdpRelaySession_new_def
        UdpRelaySession_start_def receive_loop_def on_received_def send_to_lwip_def d parse_ipv4_header parse_ip_ipv4
        send_payload_to_ip_def mapping_for_def udp_example_answers_def arm_idle_timer_def endpoint_ok_def
        example_endpoint_def Let_def)
qed

text \<open>
  A reply can read outside an object: a datagram from an IPv6 host whose address ends in a
  single zero block, with no other zero block, makes the code read the word behind the address
  while it makes the text of it, whenever the mapping was made for an address.
\<close>

theorem udp_ipv6_reply_out_of_bounds:
  assumes "list_all (\<lambda>i. ip6_block [w0, w1, w2, w3] i \<noteq> 0) [0..<7]" "ip6_block [w0, w1, w2, w3] 7 = 0"
    and "udp_reachable c a f s" "p \<in> set (callbacks s)"
    and "list_all (\<lambda>(k, m). addr_type (target m) \<noteq> Domain) (mappings s)"
  shows "fst (udp_handle c a (UdpRecv d p (Some buf) (IP_V6 w0 w1 w2 w3) prt) s) = Some OutOfBounds"
proof -
  have "pcbs_owned mapping_pcb (mappings s) (callbacks s)"
    using udp_table.reachable_invariant [OF assms(3)] by (simp add: udp_inv_def)
  from owner_found [OF this assms(4)] obtain k m where
    m: "find (\<lambda>(k, m). mapping_pcb m = Some p) (mappings s) = Some (k, m)" "(k, m) \<in> set (mappings s)" .
  then have "reply_target m (IP_V6 w0 w1 w2 w3) prt = Inl OutOfBounds"
    using assms(5) ipaddr_ntoa_behind [OF assms(1,2)] by (auto simp: reply_target_def list_all_iff)
  with m show ?thesis by (simp add: udp_handle_def on_udp_recv_def send_to_client_def)
qed

theorem udp_ipv6_reply_out_of_bounds_witness:
  "\<exists>s. udp_reachable plain_mbedtls lwip_inet_pton example_factory s \<and>
     fst (udp_handle plain_mbedtls lwip_inet_pton
       (UdpRecv zero_drbg 7 (Some [[9]]) (IP_V6 0x01000100 0x01000100 0x01000100 0x00000100) 53) s) = Some OutOfBounds"
proof -
  have a: "list_all (\<lambda>i. ip6_block [0x01000100, 0x01000100, 0x01000100, 0x00000100] i \<noteq> 0) [0..<7]"
    "ip6_block [0x01000100, 0x01000100, 0x01000100, 0x00000100] 7 = 0"
    by (simp_all add: ip6_block_def lwip_htonl_def upt_rec [of _ 7])
  obtain s where r: "udp_reachable plain_mbedtls lwip_inet_pton example_factory s" "7 \<in> set (callbacks s)"
    "list_all (\<lambda>(k, m). addr_type (target m) \<noteq> Domain) (mappings s)"
    using example_request4_run by (rule udp_afterE) auto
  from udp_ipv6_reply_out_of_bounds [OF a r] r(1) show ?thesis by blast
qed

end
