(* ===== verification/JsonConfig.thy ===== *)
theory JsonConfig
  imports InstanceConfig Complex_Main
begin

text \<open>
  The configuration file, \<^verbatim>\<open>MultiInstanceManager::load_json_config\<close> of
  \<^verbatim>\<open>src/src/MultiInstanceManager.cpp\<close> with its helpers, and what it uses of the values of
  \<^verbatim>\<open>third_party/json.hpp\<close>. The text of the file, the parser of the JSON library and the
  test for a regular file are parameters.
\<close>

section \<open>JSON values\<close>

text \<open>
  The value types a parsed text can have. The library keeps integers in 64 bits, signed when
  they are negative, and other numbers as finite doubles, which are rational numbers. An object
  is a \<^verbatim>\<open>std::map\<close>.
\<close>

datatype json =
    JNull
  | JObject "(string \<times> json) list"
  | JArray "json list"
  | JString string
  | JBoolean bool
  | JInteger "64 word"
  | JUnsigned "64 word"
  | JFloat rat

fun type_name :: "json \<Rightarrow> string" where
  "type_name JNull = ''null''"
| "type_name (JObject kvs) = ''object''"
| "type_name (JArray js) = ''array''"
| "type_name (JString s) = ''string''"
| "type_name (JBoolean b) = ''boolean''"
| "type_name (JInteger n) = ''number''"
| "type_name (JUnsigned n) = ''number''"
| "type_name (JFloat r) = ''number''"

fun is_object :: "json \<Rightarrow> bool" where
  "is_object (JObject kvs) = True"
| "is_object _ = False"

fun is_string :: "json \<Rightarrow> bool" where
  "is_string (JString s) = True"
| "is_string _ = False"

fun is_array :: "json \<Rightarrow> bool" where
  "is_array (JArray js) = True"
| "is_array _ = False"

fun is_number_integer :: "json \<Rightarrow> bool" where
  "is_number_integer (JInteger n) = True"
| "is_number_integer (JUnsigned n) = True"
| "is_number_integer _ = False"

fun json_empty :: "json \<Rightarrow> bool" where
  "json_empty JNull = True"
| "json_empty (JArray js) = (js = [])"
| "json_empty (JObject kvs) = (kvs = [])"
| "json_empty _ = False"

fun json_contains :: "json \<Rightarrow> string \<Rightarrow> bool" where
  "json_contains (JObject kvs) k = (map_of kvs k \<noteq> None)"
| "json_contains _ k = False"

fun json_at :: "json \<Rightarrow> string \<Rightarrow> json result" where
  "json_at (JObject kvs) k =
     (case map_of kvs k of
        None \<Rightarrow> Inl (JsonError (''[json.exception.out_of_range.403] key '' @ k @ '' not found''))
      | Some j \<Rightarrow> Inr j)"
| "json_at j k = Inl (JsonError (''[json.exception.type_error.304] cannot use at() with '' @ type_name j))"

fun get_string :: "json \<Rightarrow> string result" where
  "get_string (JString s) = Inr s"
| "get_string j = Inl (JsonError (''[json.exception.type_error.302] type must be string, but is '' @ type_name j))"

text \<open>
  \<^verbatim>\<open>get<int>()\<close> casts to 32 bits: integers wrap, doubles are truncated and the cast is
  undefined when the result does not fit.
\<close>

definition truncate_rat :: "rat \<Rightarrow> int" where
  "truncate_rat r = (if r \<ge> 0 then \<lfloor>r\<rfloor> else \<lceil>r\<rceil>)"

fun get_int :: "json \<Rightarrow> int result" where
  "get_int (JUnsigned n) = Inr (sint (ucast n :: 32 word))"
| "get_int (JInteger n) = Inr (sint (ucast n :: 32 word))"
| "get_int (JFloat r) =
     (if - (2 ^ 31) \<le> truncate_rat r \<and> truncate_rat r < 2 ^ 31 then Inr (truncate_rat r) else Inl OutOfBounds)"
| "get_int (JBoolean b) = Inr (if b then 1 else 0)"
| "get_int j = Inl (JsonError (''[json.exception.type_error.302] type must be number, but is '' @ type_name j))"

section \<open>Loading\<close>

definition checked_port :: "int \<Rightarrow> string \<Rightarrow> u16 result" where
  "checked_port v k =
     (if v \<le> 0 \<or> v > 65535 then Inl (RuntimeError (''invalid port for key: '' @ k)) else Inr (word_of_int v))"

definition required_string :: "json \<Rightarrow> string \<Rightarrow> string result" where
  "required_string ob k =
     bind_result
       (if \<not> json_contains ob k then Inr True
        else
          bind_result (json_at ob k) (\<lambda>j.
            if \<not> is_string j then Inr True
            else bind_result (get_string j) (\<lambda>s. Inr (s = ''''))))
       (\<lambda>bad.
         if bad then Inl (RuntimeError (''instance requires non-empty string: '' @ k))
         else bind_result (json_at ob k) get_string)"

definition optional_string :: "json \<Rightarrow> string \<Rightarrow> string \<Rightarrow> string result" where
  "optional_string ob k fallback =
     (if \<not> json_contains ob k then Inr fallback
      else
        bind_result (json_at ob k) (\<lambda>j.
          if \<not> is_string j then Inl (RuntimeError (''config key must be string: '' @ k))
          else bind_result (json_at ob k) get_string))"

definition required_tcp_port :: "json \<Rightarrow> u16 result" where
  "required_tcp_port ob =
     bind_result
       (if \<not> json_contains ob ''tcp_port'' then Inr True
        else bind_result (json_at ob ''tcp_port'') (\<lambda>j. Inr (\<not> is_number_integer j)))
       (\<lambda>bad.
         if bad then Inl (RuntimeError ''instance requires integer tcp_port'')
         else
           bind_result (json_at ob ''tcp_port'') (\<lambda>j.
           bind_result (get_int j) (\<lambda>v. checked_port v ''tcp_port'')))"

definition optional_udp_port :: "json \<Rightarrow> u16 \<Rightarrow> u16 result" where
  "optional_udp_port ob tcp =
     (if json_contains ob ''udp_port'' then
        bind_result (json_at ob ''udp_port'') (\<lambda>j.
        bind_result (get_int j) (\<lambda>v. checked_port v ''udp_port''))
      else Inr tcp)"

text \<open>The fields of one entry, in the order they are read.\<close>

definition read_instance :: "json \<Rightarrow> InstanceConfig result" where
  "read_instance ob =
     (if \<not> is_object ob then Inl (RuntimeError ''instances entries must be objects'')
      else
        bind_result (required_string ob ''name'') (\<lambda>nm.
        bind_result (required_string ob ''ovpn'') (\<lambda>ovpn.
        bind_result (optional_string ob ''listen_host'' ''127.0.0.1'') (\<lambda>lh.
        bind_result (required_tcp_port ob) (\<lambda>tcp.
        bind_result (optional_udp_port ob tcp) (\<lambda>udp.
        bind_result (optional_string ob ''method'' ''chacha20-ietf-poly1305'') (\<lambda>meth.
        bind_result (required_string ob ''password'') (\<lambda>pw.
        bind_result (optional_string ob ''vpn_username'' '''') (\<lambda>vu.
        bind_result (optional_string ob ''vpn_password'' '''') (\<lambda>vp.
          Inr (default_InstanceConfig
                 \<lparr>name := nm, ovpn_path := ovpn,
                  shadowsocks := default_ShadowsocksConfig
                    \<lparr>listen_host := lh, tcp_port := tcp, udp_port := udp, ss_method := meth, password := pw\<rparr>,
                  vpn_username := vu, vpn_password := vp\<rparr>)))))))))))"

record load_state =
  tcp_ports :: "u16 set"
  udp_ports :: "u16 set"
  loaded :: "InstanceConfig list"

text \<open>One turn of the loop over the entries.\<close>

definition load_instance :: "(string \<Rightarrow> bool result) \<Rightarrow> json \<Rightarrow> load_state \<Rightarrow> load_state result" where
  "load_instance is_regular_file ob st =
     bind_result (read_instance ob) (\<lambda>i.
     bind_result (is_regular_file (ovpn_path i)) (\<lambda>regular.
       if \<not> regular then Inl (RuntimeError (''ovpn file does not exist: '' @ ovpn_path i))
       else if ss_method (shadowsocks i) \<noteq> ''chacha20-ietf-poly1305'' then
         Inl (RuntimeError ''only chacha20-ietf-poly1305 is supported'')
       else if tcp_port (shadowsocks i) \<in> tcp_ports st \<or>
           (udp_port (shadowsocks i) \<noteq> 0 \<and> udp_port (shadowsocks i) \<in> udp_ports st) then
         Inl (RuntimeError ''duplicate Shadowsocks listen port for the same protocol'')
       else
         Inr \<lparr>tcp_ports = insert (tcp_port (shadowsocks i)) (tcp_ports st),
              udp_ports = (if udp_port (shadowsocks i) \<noteq> 0 then insert (udp_port (shadowsocks i)) (udp_ports st)
                           else udp_ports st),
              loaded = loaded st @ [i]\<rparr>))"

fun load_instances :: "(string \<Rightarrow> bool result) \<Rightarrow> json list \<Rightarrow> load_state \<Rightarrow> load_state result" where
  "load_instances is_regular_file [] st = Inr st"
| "load_instances is_regular_file (ob # obs) st =
     bind_result (load_instance is_regular_file ob st) (load_instances is_regular_file obs)"

fun array_elements :: "json \<Rightarrow> json list" where
  "array_elements (JArray js) = js"
| "array_elements _ = []"

record file_system =
  read_file :: "string \<Rightarrow> string option"
  json_parse :: "string \<Rightarrow> json result"
  is_regular_file :: "string \<Rightarrow> bool result"

text \<open>The entries of the document.\<close>

definition config_entries :: "json \<Rightarrow> json list result" where
  "config_entries j =
     bind_result
       (if \<not> json_contains j ''instances'' then Inr True
        else bind_result (json_at j ''instances'') (\<lambda>a. Inr (\<not> is_array a)))
       (\<lambda>bad.
         if bad then Inl (RuntimeError ''config requires instances array'')
         else
           bind_result (json_at j ''instances'') (\<lambda>a.
             if json_empty a then Inl (RuntimeError ''config must contain at least one instance'')
             else Inr (array_elements a)))"

definition load_json_config :: "file_system \<Rightarrow> string \<Rightarrow> ManagerConfig result" where
  "load_json_config fs path =
     (case read_file fs path of
        None \<Rightarrow> Inl (RuntimeError (''cannot open config: '' @ path))
      | Some content \<Rightarrow>
          bind_result (json_parse fs content) (\<lambda>j.
          bind_result (config_entries j) (\<lambda>obs.
          bind_result (load_instances (is_regular_file fs) obs \<lparr>tcp_ports = {}, udp_ports = {}, loaded = []\<rparr>) (\<lambda>st.
            Inr \<lparr>json_path = path, instances = loaded st\<rparr>))))"

section \<open>What is read\<close>

lemma is_string_iff: "is_string j \<longleftrightarrow> (\<exists>s. j = JString s)"
  by (cases j) simp_all

lemma is_object_iff: "is_object j \<longleftrightarrow> (\<exists>kvs. j = JObject kvs)"
  by (cases j) simp_all

lemma is_array_iff: "is_array j \<longleftrightarrow> (\<exists>js. j = JArray js)"
  by (cases j) simp_all

lemma required_string_Inr:
  "required_string (JObject kvs) k = Inr s \<longleftrightarrow> map_of kvs k = Some (JString s) \<and> s \<noteq> ''''"
proof (cases "map_of kvs k")
  case (Some j)
  then show ?thesis by (cases "is_string j") (auto simp: required_string_def is_string_iff split: if_splits)
qed (simp add: required_string_def)

lemma optional_string_Inr:
  "optional_string (JObject kvs) k d = Inr s \<longleftrightarrow> (case map_of kvs k of None \<Rightarrow> s = d | Some j \<Rightarrow> j = JString s)"
proof (cases "map_of kvs k")
  case (Some j)
  then show ?thesis by (cases "is_string j") (auto simp: optional_string_def is_string_iff split: if_splits)
qed (auto simp: optional_string_def)

lemma checked_port_Inr: "checked_port v k = Inr p \<longleftrightarrow> v = uint p \<and> p \<noteq> 0"
proof -
  have "0 < v \<Longrightarrow> v \<le> 65535 \<Longrightarrow> v = uint (word_of_int v :: u16)"
    by (simp add: uint_word_of_int)
  moreover have "uint p \<le> 65535" using unsigned_less [of p, where ?'a = int] by simp
  moreover have "p \<noteq> 0 \<longleftrightarrow> 0 < uint p" by (simp add: less_le unsigned_eq_0_iff)
  moreover have "word_of_int (uint p) = p" by simp
  ultimately show ?thesis by (auto simp: checked_port_def)
qed

lemma required_tcp_port_Inr:
  "required_tcp_port (JObject kvs) = Inr p \<longleftrightarrow>
     (\<exists>j. map_of kvs ''tcp_port'' = Some j \<and> is_number_integer j \<and> get_int j = Inr (uint p)) \<and> p \<noteq> 0"
  by (cases "map_of kvs ''tcp_port''")
    (auto simp: required_tcp_port_def bind_result_eq_Inr checked_port_Inr)

lemma optional_udp_port_Inr:
  "optional_udp_port (JObject kvs) tcp = Inr p \<longleftrightarrow>
     (case map_of kvs ''udp_port'' of None \<Rightarrow> p = tcp | Some j \<Rightarrow> get_int j = Inr (uint p) \<and> p \<noteq> 0)"
  by (cases "map_of kvs ''udp_port''")
    (auto simp: optional_udp_port_def bind_result_eq_Inr checked_port_Inr)

lemma sint_32: "sint (w :: 32 word) = (if uint w < 2 ^ 31 then uint w else uint w - 2 ^ 32)"
proof -
  have u: "0 \<le> uint w" "uint w < 2 ^ 32" using unsigned_less [of w, where ?'a = int] by simp_all
  have "sint w = (uint w + 2 ^ 31) mod 2 ^ 32 - 2 ^ 31"
    by (simp add: sint_uint signed_take_bit_eq_take_bit_shift take_bit_eq_mod)
  moreover have "(uint w + 2 ^ 31) mod 2 ^ 32 = (if uint w < 2 ^ 31 then uint w + 2 ^ 31 else uint w - 2 ^ 31)"
  proof (cases "uint w < 2 ^ 31")
    case False
    with u have "(uint w + 2 ^ 31) mod 2 ^ 32 = (uint w - 2 ^ 31 + 2 ^ 32) mod 2 ^ 32" by (simp add: add.commute)
    also have "\<dots> = (uint w - 2 ^ 31) mod 2 ^ 32" by (rule mod_add_self2)
    also have "\<dots> = uint w - 2 ^ 31" using u False by (intro mod_pos_pos_trivial) simp_all
    finally show ?thesis using False by simp
  qed (use u in simp)
  ultimately show ?thesis by simp
qed

lemma port_truncated:
  "bind_result (get_int (JUnsigned n)) (\<lambda>v. checked_port v k) =
     (if unat n mod 2 ^ 32 \<in> {1..65535} then Inr (word_of_nat (unat n mod 2 ^ 32))
      else Inl (RuntimeError (''invalid port for key: '' @ k)))"
proof -
  let ?w = "ucast n :: 32 word"
  have w: "uint ?w = int (unat n mod 2 ^ 32)"
    by (simp add: unsigned_ucast_eq take_bit_eq_mod zmod_int)
  have "sint ?w \<le> 0 \<or> sint ?w > 65535 \<longleftrightarrow> \<not> (unat n mod 2 ^ 32 \<in> {1..65535})"
    using unsigned_less [of ?w, where ?'a = int] by (auto simp: sint_32 w)
  moreover have "word_of_int (sint ?w) = (word_of_nat (unat n mod 2 ^ 32) :: u16)" if "unat n mod 2 ^ 32 \<in> {1..65535}"
    using that by (simp add: sint_32 w)
  ultimately show ?thesis by (simp add: checked_port_def)
qed

section \<open>Accepted configurations\<close>

definition instance_valid :: "file_system \<Rightarrow> InstanceConfig \<Rightarrow> bool" where
  "instance_valid fs i \<longleftrightarrow>
     name i \<noteq> '''' \<and> is_regular_file fs (ovpn_path i) = Inr True \<and> ovpn_path i \<noteq> '''' \<and>
     password (shadowsocks i) \<noteq> '''' \<and> ss_method (shadowsocks i) = ''chacha20-ietf-poly1305'' \<and>
     tcp_port (shadowsocks i) \<noteq> 0 \<and> udp_port (shadowsocks i) \<noteq> 0 \<and> udp_enabled i"

definition ports_distinct :: "InstanceConfig list \<Rightarrow> bool" where
  "ports_distinct cs \<longleftrightarrow> distinct (map (tcp_port \<circ> shadowsocks) cs) \<and> distinct (map (udp_port \<circ> shadowsocks) cs)"

text \<open>The sets of ports are those of the instances loaded so far.\<close>

definition load_inv :: "file_system \<Rightarrow> load_state \<Rightarrow> bool" where
  "load_inv fs st \<longleftrightarrow>
     list_all (instance_valid fs) (loaded st) \<and> ports_distinct (loaded st) \<and>
     tcp_ports st = (tcp_port \<circ> shadowsocks) ` set (loaded st) \<and>
     udp_ports st = (udp_port \<circ> shadowsocks) ` set (loaded st)"

lemma read_instance_valid:
  assumes "read_instance ob = Inr i"
  shows "name i \<noteq> '''' \<and> ovpn_path i \<noteq> '''' \<and> password (shadowsocks i) \<noteq> '''' \<and>
    tcp_port (shadowsocks i) \<noteq> 0 \<and> udp_port (shadowsocks i) \<noteq> 0 \<and> udp_enabled i"
proof -
  obtain kvs where ob: "ob = JObject kvs"
    using assms by (cases ob) (simp_all add: read_instance_def)
  obtain nm ovpn lh tcp udp meth pw vu vp where
    "required_string ob ''name'' = Inr nm" "required_string ob ''ovpn'' = Inr ovpn" "required_tcp_port ob = Inr tcp"
    "optional_udp_port ob tcp = Inr udp" "required_string ob ''password'' = Inr pw" and
    i: "i = default_InstanceConfig
                 \<lparr>name := nm, ovpn_path := ovpn,
                  shadowsocks := default_ShadowsocksConfig
                    \<lparr>listen_host := lh, tcp_port := tcp, udp_port := udp, ss_method := meth, password := pw\<rparr>,
                  vpn_username := vu, vpn_password := vp\<rparr>"
    using assms ob by (simp add: read_instance_def bind_result_eq_Inr) blast
  then show ?thesis
    by (auto simp: ob required_string_Inr required_tcp_port_Inr optional_udp_port_Inr default_InstanceConfig_def
        split: option.splits)
qed

lemma load_instance_inv:
  assumes "load_inv fs st" "load_instance (is_regular_file fs) ob st = Inr st'"
  shows "load_inv fs st' \<and> length (loaded st') = Suc (length (loaded st))"
proof -
  obtain i where i: "read_instance ob = Inr i" and r: "is_regular_file fs (ovpn_path i) = Inr True"
    and m: "ss_method (shadowsocks i) = ''chacha20-ietf-poly1305''"
    and fresh: "tcp_port (shadowsocks i) \<notin> tcp_ports st" "udp_port (shadowsocks i) \<notin> udp_ports st"
    and st': "st' = \<lparr>tcp_ports = insert (tcp_port (shadowsocks i)) (tcp_ports st),
      udp_ports = insert (udp_port (shadowsocks i)) (udp_ports st), loaded = loaded st @ [i]\<rparr>"
    using assms(2) read_instance_valid
    by (auto simp: load_instance_def bind_result_eq_Inr split: if_splits)
  with assms(1) read_instance_valid [OF i] show ?thesis
    by (simp add: load_inv_def instance_valid_def ports_distinct_def)
qed

lemma load_instances_inv:
  "load_instances (is_regular_file fs) obs st = Inr st' \<Longrightarrow> load_inv fs st \<Longrightarrow>
   load_inv fs st' \<and> length (loaded st') = length (loaded st) + length obs"
proof (induction obs arbitrary: st)
  case (Cons ob obs)
  then obtain s1 where "load_instance (is_regular_file fs) ob st = Inr s1" "load_instances (is_regular_file fs) obs s1 = Inr st'"
    by (auto simp: bind_result_eq_Inr)
  with load_instance_inv [OF Cons.prems(2)] Cons.IH [of s1] show ?case by auto
qed simp

lemma config_entries_nonempty: "config_entries j = Inr obs \<Longrightarrow> obs \<noteq> []"
  by (auto simp: config_entries_def bind_result_eq_Inr is_array_iff split: if_splits)

lemma load_json_config_Inr:
  "load_json_config fs path = Inr cfg \<longleftrightarrow>
     (\<exists>content j obs st. read_file fs path = Some content \<and> json_parse fs content = Inr j \<and> config_entries j = Inr obs \<and>
        load_instances (is_regular_file fs) obs \<lparr>tcp_ports = {}, udp_ports = {}, loaded = []\<rparr> = Inr st \<and>
        \<lparr>json_path = path, instances = loaded st\<rparr> = cfg)"
  by (simp add: load_json_config_def bind_result_eq_Inr split: option.split)

text \<open>The document that describes a list of instances.\<close>

definition encode_instance :: "InstanceConfig \<Rightarrow> json" where
  "encode_instance i =
     JObject [(''name'', JString (name i)), (''ovpn'', JString (ovpn_path i)),
       (''listen_host'', JString (listen_host (shadowsocks i))), (''tcp_port'', JUnsigned (ucast (tcp_port (shadowsocks i)))),
       (''udp_port'', JUnsigned (ucast (udp_port (shadowsocks i)))), (''method'', JString (ss_method (shadowsocks i))),
       (''password'', JString (password (shadowsocks i))), (''vpn_username'', JString (vpn_username i)),
       (''vpn_password'', JString (vpn_password i))]"

definition encode_config :: "InstanceConfig list \<Rightarrow> json" where
  "encode_config cs = JObject [(''instances'', JArray (map encode_instance cs))]"

lemma config_entries_encode: "cs \<noteq> [] \<Longrightarrow> config_entries (encode_config cs) = Inr (map encode_instance cs)"
  by (simp add: config_entries_def encode_config_def)

lemma get_int_port: "get_int (JUnsigned (ucast (p :: u16))) = Inr (uint p)"
proof -
  have "uint (ucast (ucast p :: 64 word) :: 32 word) = uint p"
    using unsigned_less [of p, where ?'a = int] by (simp add: unsigned_ucast_eq unsigned_take_bit_eq take_bit_int_eq_self)
  moreover have "uint p < 2 ^ 31" using unsigned_less [of p, where ?'a = int] by simp
  ultimately show ?thesis by (simp add: sint_32)
qed

lemma read_encode_instance:
  assumes "instance_valid fs i"
  shows "read_instance (encode_instance i) = Inr i"
proof -
  let ?o = "encode_instance i"
  have "required_string ?o ''name'' = Inr (name i)" "required_string ?o ''ovpn'' = Inr (ovpn_path i)"
    "required_string ?o ''password'' = Inr (password (shadowsocks i))"
    using assms by (simp_all add: encode_instance_def required_string_Inr instance_valid_def)
  moreover have "optional_string ?o ''listen_host'' d = Inr (listen_host (shadowsocks i))"
    "optional_string ?o ''method'' d = Inr (ss_method (shadowsocks i))"
    "optional_string ?o ''vpn_username'' d = Inr (vpn_username i)"
    "optional_string ?o ''vpn_password'' d = Inr (vpn_password i)" for d
    by (simp_all add: encode_instance_def optional_string_Inr)
  moreover have "required_tcp_port ?o = Inr (tcp_port (shadowsocks i))"
    "optional_udp_port ?o t = Inr (udp_port (shadowsocks i))" for t
    using assms
    by (simp_all add: encode_instance_def required_tcp_port_Inr optional_udp_port_Inr get_int_port instance_valid_def
        del: get_int.simps)
  moreover have "is_object ?o" by (simp add: encode_instance_def)
  ultimately show ?thesis
    using assms by (simp add: read_instance_def instance_valid_def default_InstanceConfig_def default_ShadowsocksConfig_def)
qed

lemma load_encode_instances:
  assumes "list_all (instance_valid fs) cs" "load_inv fs st" "ports_distinct (loaded st @ cs)"
  shows "\<exists>st'. load_instances (is_regular_file fs) (map encode_instance cs) st = Inr st' \<and> loaded st' = loaded st @ cs"
  using assms
proof (induction cs arbitrary: st)
  case (Cons i cs)
  then have v: "instance_valid fs i" and f: "tcp_port (shadowsocks i) \<notin> tcp_ports st" "udp_port (shadowsocks i) \<notin> udp_ports st"
    by (auto simp: load_inv_def ports_distinct_def)
  obtain s1 where s1: "load_instance (is_regular_file fs) (encode_instance i) st = Inr s1" "loaded s1 = loaded st @ [i]"
    using v f read_encode_instance [OF v] by (auto simp: load_instance_def instance_valid_def)
  with load_instance_inv [OF Cons.prems(2) s1(1)] Cons.IH [of s1] Cons.prems show ?case by auto
qed simp

section \<open>Properties\<close>

text \<open>
  (C8) A configuration that is loaded is valid: it has the path it was loaded from and at
  least one instance; every instance has a name, a password, the
  one supported method, an existing profile and nonzero ports; no two instances have the same TCP
  port and no two have the same UDP port.
\<close>

theorem load_json_config_valid:
  assumes "load_json_config fs path = Inr cfg"
  shows "json_path cfg = path \<and> instances cfg \<noteq> [] \<and> list_all (instance_valid fs) (instances cfg) \<and>
    ports_distinct (instances cfg)"
proof -
  obtain j js st where e: "config_entries j = Inr js"
    and js: "load_instances (is_regular_file fs) js \<lparr>tcp_ports = {}, udp_ports = {}, loaded = []\<rparr> = Inr st"
    and cfg: "\<lparr>json_path = path, instances = loaded st\<rparr> = cfg"
    using assms unfolding load_json_config_Inr by blast
  have "load_inv fs \<lparr>tcp_ports = {}, udp_ports = {}, loaded = []\<rparr>" by (simp add: load_inv_def ports_distinct_def)
  from load_instances_inv [OF js this] config_entries_nonempty [OF e] cfg show ?thesis by (auto simp: load_inv_def)
qed

text \<open>
  (C15) Every valid configuration can be written as a file: loading the document that describes
  it gives exactly the instances it was made from, in order.
\<close>

theorem load_json_config_roundtrip:
  assumes "cs \<noteq> []" "list_all (instance_valid fs) cs" "ports_distinct cs"
    and "read_file fs path = Some content" "json_parse fs content = Inr (encode_config cs)"
  shows "load_json_config fs path = Inr \<lparr>json_path = path, instances = cs\<rparr>"
proof -
  have "load_inv fs \<lparr>tcp_ports = {}, udp_ports = {}, loaded = []\<rparr>" by (simp add: load_inv_def ports_distinct_def)
  from load_encode_instances [OF assms(2) this] assms(3) obtain st where
    "load_instances (is_regular_file fs) (map encode_instance cs) \<lparr>tcp_ports = {}, udp_ports = {}, loaded = []\<rparr> = Inr st"
    "loaded st = cs" by auto
  with assms(1,4,5) show ?thesis by (simp add: load_json_config_def config_entries_encode)
qed

definition example_instance :: InstanceConfig where
  "example_instance =
     \<lparr>name = ''a'', ovpn_path = ''a.ovpn'',
      shadowsocks = \<lparr>listen_host = ''::'', tcp_port = 31081, udp_port = 31082,
        ss_method = ''chacha20-ietf-poly1305'', password = ''pw''\<rparr>,
      udp_enabled = True, vpn_username = ''u'', vpn_password = ''p''\<rparr>"

definition example_files :: file_system where
  "example_files =
     \<lparr>read_file = (\<lambda>p. Some ''text''), json_parse = (\<lambda>t. Inr (encode_config [example_instance])),
      is_regular_file = (\<lambda>p. Inr True)\<rparr>"

theorem load_json_config_roundtrip_witness:
  "load_json_config example_files ''c.json'' = Inr \<lparr>json_path = ''c.json'', instances = [example_instance]\<rparr>"
  by (rule load_json_config_roundtrip)
    (simp_all add: example_files_def example_instance_def instance_valid_def ports_distinct_def)

theorem load_json_config_valid_witness:
  "\<exists>cfg. load_json_config example_files ''c.json'' = Inr cfg \<and> list_all (instance_valid example_files) (instances cfg)"
proof -
  obtain st where "load_instances (is_regular_file example_files) (map encode_instance [example_instance])
      \<lparr>tcp_ports = {}, udp_ports = {}, loaded = []\<rparr> = Inr st"
    using load_encode_instances [of example_files "[example_instance]" "\<lparr>tcp_ports = {}, udp_ports = {}, loaded = []\<rparr>"]
    by (auto simp: load_inv_def ports_distinct_def instance_valid_def example_files_def example_instance_def)
  then obtain cfg where "load_json_config example_files ''c.json'' = Inr cfg"
    using config_entries_encode [of "[example_instance]"] by (auto simp: load_json_config_def example_files_def)
  with load_json_config_valid [OF this] show ?thesis by blast
qed

text \<open>
  The range of a port is checked after the number was cast to 32 bits: an unsigned number is
  accepted exactly if its remainder modulo \<open>2\<^sup>3\<^sup>2\<close> is between 1 and 65535, and that remainder is the
  port. So 4294967376 is accepted as port 80.
\<close>

theorem tcp_port_truncated:
  "required_tcp_port (JObject ((''tcp_port'', JUnsigned n) # kvs)) =
     (if unat n mod 2 ^ 32 \<in> {1..65535} then Inr (word_of_nat (unat n mod 2 ^ 32))
      else Inl (RuntimeError ''invalid port for key: tcp_port''))"
  by (simp add: required_tcp_port_def port_truncated del: get_int.simps)

end
