(* ===== verification/OpenVpnTunBuilder.thy ===== *)
theory OpenVpnTunBuilder
  imports LwipRuntime
begin

text \<open>
  The in-memory tunnel builder, \<^verbatim>\<open>src/src/OpenVpnTunBuilder.cpp\<close>: OpenVPN describes the
  tunnel with a sequence of calls, \<^verbatim>\<open>tun_builder_establish\<close> hands the collected
  configuration to the network interface. The interface is the runtime of
  \<^verbatim>\<open>LwipRuntime\<close>, passed along as a second state; the packet sink of the client is an
  argument.

  The calls are also described as a whole: \<open>described_tunnel\<close> reads the configuration off
  the list of calls, and the builder is shown to compute it.
\<close>

section \<open>State and data\<close>

record OpenVpnTunBuilder =
  pending :: TunConfig

text \<open>\<^verbatim>\<open>openvpn::DnsOptions\<close>: the servers in the order of their priority, each with its addresses.\<close>

type_synonym DnsOptions = "(int \<times> string list) list"

section \<open>Operations\<close>

definition tun_builder_new :: "OpenVpnTunBuilder \<Rightarrow> bool \<times> OpenVpnTunBuilder" where
  "tun_builder_new b = (True, b\<lparr>pending := default_TunConfig\<rparr>)"

definition tun_builder_add_address ::
  "string \<Rightarrow> int \<Rightarrow> string \<Rightarrow> bool \<Rightarrow> bool \<Rightarrow> OpenVpnTunBuilder \<Rightarrow> bool \<times> OpenVpnTunBuilder" where
  "tun_builder_add_address address prefix gateway ipv6 n30 b =
     (True, b\<lparr>pending := (pending b)\<lparr>addresses := addresses (pending b) @
       [\<lparr>tun_address = address, tun_gateway = gateway, prefix_length = prefix, tun_ipv6 = ipv6, net30 = n30\<rparr>]\<rparr>\<rparr>)"

definition tun_builder_set_mtu :: "int \<Rightarrow> OpenVpnTunBuilder \<Rightarrow> bool \<times> OpenVpnTunBuilder" where
  "tun_builder_set_mtu n b = (True, b\<lparr>pending := (pending b)\<lparr>mtu := n\<rparr>\<rparr>)"

definition tun_builder_add_dns_server :: "string \<Rightarrow> bool \<Rightarrow> OpenVpnTunBuilder \<Rightarrow> bool \<times> OpenVpnTunBuilder" where
  "tun_builder_add_dns_server address ipv6 b =
     (True,
      if ipv6 then b\<lparr>pending := (pending b)\<lparr>ipv6_dns := ipv6_dns (pending b) @ [address]\<rparr>\<rparr>
      else b\<lparr>pending := (pending b)\<lparr>ipv4_dns := ipv4_dns (pending b) @ [address]\<rparr>\<rparr>)"

text \<open>\<^verbatim>\<open>address.find(':') != npos\<close>.\<close>

definition has_colon :: "string \<Rightarrow> bool" where
  "has_colon s = (CHR '':'' \<in> set s)"

fun add_dns_addresses :: "string list \<Rightarrow> OpenVpnTunBuilder \<Rightarrow> OpenVpnTunBuilder" where
  "add_dns_addresses [] b = b"
| "add_dns_addresses (a # rest) b = add_dns_addresses rest (snd (tun_builder_add_dns_server a (has_colon a) b))"

fun add_dns_servers :: "DnsOptions \<Rightarrow> OpenVpnTunBuilder \<Rightarrow> OpenVpnTunBuilder" where
  "add_dns_servers [] b = b"
| "add_dns_servers ((priority, as) # rest) b = add_dns_servers rest (add_dns_addresses as b)"

definition tun_builder_set_dns_options :: "DnsOptions \<Rightarrow> OpenVpnTunBuilder \<Rightarrow> bool \<times> OpenVpnTunBuilder" where
  "tun_builder_set_dns_options dns b = (True, add_dns_servers dns b)"

definition tun_builder_add_route :: "string \<Rightarrow> int \<Rightarrow> int \<Rightarrow> bool \<Rightarrow> OpenVpnTunBuilder \<Rightarrow> bool \<times> OpenVpnTunBuilder" where
  "tun_builder_add_route address prefix metric ipv6 b = (True, b)"

definition tun_builder_reroute_gw :: "bool \<Rightarrow> bool \<Rightarrow> u32 \<Rightarrow> OpenVpnTunBuilder \<Rightarrow> bool \<times> OpenVpnTunBuilder" where
  "tun_builder_reroute_gw ipv4 ipv6 flags b = (True, b)"

definition tun_builder_exclude_route :: "string \<Rightarrow> int \<Rightarrow> int \<Rightarrow> bool \<Rightarrow> OpenVpnTunBuilder \<Rightarrow> bool \<times> OpenVpnTunBuilder" where
  "tun_builder_exclude_route address prefix metric ipv6 b = (True, b)"

definition tun_builder_set_remote_address :: "string \<Rightarrow> bool \<Rightarrow> OpenVpnTunBuilder \<Rightarrow> bool \<times> OpenVpnTunBuilder" where
  "tun_builder_set_remote_address address ipv6 b = (True, b)"

definition tun_builder_set_session_name :: "string \<Rightarrow> OpenVpnTunBuilder \<Rightarrow> bool \<times> OpenVpnTunBuilder" where
  "tun_builder_set_session_name s b = (True, b)"

definition tun_builder_add_proxy_bypass :: "string \<Rightarrow> OpenVpnTunBuilder \<Rightarrow> bool \<times> OpenVpnTunBuilder" where
  "tun_builder_add_proxy_bypass s b = (True, b)"

definition tun_builder_set_proxy_auto_config_url :: "string \<Rightarrow> OpenVpnTunBuilder \<Rightarrow> bool \<times> OpenVpnTunBuilder" where
  "tun_builder_set_proxy_auto_config_url s b = (True, b)"

definition tun_builder_set_proxy_http :: "string \<Rightarrow> int \<Rightarrow> OpenVpnTunBuilder \<Rightarrow> bool \<times> OpenVpnTunBuilder" where
  "tun_builder_set_proxy_http s n b = (True, b)"

definition tun_builder_set_proxy_https :: "string \<Rightarrow> int \<Rightarrow> OpenVpnTunBuilder \<Rightarrow> bool \<times> OpenVpnTunBuilder" where
  "tun_builder_set_proxy_https s n b = (True, b)"

text \<open>\<open>out\<close> names the output function that calls \<^verbatim>\<open>send_from_lwip\<close> of this builder.\<close>

definition tun_builder_establish :: "nat \<Rightarrow> OpenVpnTunBuilder \<Rightarrow> LwipRuntime \<Rightarrow> int \<times> LwipRuntime" where
  "tun_builder_establish out b lwip =
     (case apply_tun_config_and_output (pending b) out lwip of
        (None, t) \<Rightarrow> (0, t)
      | (Some e, t) \<Rightarrow> (-1, t))"

definition tun_builder_teardown :: "bool \<Rightarrow> LwipRuntime \<Rightarrow> LwipRuntime" where
  "tun_builder_teardown disconnect lwip = set_packet_output None lwip"

definition inject_from_openvpn :: "bytes \<Rightarrow> LwipRuntime \<Rightarrow> LwipRuntime" where
  "inject_from_openvpn packet lwip = post_inject_l3_packet packet lwip"

text \<open>\<open>sink\<close> is \<^verbatim>\<open>vpn_sink_.send_l3_packet\<close>; an exception is swallowed.\<close>

definition send_from_lwip :: "(bytes \<Rightarrow> 's \<Rightarrow> exn option \<times> 's) \<Rightarrow> bytes \<Rightarrow> 's \<Rightarrow> exn option \<times> 's" where
  "send_from_lwip sink packet s =
     (case sink packet s of
        (Some e, t) \<Rightarrow> (if is_ub e then Some e else None, t)
      | (None, t) \<Rightarrow> (None, t))"

section \<open>A description of a tunnel\<close>

datatype builder_call =
    AddAddress string int string bool bool
  | SetMtu int
  | SetDnsOptions DnsOptions
  | AddRoute string int int bool
  | RerouteGw bool bool u32
  | ExcludeRoute string int int bool
  | SetRemoteAddress string bool
  | SetSessionName string
  | AddProxyBypass string
  | SetProxyAutoConfigUrl string
  | SetProxyHttp string int
  | SetProxyHttps string int

fun builder_step :: "builder_call \<Rightarrow> OpenVpnTunBuilder \<Rightarrow> bool \<times> OpenVpnTunBuilder" where
  "builder_step (AddAddress a p g v6 n30) b = tun_builder_add_address a p g v6 n30 b"
| "builder_step (SetMtu n) b = tun_builder_set_mtu n b"
| "builder_step (SetDnsOptions dns) b = tun_builder_set_dns_options dns b"
| "builder_step (AddRoute a p m v6) b = tun_builder_add_route a p m v6 b"
| "builder_step (RerouteGw v4 v6 fl) b = tun_builder_reroute_gw v4 v6 fl b"
| "builder_step (ExcludeRoute a p m v6) b = tun_builder_exclude_route a p m v6 b"
| "builder_step (SetRemoteAddress a v6) b = tun_builder_set_remote_address a v6 b"
| "builder_step (SetSessionName s) b = tun_builder_set_session_name s b"
| "builder_step (AddProxyBypass s) b = tun_builder_add_proxy_bypass s b"
| "builder_step (SetProxyAutoConfigUrl s) b = tun_builder_set_proxy_auto_config_url s b"
| "builder_step (SetProxyHttp s n) b = tun_builder_set_proxy_http s n b"
| "builder_step (SetProxyHttps s n) b = tun_builder_set_proxy_https s n b"

fun builder_run :: "builder_call list \<Rightarrow> OpenVpnTunBuilder \<Rightarrow> OpenVpnTunBuilder" where
  "builder_run [] b = b"
| "builder_run (c # cs) b = builder_run cs (snd (builder_step c b))"

text \<open>What the calls say, read off the whole list.\<close>

definition described_addresses :: "builder_call list \<Rightarrow> TunAddress list" where
  "described_addresses cs = concat (map (\<lambda>c. case c of
       AddAddress a p g v6 n30 \<Rightarrow>
         [\<lparr>tun_address = a, tun_gateway = g, prefix_length = p, tun_ipv6 = v6, net30 = n30\<rparr>]
     | _ \<Rightarrow> []) cs)"

definition described_dns :: "builder_call list \<Rightarrow> string list" where
  "described_dns cs = concat (map (\<lambda>c. case c of SetDnsOptions dns \<Rightarrow> concat (map snd dns) | _ \<Rightarrow> []) cs)"

definition described_mtu :: "builder_call list \<Rightarrow> int" where
  "described_mtu cs = last (1500 # concat (map (\<lambda>c. case c of SetMtu n \<Rightarrow> [n] | _ \<Rightarrow> []) cs))"

definition described_tunnel :: "builder_call list \<Rightarrow> TunConfig" where
  "described_tunnel cs =
     \<lparr>addresses = described_addresses cs, ipv4_dns = filter (\<lambda>a. \<not> has_colon a) (described_dns cs),
      ipv6_dns = filter has_colon (described_dns cs), mtu = described_mtu cs\<rparr>"

lemmas builder_defs =
  tun_builder_add_address_def tun_builder_set_mtu_def tun_builder_set_dns_options_def tun_builder_add_route_def
  tun_builder_reroute_gw_def tun_builder_exclude_route_def tun_builder_set_remote_address_def
  tun_builder_set_session_name_def tun_builder_add_proxy_bypass_def tun_builder_set_proxy_auto_config_url_def
  tun_builder_set_proxy_http_def tun_builder_set_proxy_https_def

lemma add_dns_addresses_pending:
  "pending (add_dns_addresses as b) =
     (pending b)\<lparr>ipv4_dns := ipv4_dns (pending b) @ filter (\<lambda>a. \<not> has_colon a) as,
       ipv6_dns := ipv6_dns (pending b) @ filter has_colon as\<rparr>"
  by (induction as b rule: add_dns_addresses.induct) (simp_all add: tun_builder_add_dns_server_def)

lemma add_dns_servers_pending:
  "pending (add_dns_servers dns b) =
     (pending b)\<lparr>ipv4_dns := ipv4_dns (pending b) @ filter (\<lambda>a. \<not> has_colon a) (concat (map snd dns)),
       ipv6_dns := ipv6_dns (pending b) @ filter has_colon (concat (map snd dns))\<rparr>"
  by (induction dns b rule: add_dns_servers.induct) (simp_all add: add_dns_addresses_pending)

lemma builder_run_append: "builder_run (cs @ ds) b = builder_run ds (builder_run cs b)"
  by (induction cs arbitrary: b) simp_all

lemma builder_run_pending: "pending (builder_run cs (snd (tun_builder_new b))) = described_tunnel cs"
proof (induction cs rule: rev_induct)
  case Nil
  then show ?case
    by (simp add: tun_builder_new_def described_tunnel_def described_addresses_def described_dns_def
        described_mtu_def default_TunConfig_def)
next
  case (snoc c cs)
  then show ?case
    by (cases c) (simp_all add: builder_run_append builder_defs add_dns_servers_pending described_tunnel_def
        described_addresses_def described_dns_def described_mtu_def)
qed

section \<open>Establishing\<close>

text \<open>The triple of words an IPv4 address sets, when it is acceptable.\<close>

definition ip4_setting :: "TunAddress \<Rightarrow> (u32 \<times> u32 \<times> u32) option" where
  "ip4_setting a =
     (case (ipaddr_aton (c_str (tun_address a)), prefix_to_netmask (prefix_length a),
            if tun_gateway a = [] then Some 0 else map_option ip_2_ip4 (ipaddr_aton (c_str (tun_gateway a)))) of
        (Some ip, Inr nm, Some gw) \<Rightarrow> Some (ip_2_ip4 ip, nm, gw)
      | _ \<Rightarrow> None)"

definition address_ok :: "TunAddress \<Rightarrow> bool" where
  "address_ok a \<longleftrightarrow>
     (if tun_ipv6 a then ipaddr_aton (c_str (tun_address a)) \<noteq> None else ip4_setting a \<noteq> None)"

fun last_ip4 :: "TunAddress list \<Rightarrow> u32 \<times> u32 \<times> u32 \<Rightarrow> u32 \<times> u32 \<times> u32" where
  "last_ip4 [] d = d"
| "last_ip4 (a # as) d =
     last_ip4 as (if tun_ipv6 a then d else case ip4_setting a of None \<Rightarrow> d | Some w \<Rightarrow> w)"

lemma apply_addresses_result:
  "(fst (apply_addresses as s) = None \<longleftrightarrow> (\<forall>a\<in>set as. address_ok a)) \<and>
   (fst (apply_addresses as s) = None \<longrightarrow> netif_ip4 (snd (apply_addresses as s)) = last_ip4 as (netif_ip4 s))"
proof (induction as s rule: apply_addresses.induct)
  case (2 a rest s)
  then show ?case
    by (auto simp: address_ok_def ip4_setting_def parse_ip_addr_def bind_result_def
        split: option.splits sum.splits)
qed simp

lemma apply_addresses_frame:
  "active_config (snd (apply_addresses as s)) = active_config s"
  "netif_mtu (snd (apply_addresses as s)) = netif_mtu s"
  "packet_output (snd (apply_addresses as s)) = packet_output s"
  by (induction as s rule: apply_addresses.induct) (auto split: sum.splits)

section \<open>Properties\<close>

text \<open>
  (C11) The builder refines the description of the tunnel: after \<^verbatim>\<open>tun_builder_new\<close> and any
  sequence of calls, all of which report success, the collected configuration is the one read
  off the calls: the addresses in order, the DNS servers split by address family, the last MTU.
\<close>

theorem builder_refines_description:
  "pending (builder_run cs (snd (tun_builder_new b))) = described_tunnel cs \<and> fst (builder_step c b)"
  by (cases c) (simp_all add: builder_run_pending builder_defs)

text \<open>
  (C29) Establishing succeeds exactly for acceptable addresses, and then the interface has the
  last IPv4 address with its mask and gateway, the builder's output and its configuration. On
  failure the configuration is replaced all the same, while the old output stays.
\<close>

theorem establish_exact:
  "case tun_builder_establish out b s of (r, t) \<Rightarrow>
     active_config t = pending b \<and>
     (if list_all address_ok (addresses (pending b))
      then r = 0 \<and> packet_output t = Some out \<and> netif_ip4 t = last_ip4 (addresses (pending b)) (netif_ip4 s)
      else r = -1 \<and> packet_output t = packet_output s)"
proof -
  let ?s = "s\<lparr>active_config := pending b,
    netif_mtu := word_of_int (if mtu (pending b) > 0 then mtu (pending b) else 1500)\<rparr>"
  obtain r t where e: "apply_addresses (addresses (pending b)) ?s = (r, t)" by fastforce
  show ?thesis
    using apply_addresses_result [of "addresses (pending b)" ?s] apply_addresses_frame [of "addresses (pending b)" ?s] e
    by (cases r) (auto simp: tun_builder_establish_def apply_tun_config_and_output_def apply_tun_config_locked_def list_all_iff)
qed

text \<open>
  The MTU of the interface is the pushed one modulo 65536, and 1500 when none or a
  negative one was given: values from 65536 on are truncated, 65536 itself to zero.
\<close>

theorem establish_mtu_bounds:
  "unat (netif_mtu (snd (tun_builder_establish out b s))) =
     nat (if 0 < mtu (pending b) then mtu (pending b) else 1500) mod 65536"
proof -
  define m where "m = (if 0 < mtu (pending b) then mtu (pending b) else 1500)"
  let ?s = "s\<lparr>active_config := pending b, netif_mtu := word_of_int m\<rparr>"
  obtain r t where e: "apply_addresses (addresses (pending b)) ?s = (r, t)" by fastforce
  have "netif_mtu t = word_of_int m"
    using apply_addresses_frame(2) [of "addresses (pending b)" ?s] e by simp
  then have "netif_mtu (snd (tun_builder_establish out b s)) = word_of_int m"
    using e
    by (cases r) (simp_all add: tun_builder_establish_def apply_tun_config_and_output_def apply_tun_config_locked_def
        m_def [symmetric])
  moreover have "unat (word_of_int m :: u16) = nat m mod 65536"
    by (simp add: m_def unsigned_of_int take_bit_eq_mod nat_mod_distrib)
  ultimately show ?thesis by (simp only: m_def)
qed

end
