(* ===== verification/OpenVpnCipherScan.thy ===== *)
theory OpenVpnCipherScan
  imports Prelude
begin

text \<open>
  The look at an OpenVPN profile before it is used,
  \<^verbatim>\<open>scan_ovpn_for_non_aead_cipher\<close> of \<^verbatim>\<open>src/src/OpenVpnClient.cpp\<close>: whether it
  names a data cipher that is not an AEAD one.

  The regular expression \<^verbatim>\<open>^\s*(?:data-)?cipher\s+(\S+)\<close> is matched the way
  \<^verbatim>\<open>std::regex\<close> does for its grammar with the flags icase and multiline. White space and
  the letters of the keywords are disjoint, so the greedy match is the only one at a position
  and no backtracking is left.
\<close>

section \<open>Matching\<close>

definition regex_space :: "char \<Rightarrow> bool" where
  "regex_space c \<longleftrightarrow> c \<in> set [CHR '' '', CHR 0x09, CHR 0x0A, CHR 0x0B, CHR 0x0C, CHR 0x0D]"

definition line_terminator :: "char \<Rightarrow> bool" where
  "line_terminator c \<longleftrightarrow> c = CHR 0x0A \<or> c = CHR 0x0D"

definition to_lower :: "char \<Rightarrow> char" where
  "to_lower c = (if 65 \<le> (of_char c :: nat) \<and> (of_char c :: nat) \<le> 90 then char_of (of_char c + 32 :: nat) else c)"

fun strip_icase :: "string \<Rightarrow> string \<Rightarrow> string option" where
  "strip_icase [] s = Some s"
| "strip_icase (k # ks) [] = None"
| "strip_icase (k # ks) (c # cs) = (if to_lower c = k then strip_icase ks cs else None)"

text \<open>
  The pieces of the expression, each with what is left behind it: the keyword, and the white
  space with the cipher that is captured.
\<close>

definition match_keyword :: "string \<Rightarrow> string option" where
  "match_keyword s =
     (case strip_icase ''data-'' s of
        Some r \<Rightarrow> strip_icase ''cipher'' r
      | None \<Rightarrow> strip_icase ''cipher'' s)"

definition match_name :: "string \<Rightarrow> (string \<times> string) option" where
  "match_name s =
     (let r = dropWhile regex_space s; c = takeWhile (\<lambda>c. \<not> regex_space c) r
      in if takeWhile regex_space s = [] \<or> c = [] then None
         else Some (c, dropWhile (\<lambda>c. \<not> regex_space c) r))"

definition match_cipher :: "string \<Rightarrow> (string \<times> string) option" where
  "match_cipher s =
     (case match_keyword (dropWhile regex_space s) of None \<Rightarrow> None | Some r \<Rightarrow> match_name r)"

lemma strip_icase_iff: "strip_icase ks s = Some r \<longleftrightarrow> (\<exists>p. s = p @ r \<and> map to_lower p = ks)"
proof (induction ks s rule: strip_icase.induct)
  case (3 k ks c cs)
  then show ?case by (auto simp: Cons_eq_append_conv)
qed auto

lemma strip_icase_append: "map to_lower p = ks \<Longrightarrow> strip_icase ks (p @ r) = Some r"
  by (simp add: strip_icase_iff)

lemma strip_icaseE:
  assumes "strip_icase ks s = Some r"
  obtains p where "s = p @ r" "map to_lower p = ks"
  using assms unfolding strip_icase_iff by blast

declare strip_icase.simps [simp del]

lemma to_lower_space: "regex_space c \<Longrightarrow> to_lower c = c"
  by (auto simp: regex_space_def to_lower_def)

text \<open>A keyword, written in either case, and the pieces of a match.\<close>

definition cipher_keyword :: "string \<Rightarrow> bool" where
  "cipher_keyword kw \<longleftrightarrow> map to_lower kw = ''cipher'' \<or> map to_lower kw = ''data-cipher''"

definition cipher_line :: "string \<Rightarrow> string \<Rightarrow> string \<Rightarrow> string \<Rightarrow> string \<Rightarrow> bool" where
  "cipher_line ws kw sp c r \<longleftrightarrow>
     list_all regex_space ws \<and> cipher_keyword kw \<and> sp \<noteq> [] \<and> list_all regex_space sp \<and>
     c \<noteq> [] \<and> list_all (\<lambda>c. \<not> regex_space c) c \<and> (r = [] \<or> regex_space (hd r))"

lemma keyword_chars:
  assumes "cipher_keyword kw"
  shows "kw \<noteq> []" "list_all (\<lambda>c. \<not> regex_space c) kw"
proof -
  have "\<not> regex_space c" if "c \<in> set kw" for c
  proof
    assume sp: "regex_space c"
    with that have "c \<in> set (map to_lower kw)" by (metis image_eqI list.set_map to_lower_space)
    with assms sp show False by (auto simp: cipher_keyword_def regex_space_def)
  qed
  with assms show "kw \<noteq> []" "list_all (\<lambda>c. \<not> regex_space c) kw" by (auto simp: cipher_keyword_def list_all_iff)
qed

lemma match_keyword_iff: "match_keyword s = Some r \<longleftrightarrow> (\<exists>kw. s = kw @ r \<and> cipher_keyword kw)"
proof
  assume m: "match_keyword s = Some r"
  show "\<exists>kw. s = kw @ r \<and> cipher_keyword kw"
  proof (cases "strip_icase ''data-'' s")
    case None
    with m have "strip_icase ''cipher'' s = Some r" by (simp add: match_keyword_def)
    then obtain b where "s = b @ r" "map to_lower b = ''cipher''" by (rule strip_icaseE)
    then show ?thesis by (auto simp: cipher_keyword_def)
  next
    case (Some u)
    with m have "strip_icase ''cipher'' u = Some r" by (simp add: match_keyword_def)
    then obtain b where b: "u = b @ r" "map to_lower b = ''cipher''" by (rule strip_icaseE)
    obtain a where "s = a @ u" "map to_lower a = ''data-''" using Some by (rule strip_icaseE)
    with b show ?thesis by (intro exI [of _ "a @ b"]) (simp add: cipher_keyword_def)
  qed
next
  assume "\<exists>kw. s = kw @ r \<and> cipher_keyword kw"
  then obtain kw where s: "s = kw @ r" and kw: "cipher_keyword kw" by blast
  show "match_keyword s = Some r"
  proof (cases "map to_lower kw = ''cipher''")
    case True
    then have "strip_icase ''data-'' (kw @ r) = None" by (cases kw) (auto simp: strip_icase.simps)
    with True strip_icase_append [of kw] s show ?thesis by (simp add: match_keyword_def)
  next
    case False
    with kw have k: "map to_lower kw = ''data-cipher''" by (simp add: cipher_keyword_def)
    have "strip_icase ''data-'' (take 5 kw @ drop 5 kw @ r) = Some (drop 5 kw @ r)"
      "strip_icase ''cipher'' (drop 5 kw @ r) = Some r"
      using k by (intro strip_icase_append, simp flip: take_map drop_map)+
    moreover have "s = take 5 kw @ drop 5 kw @ r" using s by simp
    ultimately show ?thesis by (simp add: match_keyword_def del: append_take_drop_id)
  qed
qed

lemma dropWhile_all: "list_all P xs \<Longrightarrow> dropWhile P (xs @ ys) = dropWhile P ys"
  by (induction xs) auto

lemma takeWhile_all: "list_all P xs \<Longrightarrow> takeWhile P (xs @ ys) = xs @ takeWhile P ys"
  by (induction xs) auto

lemma While_stop: "ys = [] \<or> \<not> P (hd ys) \<Longrightarrow> dropWhile P ys = ys \<and> takeWhile P ys = []"
  by (cases ys) auto

lemma match_name_iff:
  "match_name s = Some (c, r) \<longleftrightarrow>
     (\<exists>sp. s = sp @ c @ r \<and> sp \<noteq> [] \<and> list_all regex_space sp \<and> c \<noteq> [] \<and> list_all (\<lambda>c. \<not> regex_space c) c \<and>
       (r = [] \<or> regex_space (hd r)))"
proof
  assume m: "match_name s = Some (c, r)"
  then have c: "c = takeWhile (\<lambda>c. \<not> regex_space c) (dropWhile regex_space s)" "c \<noteq> []"
    and r: "r = dropWhile (\<lambda>c. \<not> regex_space c) (dropWhile regex_space s)" and sp: "takeWhile regex_space s \<noteq> []"
    by (auto simp: match_name_def Let_def split: if_splits)
  have "s = takeWhile regex_space s @ c @ r" using c(1) r by simp
  moreover have "list_all (\<lambda>c. \<not> regex_space c) c" "list_all regex_space (takeWhile regex_space s)"
    using c(1) by (auto simp: list_all_iff dest: set_takeWhileD)
  moreover have "r = [] \<or> regex_space (hd r)" using r hd_dropWhile by blast
  ultimately show "\<exists>sp. s = sp @ c @ r \<and> sp \<noteq> [] \<and> list_all regex_space sp \<and> c \<noteq> [] \<and>
      list_all (\<lambda>c. \<not> regex_space c) c \<and> (r = [] \<or> regex_space (hd r))"
    using sp c(2) by blast
next
  assume "\<exists>sp. s = sp @ c @ r \<and> sp \<noteq> [] \<and> list_all regex_space sp \<and> c \<noteq> [] \<and>
      list_all (\<lambda>c. \<not> regex_space c) c \<and> (r = [] \<or> regex_space (hd r))"
  then obtain sp where s: "s = sp @ c @ r" "sp \<noteq> []" "list_all regex_space sp" and c: "c \<noteq> []" "list_all (\<lambda>c. \<not> regex_space c) c"
    and r: "r = [] \<or> regex_space (hd r)" by blast
  have "\<not> regex_space (hd (c @ r))" using c by (cases c) auto
  then have d: "dropWhile regex_space s = c @ r" "takeWhile regex_space s = sp"
    using s While_stop [of "c @ r" regex_space] by (simp_all add: dropWhile_all takeWhile_all)
  have "takeWhile (\<lambda>c. \<not> regex_space c) (c @ r) = c" "dropWhile (\<lambda>c. \<not> regex_space c) (c @ r) = r"
    using c(2) r While_stop [of r "\<lambda>c. \<not> regex_space c"] by (auto simp: dropWhile_all takeWhile_all)
  with d s(2) c(1) show "match_name s = Some (c, r)" by (simp add: match_name_def)
qed

lemma match_cipher_iff:
  "match_cipher s = Some (c, r) \<longleftrightarrow> (\<exists>ws kw sp. s = ws @ kw @ sp @ c @ r \<and> cipher_line ws kw sp c r)"
proof
  assume "match_cipher s = Some (c, r)"
  then obtain t where "match_keyword (dropWhile regex_space s) = Some t" "match_name t = Some (c, r)"
    by (auto simp: match_cipher_def split: option.splits)
  then obtain kw sp where d: "dropWhile regex_space s = kw @ sp @ c @ r" "cipher_line [] kw sp c r"
    unfolding match_keyword_iff match_name_iff cipher_line_def by fastforce
  moreover have "list_all regex_space (takeWhile regex_space s)" by (auto simp: list_all_iff dest: set_takeWhileD)
  ultimately have "s = takeWhile regex_space s @ kw @ sp @ c @ r \<and> cipher_line (takeWhile regex_space s) kw sp c r"
    by (metis cipher_line_def takeWhile_dropWhile_id)
  then show "\<exists>ws kw sp. s = ws @ kw @ sp @ c @ r \<and> cipher_line ws kw sp c r" by blast
next
  assume "\<exists>ws kw sp. s = ws @ kw @ sp @ c @ r \<and> cipher_line ws kw sp c r"
  then obtain ws kw sp where s: "s = ws @ kw @ sp @ c @ r" and l: "cipher_line ws kw sp c r" by blast
  have kw: "cipher_keyword kw" using l by (simp add: cipher_line_def)
  have "\<not> regex_space (hd (kw @ sp @ c @ r))" using keyword_chars [OF kw] by (cases kw) auto
  then have "dropWhile regex_space s = kw @ sp @ c @ r"
    using l s While_stop [of "kw @ sp @ c @ r" regex_space] by (simp add: cipher_line_def dropWhile_all)
  moreover have "match_keyword (kw @ sp @ c @ r) = Some (sp @ c @ r)" using kw match_keyword_iff by blast
  moreover have "match_name (sp @ c @ r) = Some (c, r)" using l unfolding match_name_iff cipher_line_def by blast
  ultimately show "match_cipher s = Some (c, r)" by (simp add: match_cipher_def)
qed

lemma match_cipher_length: "match_cipher s = Some (c, r) \<Longrightarrow> length r < length s"
  unfolding match_cipher_iff cipher_line_def by auto

text \<open>
  The successive matches. The flag says whether the position is the beginning of a line; the
  search goes on behind a match.
\<close>

function cipher_matches :: "bool \<Rightarrow> string \<Rightarrow> string list" where
  "cipher_matches bol s =
     (case (if bol then match_cipher s else None) of
        Some (c, r) \<Rightarrow> c # cipher_matches False r
      | None \<Rightarrow> (case s of [] \<Rightarrow> [] | c # cs \<Rightarrow> cipher_matches (line_terminator c) cs))"
  by pat_completeness auto
termination
  by (relation "measure (\<lambda>(bol, s). length s)") (auto split: if_splits dest: match_cipher_length)

declare cipher_matches.simps [simp del]

definition AEAD_CIPHERS :: "string list" where
  "AEAD_CIPHERS = [''AES-128-GCM'', ''AES-192-GCM'', ''AES-256-GCM'', ''CHACHA20-POLY1305'']"

definition non_aead :: "string \<Rightarrow> bool" where
  "non_aead m = (let cipher = filter (\<lambda>c. c \<noteq> CHR 0x0D) m in cipher \<noteq> ''none'' \<and> cipher \<notin> set AEAD_CIPHERS)"

definition scan_ovpn_for_non_aead_cipher :: "string \<Rightarrow> bool" where
  "scan_ovpn_for_non_aead_cipher content = list_ex non_aead (cipher_matches True content)"

section \<open>The search finds what is there\<close>

text \<open>A line that names a cipher that is not an AEAD one, and whether there is one from here on.\<close>

definition non_aead_line :: "string \<Rightarrow> bool" where
  "non_aead_line s = (case match_cipher s of None \<Rightarrow> False | Some (c, r) \<Rightarrow> non_aead c)"

fun some_line :: "bool \<Rightarrow> string \<Rightarrow> bool" where
  "some_line bol [] = (bol \<and> non_aead_line [])"
| "some_line bol (c # cs) = (bol \<and> non_aead_line (c # cs) \<or> some_line (line_terminator c) cs)"

definition starts_line :: "bool \<Rightarrow> string \<Rightarrow> bool" where
  "starts_line bol pre = (if pre = [] then bol else line_terminator (last pre))"

lemma starts_line_Cons: "starts_line bol (x # xs) = starts_line (line_terminator x) xs"
  by (simp add: starts_line_def)

lemma some_line_iff: "some_line bol s \<longleftrightarrow> (\<exists>pre t. s = pre @ t \<and> starts_line bol pre \<and> non_aead_line t)"
proof (induction s arbitrary: bol)
  case Nil
  then show ?case by (auto simp: starts_line_def)
next
  case (Cons x s)
  have "(\<exists>pre t. x # s = pre @ t \<and> starts_line bol pre \<and> non_aead_line t) \<longleftrightarrow>
      bol \<and> non_aead_line (x # s) \<or> (\<exists>pre t. s = pre @ t \<and> starts_line (line_terminator x) pre \<and> non_aead_line t)"
    (is "?lhs \<longleftrightarrow> ?rhs")
  proof
    assume ?lhs
    then obtain pre t where p: "x # s = pre @ t" "starts_line bol pre" "non_aead_line t" by blast
    then show ?rhs
    proof (cases pre)
      case (Cons y pre')
      with p have "s = pre' @ t" "starts_line (line_terminator x) pre'" by (simp_all add: starts_line_Cons)
      with p(3) show ?thesis by blast
    qed (use p in \<open>simp add: starts_line_def\<close>)
  next
    assume ?rhs
    then show ?lhs
    proof
      assume "\<exists>pre t. s = pre @ t \<and> starts_line (line_terminator x) pre \<and> non_aead_line t"
      then obtain pre t where "x # s = (x # pre) @ t" "starts_line bol (x # pre)" "non_aead_line t"
        by (auto simp: starts_line_Cons)
      then show ?lhs by blast
    next
      assume "bol \<and> non_aead_line (x # s)"
      then have "x # s = [] @ (x # s) \<and> starts_line bol [] \<and> non_aead_line (x # s)" by (simp add: starts_line_def)
      then show ?lhs by blast
    qed
  qed
  with Cons.IH show ?case by simp
qed

lemma some_line_skip:
  assumes "\<And>u v. xs = u @ v \<Longrightarrow> v \<noteq> [] \<Longrightarrow> starts_line bol u \<Longrightarrow> \<not> non_aead_line (v @ r)"
  shows "some_line bol (xs @ r) = some_line (starts_line bol xs) r"
  using assms
proof (induction xs arbitrary: bol)
  case (Cons x xs)
  have "\<not> (bol \<and> non_aead_line ((x # xs) @ r))" using Cons.prems [of "[]" "x # xs"] by (auto simp: starts_line_def)
  moreover have "some_line (line_terminator x) (xs @ r) = some_line (starts_line (line_terminator x) xs) r"
    using Cons.prems [of "x # u" v for u v] by (intro Cons.IH) (auto simp: starts_line_Cons)
  ultimately show ?case by (auto simp: starts_line_Cons)
qed (simp add: starts_line_def)

text \<open>The name of an AEAD cipher is no keyword.\<close>

lemma aead_name_no_keyword:
  assumes "\<not> non_aead c" "list_all (\<lambda>c. \<not> regex_space c) c"
  shows "match_keyword (c @ r) = None"
proof -
  have "filter (\<lambda>c. c \<noteq> CHR 0x0D) c = c" using assms(2) by (auto simp: list_all_iff regex_space_def intro: filter_True)
  with assms(1) have "c = ''none'' \<or> c \<in> set AEAD_CIPHERS" by (auto simp: non_aead_def)
  then show ?thesis by (auto simp: AEAD_CIPHERS_def match_keyword_def strip_icase.simps to_lower_def)
qed

lemma not_terminator: "\<not> regex_space c \<Longrightarrow> \<not> line_terminator c"
  by (auto simp: regex_space_def line_terminator_def)

lemma starts_line_word:
  assumes "list_all (\<lambda>c. \<not> regex_space c) u" "u \<noteq> []"
  shows "\<not> starts_line bol u"
  using assms by (simp add: starts_line_def not_terminator list_all_iff)

text \<open>
  A match that names an AEAD cipher hides nothing: no line that begins inside of it names
  another kind of cipher.
\<close>

lemma aead_match_hides_nothing:
  assumes l: "cipher_line ws kw sp c r" and a: "\<not> non_aead c"
  shows "some_line bol (ws @ kw @ sp @ c @ r) = some_line False r"
proof -
  note parts = l [unfolded cipher_line_def] and kwc = keyword_chars [of kw]
  have line: "\<not> non_aead_line (v @ kw @ sp @ c @ r)" if "list_all regex_space v" for v
  proof -
    have "cipher_line v kw sp c r" using parts that by (simp add: cipher_line_def)
    then have "match_cipher (v @ kw @ sp @ c @ r) = Some (c, r)" using match_cipher_iff by blast
    with a show ?thesis by (simp add: non_aead_line_def)
  qed
  have name: "\<not> non_aead_line (v @ c @ r)" if "list_all regex_space v" for v
  proof -
    have "\<not> regex_space (hd (c @ r))" using parts by (cases c) auto
    then have "dropWhile regex_space (v @ c @ r) = c @ r"
      using that While_stop [of "c @ r" regex_space] by (simp add: dropWhile_all)
    then show ?thesis using aead_name_no_keyword [OF a, of r] parts by (simp add: non_aead_line_def match_cipher_def)
  qed
  have "some_line bol (ws @ kw @ sp @ c @ r) = some_line (starts_line bol ws) (kw @ sp @ c @ r)"
    using parts by (intro some_line_skip line) simp
  also have "\<dots> = some_line (starts_line (starts_line bol ws) kw) (sp @ c @ r)"
  proof (rule some_line_skip)
    fix u v assume uv: "kw = u @ v" "v \<noteq> []" "starts_line (starts_line bol ws) u"
    have "list_all (\<lambda>c. \<not> regex_space c) u" using kwc(2) parts uv(1) by simp
    with starts_line_word uv(3) have "u = []" by blast
    with line [of "[]"] uv(1) show "\<not> non_aead_line (v @ sp @ c @ r)" by simp
  qed
  also have "\<dots> = some_line (starts_line (starts_line (starts_line bol ws) kw) sp) (c @ r)"
    using parts by (intro some_line_skip name) simp
  also have "\<dots> = some_line (starts_line (starts_line (starts_line (starts_line bol ws) kw) sp) c) r"
  proof (rule some_line_skip)
    fix u v assume uv: "c = u @ v" "v \<noteq> []" "starts_line (starts_line (starts_line (starts_line bol ws) kw) sp) u"
    have "list_all (\<lambda>c. \<not> regex_space c) u" using parts uv(1) by simp
    with starts_line_word uv(3) have "u = []" by blast
    with name [of "[]"] uv(1) show "\<not> non_aead_line (v @ r)" by simp
  qed
  finally show ?thesis using starts_line_word [of c] parts by simp
qed

lemma cipher_matches_some_line: "list_ex non_aead (cipher_matches bol s) = some_line bol s"
proof (induction bol s rule: cipher_matches.induct)
  case (1 bol s)
  show ?case
  proof (cases "if bol then match_cipher s else None")
    case None
    then have "\<not> (bol \<and> non_aead_line s)" by (auto simp: non_aead_line_def split: if_splits)
    moreover have "cipher_matches bol s = (case s of [] \<Rightarrow> [] | c # cs \<Rightarrow> cipher_matches (line_terminator c) cs)"
      by (subst cipher_matches.simps) (simp only: None option.case)
    ultimately show ?thesis using "1.IH"(1) [OF None] by (cases s) auto
  next
    case (Some cr)
    obtain c r where cr: "cr = (c, r)" by fastforce
    with Some have bol: bol "match_cipher s = Some (c, r)" by (auto split: if_splits)
    have "cipher_matches bol s = c # cipher_matches False r"
      by (subst cipher_matches.simps) (simp only: Some cr option.case prod.case)
    then have ex: "list_ex non_aead (cipher_matches bol s) = (non_aead c \<or> some_line False r)"
      using "1.IH"(2) [OF Some cr [symmetric]] by simp
    show ?thesis
    proof (cases "non_aead c")
      case True
      then have "non_aead_line s" using bol by (simp add: non_aead_line_def)
      then have "some_line bol s" using bol(1) by (cases s) simp_all
      with ex True show ?thesis by simp
    next
      case False
      from bol(2) obtain ws kw sp where "s = ws @ kw @ sp @ c @ r" "cipher_line ws kw sp c r"
        unfolding match_cipher_iff by blast
      with aead_match_hides_nothing [OF _ False] ex False show ?thesis by simp
    qed
  qed
qed

section \<open>Properties\<close>

text \<open>
  (C16) The scan of a profile is exact: although it goes on behind each match, it answers yes exactly
  if somewhere a line begins that names, behind white space and the keyword \<^verbatim>\<open>cipher\<close>
  or \<^verbatim>\<open>data-cipher\<close> in either case, a cipher that is neither \<^verbatim>\<open>none\<close> nor one
  of the four AEAD names.
\<close>

theorem scan_ovpn_exact:
  "scan_ovpn_for_non_aead_cipher content \<longleftrightarrow>
     (\<exists>pre ws kw sp c r. content = pre @ ws @ kw @ sp @ c @ r \<and> starts_line True pre \<and>
        cipher_line ws kw sp c r \<and> non_aead c)"
proof -
  have "non_aead_line t \<longleftrightarrow> (\<exists>c r. match_cipher t = Some (c, r) \<and> non_aead c)" for t
    by (cases "match_cipher t") (auto simp: non_aead_line_def)
  then have "scan_ovpn_for_non_aead_cipher content \<longleftrightarrow>
      (\<exists>pre t. content = pre @ t \<and> starts_line True pre \<and> (\<exists>c r. match_cipher t = Some (c, r) \<and> non_aead c))"
    by (simp only: scan_ovpn_for_non_aead_cipher_def cipher_matches_some_line some_line_iff)
  then show ?thesis unfolding match_cipher_iff by blast
qed

text \<open>
  The comparison with the AEAD names is one of exact case, unlike the match of the keyword; and the
  list option \<^verbatim>\<open>data-ciphers\<close> is not seen at all.
\<close>

lemma scan_ovpn_case: "scan_ovpn_for_non_aead_cipher ''cipher aes-256-gcm''"
  by code_simp

lemma scan_ovpn_data_ciphers: "\<not> scan_ovpn_for_non_aead_cipher ''data-ciphers AES-256-CBC''"
  by code_simp

end
