(* ===== verification/OpenVpnClient.thy ===== *)
theory OpenVpnClient
  imports OpenVpnTunBuilder OpenVpnCipherScan "HOL-Library.Sublist"
begin

text \<open>
  The OpenVPN client of an instance, \<^verbatim>\<open>src/src/OpenVpnClient.cpp\<close> as it is built with
  \<^verbatim>\<open>OVPN2SS_REAL_OPENVPN3\<close>. Two threads are at work: the thread of the instance calls
  \<open>start\<close>, \<open>stop\<close>, the setters of the handlers and \<open>send_l3_packet\<close>; a thread of its own runs the
  loop that connects, waits and connects again, and inside of \<^verbatim>\<open>connect()\<close> OpenVPN calls
  back into the in-memory tunnel. The loop is a state machine over a program counter, so the two
  threads interleave between any two of its tests.

  The core of OpenVPN is not part of the program. What it does is an argument of the events:
  whether a profile is refused, how a connection attempt ends, which calls of the tunnel builder
  it makes, which lines it logs. The object is the record \<open>OpenVpnClient\<close>; the network
  interface it feeds is a second state beside it.
\<close>

section \<open>Data\<close>

text \<open>\<^verbatim>\<open>openvpn::TunProp::State\<close>, filled in by OpenVPN; an address may be unspecified.\<close>

record TunState =
  vpn_ip4_addr :: "string option"
  vpn_ip6_addr :: "string option"
  vpn_ip4_gw :: "string option"
  vpn_ip6_gw :: "string option"
  state_mtu :: int

record MemoryTunClient =
  connected :: bool
  tun_state :: "TunState option"
  conf_mtu :: int

text \<open>\<^verbatim>\<open>openvpn::ClientAPI::Config\<close>, the fields that are set.\<close>

record CoreConfig =
  config_content :: string
  guiVersion :: string
  clockTickMS :: nat
  enableLegacyAlgorithms :: bool
  dco :: bool
  enableNonPreferredDCAlgorithms :: bool

text \<open>Where the thread of the client is.\<close>

datatype vpn_pc = NotStarted | LoopHead | Connecting | AfterAttempt | Sleeping int | AfterSleep | Finished

text \<open>
  A handler is present or not. \<open>impl\<close> counts the objects that were installed as
  \<^verbatim>\<open>impl_\<close>. \<open>tuns\<close> are the tunnel objects made so far, \<open>memory_tun\<close> is the number of the one
  the core points to, and \<open>openvpn_posts\<close> are the packets posted to the core's own
  \<^verbatim>\<open>io_context\<close>. The last fields record what happened: the cores that were told to stop,
  the connection attempts with the credentials that were provided, the waits between them, calls
  of the two handlers, errors reported to OpenVPN, packets handed in and packets passed on.
\<close>

record OpenVpnClient =
  vpn_config :: InstanceConfig
  profile :: string
  tun_builder :: OpenVpnTunBuilder
  impl :: nat
  impl_config :: "CoreConfig option"
  memory_tun :: "nat option"
  tuns :: "MemoryTunClient list"
  ready_handler :: bool
  disconnect_handler :: bool
  handlers_alive :: bool
  vpn_running :: bool
  needs_downgrade :: bool
  vpn_pc :: vpn_pc
  using_non_preferred :: bool
  reconnect_delay_ms :: int
  stop_requested :: bool
  openvpn_posts :: "(nat \<times> bytes) list"
  core_stops :: "nat list"
  attempts :: "(nat \<times> (string \<times> string) option) list"
  waits :: "int list"
  ready_calls :: nat
  down_calls :: nat
  tun_errors :: "string list"
  sent_packets :: "bytes list"
  to_openvpn :: "bytes list"

definition OpenVpnClient_new :: "InstanceConfig \<Rightarrow> OpenVpnClient" where
  "OpenVpnClient_new cfg =
     \<lparr>vpn_config = cfg, profile = [], tun_builder = \<lparr>pending = default_TunConfig\<rparr>, impl = 0, impl_config = None,
      memory_tun = None, tuns = [], ready_handler = False, disconnect_handler = False, handlers_alive = True,
      vpn_running = False, needs_downgrade = False, vpn_pc = NotStarted, using_non_preferred = False,
      reconnect_delay_ms = 2000, stop_requested = False, openvpn_posts = [], core_stops = [], attempts = [],
      waits = [], ready_calls = 0, down_calls = 0, tun_errors = [], sent_packets = [], to_openvpn = []\<rparr>"

section \<open>Handlers\<close>

text \<open>
  A notification copies the handler under the mutex and calls it. Both are members that are
  destroyed before the thread of the client is joined; using them then is undefined.
\<close>

definition set_ready_handler :: "bool \<Rightarrow> OpenVpnClient \<Rightarrow> OpenVpnClient" where
  "set_ready_handler h v = v\<lparr>ready_handler := h\<rparr>"

definition set_disconnect_handler :: "bool \<Rightarrow> OpenVpnClient \<Rightarrow> OpenVpnClient" where
  "set_disconnect_handler h v = v\<lparr>disconnect_handler := h\<rparr>"

definition notify_tun_ready :: "OpenVpnClient \<Rightarrow> exn option \<times> OpenVpnClient" where
  "notify_tun_ready v =
     (if \<not> handlers_alive v then (Some UseAfterFree, v)
      else (None, if ready_handler v then v\<lparr>ready_calls := ready_calls v + 1\<rparr> else v))"

definition notify_tun_down :: "OpenVpnClient \<Rightarrow> exn option \<times> OpenVpnClient" where
  "notify_tun_down v =
     (if \<not> handlers_alive v then (Some UseAfterFree, v)
      else (None, if disconnect_handler v then v\<lparr>down_calls := down_calls v + 1\<rparr> else v))"

section \<open>The in-memory tunnel\<close>

definition tun_name :: string where
  "tun_name = ''ovpn2ss-memory-tun''"

definition state_text :: "(TunState \<Rightarrow> string option) \<Rightarrow> MemoryTunClient \<Rightarrow> string" where
  "state_text f t =
     (case tun_state t of None \<Rightarrow> '''' | Some st \<Rightarrow> (case f st of None \<Rightarrow> '''' | Some a \<Rightarrow> a))"

definition vpn_ip4 :: "MemoryTunClient \<Rightarrow> string" where
  "vpn_ip4 t = state_text vpn_ip4_addr t"

definition vpn_ip6 :: "MemoryTunClient \<Rightarrow> string" where
  "vpn_ip6 t = state_text vpn_ip6_addr t"

definition vpn_gw4 :: "MemoryTunClient \<Rightarrow> string" where
  "vpn_gw4 t = state_text vpn_ip4_gw t"

definition vpn_gw6 :: "MemoryTunClient \<Rightarrow> string" where
  "vpn_gw6 t = state_text vpn_ip6_gw t"

definition vpn_mtu :: "MemoryTunClient \<Rightarrow> int" where
  "vpn_mtu t = (case tun_state t of None \<Rightarrow> conf_mtu t | Some st \<Rightarrow> state_mtu st)"

definition update_tun :: "nat \<Rightarrow> (MemoryTunClient \<Rightarrow> MemoryTunClient) \<Rightarrow> OpenVpnClient \<Rightarrow> OpenVpnClient" where
  "update_tun n f v = v\<lparr>tuns := (tuns v)[n := f (tuns v ! n)]\<rparr>"

definition tun_error :: "string \<Rightarrow> OpenVpnClient \<Rightarrow> OpenVpnClient" where
  "tun_error msg v = v\<lparr>tun_errors := tun_errors v @ [msg]\<rparr>"

text \<open>
  What OpenVPN does while the tunnel is started: the calls that
  \<^verbatim>\<open>TunProp::configure_builder\<close> makes, the state it fills in, and whether it or
  \<^verbatim>\<open>tun_connected\<close> throws.
\<close>

record tun_answers =
  builder_calls :: "builder_call list"
  configured :: TunState
  configure_throws :: bool
  connected_throws :: bool

definition tun_start ::
  "tun_answers \<Rightarrow> nat \<Rightarrow> OpenVpnClient \<Rightarrow> LwipRuntime \<Rightarrow> exn option \<times> OpenVpnClient \<times> LwipRuntime" where
  "tun_start ans n v lwip =
     (let (ok, b) = tun_builder_new (tun_builder v); v1 = v\<lparr>tun_builder := b\<rparr>
      in if \<not> ok then (None, tun_error ''memory tun builder reset failed'' v1, lwip)
         else
           let v2 = update_tun n (\<lambda>t. t\<lparr>tun_state := Some (configured ans)\<rparr>)
                      (v1\<lparr>tun_builder := builder_run (builder_calls ans) b\<rparr>)
           in if configure_throws ans then (None, tun_error ''exception'' v2, lwip)
              else case tun_builder_establish 0 (tun_builder v2) lwip of
                (rc, lwip1) \<Rightarrow>
                  if rc \<noteq> 0 then (None, tun_error ''memory tun establish failed'' v2, lwip1)
                  else
                    let v3 = update_tun n (\<lambda>t. t\<lparr>connected := True\<rparr>) v2
                    in if connected_throws ans then (None, tun_error ''exception'' v3, lwip1)
                       else case notify_tun_ready v3 of (e, v4) \<Rightarrow> (e, v4, lwip1))"

definition tun_stop :: "nat \<Rightarrow> OpenVpnClient \<Rightarrow> LwipRuntime \<Rightarrow> exn option \<times> OpenVpnClient \<times> LwipRuntime" where
  "tun_stop n v lwip =
     (case notify_tun_down (update_tun n (\<lambda>t. t\<lparr>connected := False\<rparr>) v) of
        (e, v1) \<Rightarrow> (e, v1, tun_builder_teardown True lwip))"

definition set_disconnect :: "nat \<Rightarrow> OpenVpnClient \<Rightarrow> exn option \<times> OpenVpnClient" where
  "set_disconnect n v = notify_tun_down (update_tun n (\<lambda>t. t\<lparr>connected := False\<rparr>) v)"

definition tun_send :: "bytes \<Rightarrow> LwipRuntime \<Rightarrow> bool \<times> LwipRuntime" where
  "tun_send buf lwip = (if buf = [] then (True, lwip) else (True, inject_from_openvpn buf lwip))"

text \<open>A packet for OpenVPN is copied behind 512 bytes of room for headers.\<close>

definition HEADROOM :: nat where
  "HEADROOM = 512"

record openvpn_buffer =
  capacity :: nat
  offset :: nat
  buffer_data :: bytes

definition make_openvpn_buffer :: "bytes \<Rightarrow> openvpn_buffer" where
  "make_openvpn_buffer packet = \<lparr>capacity = length packet + HEADROOM, offset = HEADROOM, buffer_data = packet\<rparr>"

definition tun_inject :: "nat \<Rightarrow> bytes \<Rightarrow> OpenVpnClient \<Rightarrow> OpenVpnClient" where
  "tun_inject n packet v =
     (if \<not> connected (tuns v ! n) \<or> packet = [] then v
      else v\<lparr>openvpn_posts := openvpn_posts v @ [(n, buffer_data (make_openvpn_buffer packet))]\<rparr>)"

text \<open>The task that was posted.\<close>

definition run_openvpn_post :: "OpenVpnClient \<Rightarrow> OpenVpnClient" where
  "run_openvpn_post v =
     (case openvpn_posts v of
        [] \<Rightarrow> v
      | (n, packet) # rest \<Rightarrow>
          (let v1 = v\<lparr>openvpn_posts := rest\<rparr>
           in if connected (tuns v ! n) then v1\<lparr>to_openvpn := to_openvpn v @ [packet]\<rparr> else v1))"

section \<open>The core client\<close>

definition core_stop :: "OpenVpnClient \<Rightarrow> OpenVpnClient" where
  "core_stop v = v\<lparr>core_stops := core_stops v @ [impl v]\<rparr>"

definition new_tun_client_obj :: "int \<Rightarrow> OpenVpnClient \<Rightarrow> OpenVpnClient" where
  "new_tun_client_obj m v =
     v\<lparr>tuns := tuns v @ [\<lparr>connected = False, tun_state = None, conf_mtu = m\<rparr>], memory_tun := Some (length (tuns v))\<rparr>"

definition core_event :: "string \<Rightarrow> OpenVpnClient \<Rightarrow> exn option \<times> OpenVpnClient" where
  "core_event ev_name v = (if ev_name = ''DISCONNECTED'' then notify_tun_down (v\<lparr>memory_tun := None\<rparr>) else (None, v))"

text \<open>\<^verbatim>\<open>text.find(pattern) != npos\<close>.\<close>

fun starts_with :: "string \<Rightarrow> string \<Rightarrow> bool" where
  "starts_with [] s = True"
| "starts_with (p # ps) [] = False"
| "starts_with (p # ps) (c # cs) = (p = c \<and> starts_with ps cs)"

fun contains_text :: "string \<Rightarrow> string \<Rightarrow> bool" where
  "contains_text p [] = starts_with p []"
| "contains_text p (c # cs) = (starts_with p (c # cs) \<or> contains_text p cs)"

definition core_log :: "string \<Rightarrow> OpenVpnClient \<Rightarrow> OpenVpnClient" where
  "core_log line v =
     (if line = [] then v
      else if \<not> needs_downgrade v \<and>
          (contains_text ''bad cipher for data channel'' line \<or> contains_text ''server-pushed cipher'' line \<or>
           contains_text ''Problem accepting server-pushed cipher'' line) then
        core_stop (v\<lparr>needs_downgrade := True\<rparr>)
      else v)"

text \<open>The answer to both requests for an external key: the error flag and its text.\<close>

definition external_pki_request :: "bool \<times> string" where
  "external_pki_request = (True, ''external PKI is not configured'')"

definition core_inject_l3_packet :: "bytes \<Rightarrow> OpenVpnClient \<Rightarrow> OpenVpnClient" where
  "core_inject_l3_packet packet v =
     (case memory_tun v of None \<Rightarrow> v | Some n \<Rightarrow> tun_inject n packet v)"

section \<open>Connecting\<close>

definition make_config :: "string \<Rightarrow> bool \<Rightarrow> CoreConfig" where
  "make_config content enable_np =
     \<lparr>config_content = content, guiVersion = ''ovpn2ss 0'', clockTickMS = 1000, enableLegacyAlgorithms = True,
      dco = False, enableNonPreferredDCAlgorithms = enable_np\<rparr>"

text \<open>\<open>eval_error\<close>: whether \<^verbatim>\<open>eval_config\<close> refuses the profile.\<close>

definition OpenVpnClient_start :: "string option \<Rightarrow> bool \<Rightarrow> OpenVpnClient \<Rightarrow> exn option \<times> OpenVpnClient" where
  "OpenVpnClient_start file eval_error v =
     (if vpn_running v then (None, v)
      else case file of
        None \<Rightarrow> (Some (RuntimeError (''cannot open ovpn config: '' @ ovpn_path (vpn_config v))), v\<lparr>vpn_running := False\<rparr>)
      | Some content \<Rightarrow>
          (let scanned = scan_ovpn_for_non_aead_cipher content;
               np = (scanned \<or> needs_downgrade v);
               v1 = v\<lparr>vpn_running := True, profile := content,
                      needs_downgrade := (if scanned then needs_downgrade v else False),
                      impl_config := Some (make_config content np)\<rparr>
           in if eval_error then (Some (RuntimeError ''openvpn config eval failed: ''), v1\<lparr>vpn_running := False\<rparr>)
              else (None, v1\<lparr>vpn_pc := LoopHead, using_non_preferred := np, reconnect_delay_ms := 2000,
                             stop_requested := False\<rparr>)))"

text \<open>
  The exchange of \<^verbatim>\<open>running_\<close>, the stop request and the call of the core are one step. A test of
  the loop that runs between them reads \<^verbatim>\<open>running_\<close> as false already and leaves the loop, as it
  does after all three.
\<close>

definition OpenVpnClient_stop :: "OpenVpnClient \<Rightarrow> OpenVpnClient" where
  "OpenVpnClient_stop v =
     (if vpn_running v then core_stop (v\<lparr>vpn_running := False, stop_requested := True\<rparr>)
      else v\<lparr>vpn_running := False\<rparr>)"

definition send_l3_packet :: "bytes \<Rightarrow> OpenVpnClient \<Rightarrow> OpenVpnClient" where
  "send_l3_packet packet v0 =
     (let v = v0\<lparr>sent_packets := sent_packets v0 @ [packet]\<rparr>
      in if \<not> vpn_running v \<or> packet = [] then v else core_inject_l3_packet packet v)"

text \<open>The condition of the loop and of its three tests.\<close>

definition keep_going :: "OpenVpnClient \<Rightarrow> bool" where
  "keep_going v \<longleftrightarrow> vpn_running v \<and> \<not> stop_requested v"

definition leave_loop :: "OpenVpnClient \<Rightarrow> OpenVpnClient" where
  "leave_loop v = v\<lparr>vpn_running := False, vpn_pc := Finished\<rparr>"

text \<open>A fresh core with a configuration; a refused profile ends the thread.\<close>

definition replace_impl :: "bool \<Rightarrow> bool \<Rightarrow> OpenVpnClient \<Rightarrow> OpenVpnClient" where
  "replace_impl enable_np eval_error v =
     (let v1 = v\<lparr>impl := impl v + 1, memory_tun := None, impl_config := Some (make_config (profile v) enable_np)\<rparr>
      in if eval_error then leave_loop v1 else v1\<lparr>vpn_pc := LoopHead\<rparr>)"

definition begin_attempt :: "OpenVpnClient \<Rightarrow> OpenVpnClient" where
  "begin_attempt v =
     (let u = vpn_username (vpn_config v); p = vpn_password (vpn_config v)
      in v\<lparr>vpn_pc := Connecting, attempts := attempts v @ [(impl v, if u \<noteq> '''' \<or> p \<noteq> '''' then Some (u, p) else None)]\<rparr>)"

definition connect_returns :: "bool \<Rightarrow> OpenVpnClient \<Rightarrow> OpenVpnClient" where
  "connect_returns eval_error v =
     (let downgrade = needs_downgrade v; v1 = v\<lparr>reconnect_delay_ms := 2000, needs_downgrade := False\<rparr>
      in if downgrade \<and> \<not> using_non_preferred v \<and> vpn_running v then
           replace_impl True eval_error (core_stop (v1\<lparr>using_non_preferred := True\<rparr>))
         else v1\<lparr>vpn_pc := AfterAttempt\<rparr>)"

definition connect_throws :: "OpenVpnClient \<Rightarrow> OpenVpnClient" where
  "connect_throws v = v\<lparr>vpn_pc := AfterAttempt\<rparr>"

text \<open>
  An exception that leaves the branch above, before or after the new core is in place: it is
  caught like one of \<^verbatim>\<open>connect()\<close>, and the core has no configuration that was evaluated.
\<close>

definition downgrade_throws :: "bool \<Rightarrow> OpenVpnClient \<Rightarrow> OpenVpnClient" where
  "downgrade_throws replaced v =
     (let v1 = core_stop (v\<lparr>reconnect_delay_ms := 2000, needs_downgrade := False, using_non_preferred := True\<rparr>);
          v2 = (if replaced then v1\<lparr>impl := impl v1 + 1, memory_tun := None, impl_config := None\<rparr> else v1)
      in v2\<lparr>vpn_pc := AfterAttempt\<rparr>)"

text \<open>One step of the loop outside of \<^verbatim>\<open>connect()\<close>.\<close>

definition loop_step :: "bool \<Rightarrow> OpenVpnClient \<Rightarrow> OpenVpnClient" where
  "loop_step eval_error v =
     (case vpn_pc v of
        LoopHead \<Rightarrow> if keep_going v then begin_attempt v else leave_loop v
      | AfterAttempt \<Rightarrow>
          if keep_going v then v\<lparr>vpn_pc := Sleeping 0, waits := waits v @ [reconnect_delay_ms v]\<rparr> else leave_loop v
      | Sleeping elapsed \<Rightarrow>
          if elapsed < reconnect_delay_ms v \<and> keep_going v then v\<lparr>vpn_pc := Sleeping (elapsed + 200)\<rparr>
          else v\<lparr>vpn_pc := AfterSleep\<rparr>
      | AfterSleep \<Rightarrow>
          if keep_going v then
            replace_impl (using_non_preferred v) eval_error
              (v\<lparr>reconnect_delay_ms := min (reconnect_delay_ms v * 2) 30000\<rparr>)
          else leave_loop v
      | _ \<Rightarrow> v)"

text \<open>
  The destructor stops the client and destroys its members, last declared first: the handlers
  and their mutex are gone before the thread is joined.
\<close>

definition OpenVpnClient_destroy :: "OpenVpnClient \<Rightarrow> OpenVpnClient" where
  "OpenVpnClient_destroy v = (OpenVpnClient_stop v)\<lparr>handlers_alive := False\<rparr>"

section \<open>Events\<close>

datatype vpn_event =
    VpnStart "string option" bool
  | VpnStop
  | VpnDestroy
  | SetReadyHandler bool
  | SetDisconnectHandler bool
  | SendPacket bytes
  | LoopStep bool
  | ConnectReturns bool
  | ConnectThrows
  | DowngradeThrows bool
  | CoreEvent string
  | CoreLog string
  | NewTun int
  | TunStart tun_answers nat
  | TunStop nat
  | TunSetDisconnect nat
  | TunSend bytes
  | RunPost

text \<open>
  An instance starts its client once; OpenVPN calls back only inside of
  \<^verbatim>\<open>connect()\<close> and for tunnels that were made; the object is used by the instance until it
  is destroyed.
\<close>

definition vpn_enabled :: "vpn_event \<Rightarrow> OpenVpnClient \<Rightarrow> bool" where
  "vpn_enabled ev v =
     (case ev of
        VpnStart f e \<Rightarrow> handlers_alive v \<and> (vpn_pc v = NotStarted \<or> vpn_running v)
      | VpnStop \<Rightarrow> handlers_alive v
      | VpnDestroy \<Rightarrow> handlers_alive v
      | SetReadyHandler h \<Rightarrow> handlers_alive v
      | SetDisconnectHandler h \<Rightarrow> handlers_alive v
      | SendPacket p \<Rightarrow> handlers_alive v
      | LoopStep e \<Rightarrow> vpn_pc v \<notin> {NotStarted, Connecting, Finished}
      | TunStart ans n \<Rightarrow> vpn_pc v = Connecting \<and> n < length (tuns v)
      | TunStop n \<Rightarrow> vpn_pc v = Connecting \<and> n < length (tuns v)
      | TunSetDisconnect n \<Rightarrow> vpn_pc v = Connecting \<and> n < length (tuns v)
      | RunPost \<Rightarrow> vpn_pc v = Connecting \<and> openvpn_posts v \<noteq> []
      | DowngradeThrows replaced \<Rightarrow> vpn_pc v = Connecting \<and> needs_downgrade v \<and> \<not> using_non_preferred v \<and> vpn_running v
      | _ \<Rightarrow> vpn_pc v = Connecting)"

definition vpn_handle ::
  "vpn_event \<Rightarrow> OpenVpnClient \<Rightarrow> LwipRuntime \<Rightarrow> exn option \<times> OpenVpnClient \<times> LwipRuntime" where
  "vpn_handle ev v lwip =
     (case ev of
        VpnStart f e \<Rightarrow> (case OpenVpnClient_start f e v of (x, v1) \<Rightarrow> (x, v1, lwip))
      | VpnStop \<Rightarrow> (None, OpenVpnClient_stop v, lwip)
      | VpnDestroy \<Rightarrow> (None, OpenVpnClient_destroy v, lwip)
      | SetReadyHandler h \<Rightarrow> (None, set_ready_handler h v, lwip)
      | SetDisconnectHandler h \<Rightarrow> (None, set_disconnect_handler h v, lwip)
      | SendPacket p \<Rightarrow> (None, send_l3_packet p v, lwip)
      | LoopStep e \<Rightarrow> (None, loop_step e v, lwip)
      | ConnectReturns e \<Rightarrow> (None, connect_returns e v, lwip)
      | ConnectThrows \<Rightarrow> (None, connect_throws v, lwip)
      | DowngradeThrows replaced \<Rightarrow> (None, downgrade_throws replaced v, lwip)
      | CoreEvent s \<Rightarrow> (case core_event s v of (x, v1) \<Rightarrow> (x, v1, lwip))
      | CoreLog s \<Rightarrow> (None, core_log s v, lwip)
      | NewTun m \<Rightarrow> (None, new_tun_client_obj m v, lwip)
      | TunStart ans n \<Rightarrow> tun_start ans n v lwip
      | TunStop n \<Rightarrow> tun_stop n v lwip
      | TunSetDisconnect n \<Rightarrow> (case set_disconnect n v of (x, v1) \<Rightarrow> (x, v1, lwip))
      | TunSend buf \<Rightarrow> (None, v, snd (tun_send buf lwip))
      | RunPost \<Rightarrow> (None, run_openvpn_post v, lwip))"

text \<open>Between two events of the client the interface may change in any way.\<close>

inductive vpn_step :: "OpenVpnClient \<Rightarrow> OpenVpnClient \<Rightarrow> bool" where
  vpn_event: "vpn_enabled ev v \<Longrightarrow> vpn_handle ev v lwip = (r, w, lwip') \<Longrightarrow>
    (case r of None \<Rightarrow> True | Some e \<Rightarrow> \<not> is_ub e) \<Longrightarrow> vpn_step v w"

inductive_cases vpn_stepE: "vpn_step v w"

definition vpn_init :: "InstanceConfig \<Rightarrow> OpenVpnClient \<Rightarrow> bool" where
  "vpn_init cfg v \<longleftrightarrow> v = OpenVpnClient_new cfg"

abbreviation vpn_reachable :: "InstanceConfig \<Rightarrow> OpenVpnClient \<Rightarrow> bool" where
  "vpn_reachable cfg \<equiv> reachable (vpn_init cfg) vpn_step"

fun run_vpn :: "vpn_event list \<Rightarrow> OpenVpnClient \<Rightarrow> LwipRuntime \<Rightarrow> (OpenVpnClient \<times> LwipRuntime) option" where
  "run_vpn [] v lwip = Some (v, lwip)"
| "run_vpn (ev # evs) v lwip =
     (if vpn_enabled ev v then
        (case vpn_handle ev v lwip of
           (None, w, lwip1) \<Rightarrow> run_vpn evs w lwip1
         | (Some e, w, lwip1) \<Rightarrow> if is_ub e then None else run_vpn evs w lwip1)
      else None)"

lemma run_vpn_reachable:
  "run_vpn evs v lwip = Some (w, lwip') \<Longrightarrow> vpn_reachable cfg v \<Longrightarrow> vpn_reachable cfg w"
proof (induction evs arbitrary: v lwip)
  case (Cons ev evs)
  obtain r u l where h: "vpn_handle ev v lwip = (r, u, l)" by (metis prod.exhaust)
  with Cons.prems have e: "vpn_enabled ev v" and r: "case r of None \<Rightarrow> True | Some e \<Rightarrow> \<not> is_ub e"
    and rest: "run_vpn evs u l = Some (w, lwip')"
    by (auto split: if_splits option.splits)
  from reach_step [OF Cons.prems(2) vpn_event [OF e h r]] Cons.IH [OF rest] show ?case by blast
qed simp

section \<open>The loop\<close>

lemmas loop_defs = loop_step_def begin_attempt_def leave_loop_def replace_impl_def connect_returns_def
  connect_throws_def downgrade_throws_def core_stop_def Let_def

lemmas tun_defs = tun_start_def tun_stop_def set_disconnect_def update_tun_def tun_error_def notify_tun_ready_def
  notify_tun_down_def core_event_def core_log_def new_tun_client_obj_def run_openvpn_post_def core_stop_def Let_def

lemmas client_defs = OpenVpnClient_start_def OpenVpnClient_stop_def OpenVpnClient_destroy_def set_ready_handler_def
  set_disconnect_handler_def send_l3_packet_def core_inject_l3_packet_def tun_inject_def core_stop_def Let_def

text \<open>What the callbacks of OpenVPN leave alone: everything the loop decides on.\<close>

definition loop_view where
  "loop_view v = (vpn_pc v, vpn_running v, stop_requested v, reconnect_delay_ms v, impl v, using_non_preferred v,
     impl_config v, profile v, waits v)"

fun is_loop_event :: "vpn_event \<Rightarrow> bool" where
  "is_loop_event (VpnStart f e) = True"
| "is_loop_event VpnStop = True"
| "is_loop_event VpnDestroy = True"
| "is_loop_event (LoopStep e) = True"
| "is_loop_event (ConnectReturns e) = True"
| "is_loop_event ConnectThrows = True"
| "is_loop_event (DowngradeThrows b) = True"
| "is_loop_event _ = False"

lemma callback_loop_view:
  assumes "\<not> is_loop_event ev" "vpn_handle ev v lwip = (r, w, lwip')"
  shows "loop_view w = loop_view v"
  using assms
  by (cases ev)
    (auto simp: vpn_handle_def loop_view_def tun_defs client_defs split: prod.splits if_splits option.splits list.splits)

lemma callback_core_stops:
  assumes "\<not> is_loop_event ev" "vpn_handle ev v lwip = (r, w, lwip')"
  shows "set (core_stops v) \<subseteq> set (core_stops w)"
  using assms
  by (cases ev)
    (auto simp: vpn_handle_def tun_defs client_defs split: prod.splits if_splits option.splits list.splits)

text \<open>
  The invariant of the loop: the delay is in its range and a wait does not overshoot it; the
  thread runs exactly between its start and its end or a stop; a connection attempt in progress
  has been told to stop when the client was stopped; a core that is about to connect has the
  configuration the thread decided on.
\<close>

definition loop_inv :: "OpenVpnClient \<Rightarrow> bool" where
  "loop_inv v \<longleftrightarrow>
     2000 \<le> reconnect_delay_ms v \<and> reconnect_delay_ms v \<le> 30000 \<and>
     (case vpn_pc v of Sleeping e \<Rightarrow> 0 \<le> e \<and> e < reconnect_delay_ms v + 200 | _ \<Rightarrow> True) \<and>
     (vpn_running v \<longrightarrow> vpn_pc v \<noteq> NotStarted \<and> vpn_pc v \<noteq> Finished \<and> \<not> stop_requested v) \<and>
     (\<not> vpn_running v \<longrightarrow> vpn_pc v = NotStarted \<or> vpn_pc v = Finished \<or> stop_requested v) \<and>
     (vpn_pc v = Connecting \<and> \<not> vpn_running v \<longrightarrow> impl v \<in> set (core_stops v)) \<and>
     (vpn_pc v = LoopHead \<or> vpn_pc v = Connecting \<longrightarrow> impl_config v = Some (make_config (profile v) (using_non_preferred v))) \<and>
     list_all (\<lambda>d. 2000 \<le> d \<and> d \<le> 30000) (waits v)"

lemma loop_inv_view:
  assumes "loop_view w = loop_view v" "set (core_stops v) \<subseteq> set (core_stops w)" "loop_inv v"
  shows "loop_inv w"
proof -
  have e: "vpn_pc w = vpn_pc v" "vpn_running w = vpn_running v" "stop_requested w = stop_requested v"
    "reconnect_delay_ms w = reconnect_delay_ms v" "impl w = impl v" "using_non_preferred w = using_non_preferred v"
    "impl_config w = impl_config v" "profile w = profile v" "waits w = waits v"
    using assms(1) by (simp_all add: loop_view_def)
  from assms(2,3) show ?thesis unfolding loop_inv_def e by blast
qed

lemma loop_step_inv: "loop_inv v \<Longrightarrow> vpn_enabled (LoopStep e) v \<Longrightarrow> loop_inv (loop_step e v)"
  by (cases "vpn_pc v") (auto simp: loop_inv_def vpn_enabled_def loop_defs keep_going_def)

lemma connect_inv:
  assumes "loop_inv v" "vpn_pc v = Connecting"
  shows "loop_inv (connect_returns e v)" "loop_inv (connect_throws v)" "vpn_running v \<Longrightarrow> loop_inv (downgrade_throws b v)"
  using assms by (auto simp: loop_inv_def loop_defs)

lemma start_inv:
  assumes "loop_inv v" "vpn_pc v = NotStarted \<or> vpn_running v"
  shows "loop_inv (snd (OpenVpnClient_start f e v))"
proof (cases "vpn_running v")
  case False
  with assms show ?thesis by (auto simp: loop_inv_def OpenVpnClient_start_def Let_def split: option.splits)
qed (use assms in \<open>simp add: OpenVpnClient_start_def\<close>)

lemma stop_vpn_inv: "loop_inv v \<Longrightarrow> loop_inv (OpenVpnClient_stop v)"
  by (auto simp: loop_inv_def OpenVpnClient_stop_def core_stop_def split: vpn_pc.splits)

lemma destroy_vpn_inv: "loop_inv v \<Longrightarrow> loop_inv (OpenVpnClient_destroy v)"
  by (rule loop_inv_view [OF _ _ stop_vpn_inv]) (simp_all add: OpenVpnClient_destroy_def loop_view_def)

lemma vpn_handle_loop_inv:
  assumes inv: "loop_inv v" and en: "vpn_enabled ev v" and h: "vpn_handle ev v lwip = (r, w, lwip')"
  shows "loop_inv w"
proof (cases "is_loop_event ev")
  case False
  show ?thesis by (rule loop_inv_view [OF callback_loop_view [OF False h] callback_core_stops [OF False h] inv])
next
  case True
  then show ?thesis
  proof (cases ev)
    case (VpnStart f e)
    with start_inv [OF inv, of f e] en h show ?thesis
      by (auto simp: vpn_handle_def vpn_enabled_def split: prod.splits)
  next
    case (LoopStep e)
    with loop_step_inv [OF inv, of e] en h show ?thesis by (simp add: vpn_handle_def)
  next
    case (ConnectReturns e)
    with connect_inv(1) [OF inv, of e] en h show ?thesis by (simp add: vpn_handle_def vpn_enabled_def)
  next
    case ConnectThrows
    with connect_inv(2) [OF inv] en h show ?thesis by (simp add: vpn_handle_def vpn_enabled_def)
  next
    case (DowngradeThrows b)
    with connect_inv(3) [OF inv, of b] en h show ?thesis by (simp add: vpn_handle_def vpn_enabled_def)
  qed (use True inv h stop_vpn_inv destroy_vpn_inv in \<open>auto simp: vpn_handle_def\<close>)
qed

section \<open>Packets\<close>

text \<open>
  Packets on their way to OpenVPN are a part of those handed in, in their order, and the numbers
  of tunnels are those of tunnels that were made.
\<close>

definition packet_inv :: "OpenVpnClient \<Rightarrow> bool" where
  "packet_inv v \<longleftrightarrow>
     subseq (to_openvpn v @ map snd (openvpn_posts v)) (sent_packets v) \<and>
     (case memory_tun v of None \<Rightarrow> True | Some n \<Rightarrow> n < length (tuns v)) \<and>
     list_all (\<lambda>(n, p). n < length (tuns v)) (openvpn_posts v)"

definition packet_view where
  "packet_view v = (to_openvpn v, openvpn_posts v, sent_packets v, memory_tun v, length (tuns v))"

fun is_packet_event :: "vpn_event \<Rightarrow> bool" where
  "is_packet_event (SendPacket p) = True"
| "is_packet_event RunPost = True"
| "is_packet_event (NewTun m) = True"
| "is_packet_event (CoreEvent s) = True"
| "is_packet_event (LoopStep e) = True"
| "is_packet_event (ConnectReturns e) = True"
| "is_packet_event (DowngradeThrows b) = True"
| "is_packet_event _ = False"

lemma other_packet_view:
  assumes "\<not> is_packet_event ev" "vpn_handle ev v lwip = (r, w, lwip')"
  shows "packet_view w = packet_view v"
  using assms
  by (cases ev)
    (auto simp: vpn_handle_def packet_view_def tun_defs client_defs connect_throws_def
      split: prod.splits if_splits option.splits list.splits)

lemma packet_inv_view:
  assumes "to_openvpn w = to_openvpn v" "openvpn_posts w = openvpn_posts v" "sent_packets w = sent_packets v"
    and "memory_tun w = memory_tun v \<or> memory_tun w = None" "length (tuns w) = length (tuns v)" "packet_inv v"
  shows "packet_inv w"
  using assms by (auto simp: packet_inv_def split: option.splits)

lemma subseq_snoc:
  assumes "subseq xs ys"
  shows "subseq (xs @ [p]) (ys @ [p])" "subseq xs (ys @ [p])"
  using list_emb_append_mono [OF assms, of "[p]" "[p]"] list_emb_append_mono [OF assms, of "[]" "[p]"] by simp_all

lemma send_packet_inv:
  assumes "packet_inv v"
  shows "packet_inv (send_l3_packet p v)"
proof -
  have s: "subseq (to_openvpn v @ map snd (openvpn_posts v)) (sent_packets v @ [p])"
    "subseq (to_openvpn v @ map snd (openvpn_posts v) @ [p]) (sent_packets v @ [p])"
    using assms subseq_snoc [of "to_openvpn v @ map snd (openvpn_posts v)"] by (simp_all add: packet_inv_def)
  show ?thesis
    using assms s
    by (auto simp: packet_inv_def send_l3_packet_def core_inject_l3_packet_def tun_inject_def make_openvpn_buffer_def
        Let_def split: option.splits)
qed

lemma run_post_inv:
  assumes "packet_inv v"
  shows "packet_inv (run_openvpn_post v)"
proof (cases "openvpn_posts v")
  case (Cons np rest)
  obtain n p where np: "np = (n, p)" by fastforce
  have "subseq (to_openvpn v @ map snd rest) (to_openvpn v @ p # map snd rest)"
    by (intro list_emb_append_mono list_emb_Cons) simp_all
  with assms Cons np show ?thesis
    by (auto simp: packet_inv_def run_openvpn_post_def Let_def split: option.splits intro: subseq_order.trans)
qed (use assms in \<open>simp add: run_openvpn_post_def\<close>)

lemma vpn_handle_packet_inv:
  assumes inv: "packet_inv v" and en: "vpn_enabled ev v" and h: "vpn_handle ev v lwip = (r, w, lwip')"
  shows "packet_inv w"
proof (cases "is_packet_event ev")
  case False
  from other_packet_view [OF this h] inv show ?thesis
    by (intro packet_inv_view [of w v]) (simp_all add: packet_view_def)
next
  case True
  then show ?thesis
  proof (cases ev)
    case (NewTun m)
    with h have w: "w = new_tun_client_obj m v" by (simp add: vpn_handle_def)
    have "list_all (\<lambda>(n, p). n < Suc (length (tuns v))) (openvpn_posts v)"
      using inv by (auto simp: packet_inv_def list_all_iff)
    with inv w show ?thesis by (simp add: packet_inv_def new_tun_client_obj_def)
  next
    case (CoreEvent s)
    with h show ?thesis
      by (intro packet_inv_view [OF _ _ _ _ _ inv])
        (auto simp: vpn_handle_def core_event_def notify_tun_down_def split: if_splits)
  next
    case (LoopStep e)
    with h show ?thesis
      by (intro packet_inv_view [OF _ _ _ _ _ inv])
        (auto simp: vpn_handle_def loop_defs split: if_splits vpn_pc.splits)
  next
    case (ConnectReturns e)
    with h show ?thesis
      by (intro packet_inv_view [OF _ _ _ _ _ inv]) (auto simp: vpn_handle_def loop_defs split: if_splits)
  next
    case (DowngradeThrows b)
    with h show ?thesis
      by (intro packet_inv_view [OF _ _ _ _ _ inv]) (auto simp: vpn_handle_def loop_defs split: if_splits)
  qed (use True inv h send_packet_inv run_post_inv in \<open>auto simp: vpn_handle_def\<close>)
qed

interpretation vpn_client: invariant_system "vpn_init cfg" vpn_step "\<lambda>v. loop_inv v \<and> packet_inv v" for cfg
proof
  show "loop_inv v \<and> packet_inv v" if "vpn_init cfg v" for v
    using that by (simp add: vpn_init_def OpenVpnClient_new_def loop_inv_def packet_inv_def)
  show "loop_inv w \<and> packet_inv w" if "loop_inv v \<and> packet_inv v" "vpn_step v w" for v w
    using that(2) by (rule vpn_stepE) (use that(1) vpn_handle_loop_inv vpn_handle_packet_inv in blast)
qed

section \<open>How long the loop can go on\<close>

text \<open>The steps that are left until the thread connects again or ends, at most.\<close>

fun steps_left :: "vpn_pc \<Rightarrow> int \<Rightarrow> nat" where
  "steps_left (Sleeping e) d = nat ((d - e + 199) div 200) + 3"
| "steps_left AfterAttempt d = nat ((d + 199) div 200) + 4"
| "steps_left AfterSleep d = 2"
| "steps_left LoopHead d = 1"
| "steps_left _ d = 0"

definition in_loop :: "OpenVpnClient \<Rightarrow> bool" where
  "in_loop v \<longleftrightarrow> vpn_pc v \<noteq> NotStarted \<and> vpn_pc v \<noteq> Connecting \<and> vpn_pc v \<noteq> Finished"

lemma loop_step_decreases:
  assumes "in_loop v"
  shows "steps_left (vpn_pc (loop_step e v)) (reconnect_delay_ms (loop_step e v)) <
    steps_left (vpn_pc v) (reconnect_delay_ms v)"
proof (cases "vpn_pc v")
  case (Sleeping t)
  have "nat ((d - (t + 200) + 199) div 200) < nat ((d - t + 199) div 200)" if "t < d" for d :: int
  proof -
    have "d - (t + 200) + 199 = (d - t + 199) - 200" by simp
    then have "(d - (t + 200) + 199) div 200 = (d - t + 199) div 200 - 1" by linarith
    moreover have "1 \<le> (d - t + 199) div 200" using that by linarith
    ultimately show ?thesis by linarith
  qed
  with Sleeping show ?thesis by (simp add: loop_step_def)
qed (use assms in \<open>auto simp: in_loop_def loop_defs\<close>)

text \<open>The loop on its own, until the thread connects or ends.\<close>

function run_loop :: "OpenVpnClient \<Rightarrow> OpenVpnClient" where
  "run_loop v = (if in_loop v then run_loop (loop_step False v) else v)"
  by pat_completeness auto
termination
  by (relation "measure (\<lambda>v. steps_left (vpn_pc v) (reconnect_delay_ms v))") (auto dest: loop_step_decreases)

declare run_loop.simps [simp del]

lemma loop_steps_bounded:
  "\<exists>k \<le> steps_left (vpn_pc v) (reconnect_delay_ms v). \<not> in_loop (fold loop_step (replicate k e) v)"
proof (induction "steps_left (vpn_pc v) (reconnect_delay_ms v)" arbitrary: v rule: less_induct)
  case less
  show ?case
  proof (cases "in_loop v")
    case True
    note d = loop_step_decreases [OF True, of e]
    from less [OF d] obtain k where "k \<le> steps_left (vpn_pc (loop_step e v)) (reconnect_delay_ms (loop_step e v))"
      "\<not> in_loop (fold loop_step (replicate k e) (loop_step e v))" by blast
    with d show ?thesis by (intro exI [of _ "Suc k"]) simp
  qed (intro exI [of _ 0], simp)
qed

lemma steps_left_bound:
  assumes "loop_inv v"
  shows "steps_left (vpn_pc v) (reconnect_delay_ms v) \<le> 154"
  using assms by (cases "vpn_pc v") (auto simp: loop_inv_def)

end
