(* ===== verification/ShadowsocksInbound.thy ===== *)
theory ShadowsocksInbound
  imports TcpRelaySession UdpRelaySession ExampleCipher
begin

text \<open>
  The listeners of an instance, \<^verbatim>\<open>src/src/ShadowsocksInbound.cpp\<close>: a TCP acceptor that
  makes a relay session for every connection, and the UDP relay. The object is the record
  \<open>ShadowsocksInbound\<close>; beside its members it has the number of accepts that are in flight,
  whether the acceptor has been set to listen, the TCP sessions as they were started, and the UDP
  relays it has let go of. What the system answers to the calls that open sockets is an argument.
\<close>

section \<open>State\<close>

record ShadowsocksInbound =
  inbound_config :: ShadowsocksConfig
  inbound_crypto :: ShadowsocksAeadFactory
  acceptor_open :: bool
  listening :: bool
  udp :: "UdpRelaySession option"
  started :: bool
  accepts :: nat
  sessions :: "TcpRelaySession list"
  released_udp :: "UdpRelaySession list"

definition ShadowsocksInbound_new :: "mbedtls \<Rightarrow> ShadowsocksConfig \<Rightarrow> ShadowsocksInbound" where
  "ShadowsocksInbound_new c cfg =
     \<lparr>inbound_config = cfg, inbound_crypto = ShadowsocksAeadFactory_new c (password cfg), acceptor_open = False,
      listening = False, udp = None, started = False, accepts = 0, sessions = [], released_udp = []\<rparr>"

text \<open>The exceptions that the calls leave with, if any: each call is made when those before it succeed.\<close>

record listen_answers =
  make_address_error :: "exn option"
  open_error :: "exn option"
  reuse_error :: "exn option"
  bind_error :: "exn option"
  listen_error :: "exn option"
  udp_socket_error :: "exn option"

section \<open>Operations\<close>

definition open_tcp_acceptor :: "listen_answers \<Rightarrow> ShadowsocksInbound \<Rightarrow> exn option \<times> ShadowsocksInbound" where
  "open_tcp_acceptor ans s =
     (if acceptor_open s then (None, s)
      else case make_address_error ans of
        Some e \<Rightarrow> (Some e, s)
      | None \<Rightarrow>
          (case open_error ans of
             Some e \<Rightarrow> (Some e, s)
           | None \<Rightarrow>
               (let s1 = s\<lparr>acceptor_open := True\<rparr>
                in case reuse_error ans of
                     Some e \<Rightarrow> (Some e, s1)
                   | None \<Rightarrow>
                       (case bind_error ans of
                          Some e \<Rightarrow> (Some e, s1)
                        | None \<Rightarrow>
                            (case listen_error ans of
                               Some e \<Rightarrow> (Some e, s1)
                             | None \<Rightarrow> (None, s1\<lparr>listening := True\<rparr>))))))"

definition accept_loop :: "ShadowsocksInbound \<Rightarrow> ShadowsocksInbound" where
  "accept_loop s = s\<lparr>accepts := accepts s + 1\<rparr>"

text \<open>The completion of an accept; \<open>ok\<close> says whether there is a socket.\<close>

definition on_accept :: "bool \<Rightarrow> ShadowsocksInbound \<Rightarrow> ShadowsocksInbound" where
  "on_accept ok s0 =
     (let s = s0\<lparr>accepts := accepts s0 - 1\<rparr>;
          s1 = (if ok then s\<lparr>sessions := sessions s @ [start (TcpRelaySession_new (inbound_crypto s))]\<rparr> else s)
      in if acceptor_open s1 then accept_loop s1 else s1)"

definition ShadowsocksInbound_start :: "listen_answers \<Rightarrow> ShadowsocksInbound \<Rightarrow> exn option \<times> ShadowsocksInbound" where
  "ShadowsocksInbound_start ans s =
     (if started s then (None, s)
      else case open_tcp_acceptor ans (s\<lparr>started := True\<rparr>) of
        (Some e, s1) \<Rightarrow> (Some e, s1)
      | (None, s1) \<Rightarrow>
          (let s2 = accept_loop s1
           in case udp s2 of
                Some u \<Rightarrow> (None, s2\<lparr>udp := Some (UdpRelaySession_start u)\<rparr>)
              | None \<Rightarrow>
                  if udp_port (inbound_config s2) = 0 then (None, s2)
                  else case udp_socket_error ans of
                    Some e \<Rightarrow> (Some e, s2)
                  | None \<Rightarrow> (None, s2\<lparr>udp := Some (UdpRelaySession_start (UdpRelaySession_new (inbound_crypto s2)))\<rparr>)))"

definition ShadowsocksInbound_stop :: "ShadowsocksInbound \<Rightarrow> ShadowsocksInbound" where
  "ShadowsocksInbound_stop s =
     (let s1 = s\<lparr>started := False, acceptor_open := False, listening := False\<rparr>
      in case udp s1 of
           None \<Rightarrow> s1
         | Some u \<Rightarrow> s1\<lparr>udp := None, released_udp := UdpRelaySession_stop u # released_udp s1\<rparr>)"

section \<open>Events\<close>

text \<open>
  The instance starts and stops the listeners; asio completes an accept that is in flight, with a
  socket only while the acceptor listens.
\<close>

datatype inbound_event = InboundStart listen_answers | InboundStop | Accepted bool

definition inbound_enabled :: "inbound_event \<Rightarrow> ShadowsocksInbound \<Rightarrow> bool" where
  "inbound_enabled ev s =
     (case ev of Accepted ok \<Rightarrow> 0 < accepts s \<and> (ok \<longrightarrow> listening s) | _ \<Rightarrow> True)"

definition inbound_handle :: "inbound_event \<Rightarrow> ShadowsocksInbound \<Rightarrow> exn option \<times> ShadowsocksInbound" where
  "inbound_handle ev s =
     (case ev of
        InboundStart ans \<Rightarrow> ShadowsocksInbound_start ans s
      | InboundStop \<Rightarrow> (None, ShadowsocksInbound_stop s)
      | Accepted ok \<Rightarrow> (None, on_accept ok s))"

inductive inbound_step :: "ShadowsocksInbound \<Rightarrow> ShadowsocksInbound \<Rightarrow> bool" where
  inbound_event: "inbound_enabled ev s \<Longrightarrow> inbound_handle ev s = (r, t) \<Longrightarrow> inbound_step s t"

inductive_cases inbound_stepE: "inbound_step s t"

definition inbound_init :: "mbedtls \<Rightarrow> ShadowsocksConfig \<Rightarrow> ShadowsocksInbound \<Rightarrow> bool" where
  "inbound_init c cfg s \<longleftrightarrow> s = ShadowsocksInbound_new c cfg"

abbreviation inbound_reachable :: "mbedtls \<Rightarrow> ShadowsocksConfig \<Rightarrow> ShadowsocksInbound \<Rightarrow> bool" where
  "inbound_reachable c cfg \<equiv> reachable (inbound_init c cfg) inbound_step"

fun run_inbound :: "inbound_event list \<Rightarrow> ShadowsocksInbound \<Rightarrow> ShadowsocksInbound option" where
  "run_inbound [] s = Some s"
| "run_inbound (ev # evs) s = (if inbound_enabled ev s then run_inbound evs (snd (inbound_handle ev s)) else None)"

lemma run_inbound_reachable:
  "run_inbound evs s = Some t \<Longrightarrow> inbound_reachable c cfg s \<Longrightarrow> inbound_reachable c cfg t"
proof (induction evs arbitrary: s)
  case (Cons ev evs)
  then have e: "inbound_enabled ev s" and rest: "run_inbound evs (snd (inbound_handle ev s)) = Some t"
    by (auto split: if_splits)
  have "inbound_handle ev s = (fst (inbound_handle ev s), snd (inbound_handle ev s))" by simp
  from reach_step [OF Cons.prems(2) inbound_event [OF e this]] Cons.IH [OF rest] show ?case by blast
qed simp

section \<open>The invariant\<close>

text \<open>
  Listeners that are not started have no open acceptor and no UDP relay; while the acceptor
  listens an accept is in flight; the UDP relay runs, and every session was made with the key of
  the instance.
\<close>

definition inbound_inv :: "mbedtls \<Rightarrow> ShadowsocksConfig \<Rightarrow> ShadowsocksInbound \<Rightarrow> bool" where
  "inbound_inv c cfg s \<longleftrightarrow>
     inbound_crypto s = ShadowsocksAeadFactory_new c (password cfg) \<and> inbound_config s = cfg \<and>
     (\<not> started s \<longrightarrow> \<not> acceptor_open s \<and> udp s = None) \<and> (listening s \<longrightarrow> acceptor_open s \<and> 0 < accepts s) \<and>
     (case udp s of None \<Rightarrow> True | Some u \<Rightarrow> udp_running u \<and> listening s \<and> udp_crypto u = ShadowsocksAeadFactory_new c (password cfg)) \<and>
     list_all (\<lambda>t. t = start (TcpRelaySession_new (ShadowsocksAeadFactory_new c (password cfg)))) (sessions s) \<and>
     list_all (\<lambda>u. \<not> udp_running u \<and> mappings u = []) (released_udp s)"

lemma open_tcp_acceptor_cases:
  assumes "open_tcp_acceptor ans s = (r, t)" "\<not> acceptor_open s"
  obtains "r = None" "t = s\<lparr>acceptor_open := True, listening := True\<rparr>"
    | e b where "r = Some e" "t = s\<lparr>acceptor_open := b\<rparr>"
proof (cases r)
  case None
  with assms that(1) show thesis by (auto simp: open_tcp_acceptor_def Let_def split: option.splits)
next
  case (Some e)
  have "t = s\<lparr>acceptor_open := acceptor_open t\<rparr>"
    using assms Some by (auto simp: open_tcp_acceptor_def Let_def split: option.splits)
  with Some that(2) show thesis by blast
qed

lemma UdpRelaySession_start_fields: "udp_running (UdpRelaySession_start u)" "udp_crypto (UdpRelaySession_start u) = udp_crypto u"
  by (simp_all add: UdpRelaySession_start_def receive_loop_def split: option.split)

lemma inbound_start_inv:
  assumes "inbound_inv c cfg s"
  shows "inbound_inv c cfg (snd (ShadowsocksInbound_start ans s))"
proof (cases "started s")
  case False
  with assms have o: "\<not> acceptor_open s" "udp s = None" "\<not> listening s" by (auto simp: inbound_inv_def)
  obtain r t where rt: "open_tcp_acceptor ans (s\<lparr>started := True\<rparr>) = (r, t)" by fastforce
  then show ?thesis
  proof (rule open_tcp_acceptor_cases)
    assume t: "r = None" "t = s\<lparr>started := True, acceptor_open := True, listening := True\<rparr>"
    define s2 where "s2 = accept_loop t"
    have s2: "inbound_inv c cfg s2" "udp s2 = None" "listening s2"
      using assms o t(2) by (simp_all add: s2_def accept_loop_def inbound_inv_def)
    moreover have "inbound_inv c cfg (s2\<lparr>udp := Some (UdpRelaySession_start (UdpRelaySession_new (inbound_crypto s2)))\<rparr>)"
      using s2 by (auto simp: inbound_inv_def UdpRelaySession_start_fields) (simp add: UdpRelaySession_new_def)
    ultimately show ?thesis using False rt t(1)
      by (simp add: ShadowsocksInbound_start_def s2_def [symmetric] split: option.split)
  next
    fix e b assume "r = Some e" "t = s\<lparr>started := True, acceptor_open := b\<rparr>"
    with assms o rt False show ?thesis by (simp add: ShadowsocksInbound_start_def inbound_inv_def)
  qed (use o in simp)
qed (use assms in \<open>simp add: ShadowsocksInbound_start_def\<close>)

lemma inbound_stop_inv: "inbound_inv c cfg s \<Longrightarrow> inbound_inv c cfg (ShadowsocksInbound_stop s)"
  by (auto simp: inbound_inv_def ShadowsocksInbound_stop_def UdpRelaySession_stop_def Let_def split: option.splits)

lemma on_accept_inv: "inbound_inv c cfg s \<Longrightarrow> inbound_inv c cfg (on_accept ok s)"
  by (auto simp: inbound_inv_def on_accept_def accept_loop_def Let_def split: option.splits)

interpretation inbound: invariant_system "inbound_init c cfg" inbound_step "inbound_inv c cfg" for c cfg
proof
  show "inbound_inv c cfg s" if "inbound_init c cfg s" for s
    using that by (simp add: inbound_init_def ShadowsocksInbound_new_def inbound_inv_def)
  show "inbound_inv c cfg t" if "inbound_inv c cfg s" "inbound_step s t" for s t
    using that(2)
  proof (rule inbound_stepE)
    fix ev r assume "inbound_handle ev s = (r, t)"
    with inbound_start_inv [OF that(1)] inbound_stop_inv [OF that(1)] on_accept_inv [OF that(1)] show ?thesis
      by (cases ev) (simp_all add: inbound_handle_def, metis snd_conv, blast+)
  qed
qed

section \<open>Restarts\<close>

definition listen_ok :: listen_answers where
  "listen_ok =
     \<lparr>make_address_error = None, open_error = None, reuse_error = None, bind_error = None, listen_error = None,
      udp_socket_error = None\<rparr>"

definition bind_fails :: listen_answers where
  "bind_fails = listen_ok\<lparr>bind_error := Some (SystemError ''bind'')\<rparr>"

lemma run_inbound_append:
  "run_inbound (xs @ ys) s = (case run_inbound xs s of None \<Rightarrow> None | Some t \<Rightarrow> run_inbound ys t)"
  by (induction xs arbitrary: s) simp_all

definition serving :: "nat \<Rightarrow> ShadowsocksInbound \<Rightarrow> bool" where
  "serving k s \<longleftrightarrow> started s \<and> acceptor_open s \<and> listening s \<and> accepts s = k"

lemma restart_serving:
  assumes "serving k s"
  shows "\<exists>t. run_inbound [InboundStop, InboundStart listen_ok] s = Some t \<and> serving (Suc k) t"
proof -
  define t where "t = snd (ShadowsocksInbound_start listen_ok (ShadowsocksInbound_stop s))"
  have "serving (Suc k) t"
    using assms
    by (simp add: t_def serving_def ShadowsocksInbound_start_def ShadowsocksInbound_stop_def open_tcp_acceptor_def
        listen_ok_def accept_loop_def Let_def split: option.split)
  then show ?thesis by (simp add: inbound_enabled_def inbound_handle_def t_def)
qed

lemma restarts_serving:
  "serving k s \<Longrightarrow> \<exists>t. run_inbound (concat (replicate n [InboundStop, InboundStart listen_ok])) s = Some t \<and> serving (k + n) t"
proof (induction n arbitrary: k s)
  case (Suc n)
  obtain u where u: "run_inbound [InboundStop, InboundStart listen_ok] s = Some u" "serving (Suc k) u"
    using restart_serving [OF Suc.prems] by blast
  from Suc.IH [OF u(2)] u(1) show ?case by (simp only: replicate_Suc concat.simps run_inbound_append) simp
qed simp

lemma accepts_serving:
  "serving (Suc k) s \<Longrightarrow> \<exists>t. run_inbound (replicate n (Accepted False)) s = Some t \<and> serving (Suc k) t"
proof (induction n arbitrary: s)
  case (Suc n)
  have "serving (Suc k) (on_accept False s)"
    using Suc.prems by (simp add: serving_def on_accept_def accept_loop_def)
  moreover have "inbound_enabled (Accepted False) s" using Suc.prems by (simp add: inbound_enabled_def serving_def)
  ultimately show ?case using Suc.IH by (simp add: inbound_handle_def)
qed simp

section \<open>Properties\<close>

definition example_listen :: ShadowsocksConfig where
  "example_listen = default_ShadowsocksConfig\<lparr>tcp_port := 1080, udp_port := 1080, password := ''pw''\<rparr>"

lemma example_inbound_reachable: "inbound_reachable plain_mbedtls example_listen (ShadowsocksInbound_new plain_mbedtls example_listen)"
  by (rule reach_init) (simp add: inbound_init_def)

text \<open>
  (C32) Listeners serve as long as they are open: while the acceptor listens an accept is always in
  flight, whatever accepts completed with; the UDP relay runs beside it and uses the same key; and
  listeners that were stopped hold no open socket and no running relay.
\<close>

theorem inbound_keeps_serving:
  assumes "inbound_reachable c cfg s"
  shows "(listening s \<longrightarrow> 0 < accepts s) \<and>
    (case udp s of None \<Rightarrow> True | Some u \<Rightarrow> udp_running u \<and> listening s \<and> udp_crypto u = inbound_crypto s) \<and>
    (\<not> started s \<longrightarrow> \<not> acceptor_open s \<and> udp s = None) \<and>
    list_all (\<lambda>u. \<not> udp_running u \<and> mappings u = []) (released_udp s)"
  using inbound.reachable_invariant [OF assms] by (auto simp: inbound_inv_def split: option.splits)

theorem inbound_keeps_serving_witness:
  "\<exists>s. inbound_reachable plain_mbedtls example_listen s \<and> listening s \<and> 0 < accepts s \<and> length (sessions s) = 1"
proof -
  have "\<exists>s. run_inbound [InboundStart listen_ok, Accepted True] (ShadowsocksInbound_new plain_mbedtls example_listen) = Some s \<and>
      listening s \<and> length (sessions s) = 1"
    by (simp add: inbound_enabled_def inbound_handle_def ShadowsocksInbound_start_def ShadowsocksInbound_new_def
        open_tcp_acceptor_def listen_ok_def accept_loop_def on_accept_def example_listen_def Let_def)
  then obtain s where r: "inbound_reachable plain_mbedtls example_listen s" "listening s" "length (sessions s) = 1"
    using run_inbound_reachable [OF _ example_inbound_reachable] by blast
  with inbound_keeps_serving [OF r(1)] show ?thesis by blast
qed

text \<open>
  A failed start is not tried again: when the listening socket cannot be opened the exception
  leaves \<open>start\<close>, but the listeners count as started, so that every later start does nothing and
  nothing is accepted until they are stopped.
\<close>

theorem inbound_failed_start:
  assumes "inbound_reachable c cfg s" "\<not> started s" "open_tcp_acceptor ans (s\<lparr>started := True\<rparr>) = (Some e, s1)"
  shows "ShadowsocksInbound_start ans s = (Some e, s1) \<and> ShadowsocksInbound_start ans' s1 = (None, s1) \<and>
    \<not> listening s1 \<and> accepts s1 = accepts s"
proof -
  have "\<not> acceptor_open s" "\<not> listening s"
    using inbound.reachable_invariant [OF assms(1)] assms(2) by (auto simp: inbound_inv_def)
  then have "started s1" "\<not> listening s1" "accepts s1 = accepts s"
    using assms(3) by (auto simp: open_tcp_acceptor_def Let_def split: option.splits)
  with assms(2,3) show ?thesis by (simp add: ShadowsocksInbound_start_def)
qed

theorem inbound_failed_start_witness:
  "\<exists>s1. ShadowsocksInbound_start bind_fails (ShadowsocksInbound_new plain_mbedtls example_listen) =
      (Some (SystemError ''bind''), s1) \<and> ShadowsocksInbound_start listen_ok s1 = (None, s1) \<and> accepts s1 = 0"
proof -
  let ?s = "ShadowsocksInbound_new plain_mbedtls example_listen"
  have "open_tcp_acceptor bind_fails (?s\<lparr>started := True\<rparr>) =
      (Some (SystemError ''bind''), ?s\<lparr>started := True, acceptor_open := True\<rparr>)" "\<not> started ?s" "accepts ?s = 0"
    by (simp_all add: open_tcp_acceptor_def bind_fails_def listen_ok_def ShadowsocksInbound_new_def Let_def)
  from inbound_failed_start [OF example_inbound_reachable this(2,1)] this(3) show ?thesis by auto
qed

text \<open>
  Accept loops multiply: when the listeners are stopped and started again before the cancelled
  accept completes, its handler finds the acceptor open and goes on, so that two accepts are in
  flight from then on; every further restart of this kind adds one.
\<close>

theorem inbound_accept_loops_multiply:
  "\<exists>s. run_inbound (concat (replicate n [InboundStop, InboundStart listen_ok]) @ replicate n (Accepted False))
      (snd (ShadowsocksInbound_start listen_ok (ShadowsocksInbound_new c cfg))) = Some s \<and>
    accepts s = n + 1 \<and> acceptor_open s"
proof -
  define s0 where "s0 = snd (ShadowsocksInbound_start listen_ok (ShadowsocksInbound_new c cfg))"
  have s0: "serving 1 s0"
    by (simp add: s0_def serving_def ShadowsocksInbound_start_def ShadowsocksInbound_new_def open_tcp_acceptor_def
        listen_ok_def accept_loop_def Let_def)
  obtain t where t: "run_inbound (concat (replicate n [InboundStop, InboundStart listen_ok])) s0 = Some t" "serving (Suc n) t"
    using restarts_serving [OF s0] by auto
  moreover obtain u where "run_inbound (replicate n (Accepted False)) t = Some u" "serving (Suc n) u"
    using accepts_serving [OF t(2)] by blast
  ultimately show ?thesis
    unfolding s0_def [symmetric] by (intro exI [of _ u]) (simp add: run_inbound_append serving_def)
qed

end
