(* ===== verification/MultiInstanceManager.thy ===== *)
theory MultiInstanceManager
  imports JsonConfig OpenVpnClient ShadowsocksInbound
begin

text \<open>
  The instances of the program, \<^verbatim>\<open>src/src/MultiInstanceManager.cpp\<close> without the
  configuration file. Every instance has an \<^verbatim>\<open>io_context\<close> with a thread of its own, a network
  interface, an OpenVPN client and the listeners. Three kinds of threads interleave: the main
  thread that starts and stops the manager, the thread of an instance that runs the tasks posted
  to it one after the other, and the thread of its OpenVPN client, whose notifications post tasks.

  The components are those of the other theories, composed the way the code connects them: a
  packet that the stack emits is handed to the client, a ready tunnel opens the listeners, a lost
  one closes them.
\<close>

section \<open>Instances\<close>

datatype io_task = StartInstance | StartListeners | StopListeners | StopInstance

text \<open>
  \<open>io_tasks\<close> are the tasks of this class posted to the \<^verbatim>\<open>io_context\<close> and not yet run;
  \<open>io_running\<close> says that the thread is inside of \<^verbatim>\<open>run()\<close>, \<open>stop_ran\<close> that the task that
  stops the instance has run to its end.
\<close>

record InstanceRuntime =
  runtime_config :: InstanceConfig
  io_tasks :: "io_task list"
  io_work :: bool
  io_running :: bool
  io_stopped :: bool
  lwip :: LwipRuntime
  vpn :: OpenVpnClient
  ss :: ShadowsocksInbound
  stop_ran :: bool

definition InstanceRuntime_new :: "mbedtls \<Rightarrow> InstanceConfig \<Rightarrow> InstanceRuntime" where
  "InstanceRuntime_new c cfg =
     \<lparr>runtime_config = cfg, io_tasks = [], io_work = True, io_running = False, io_stopped = False,
      lwip = LwipRuntime_new 1, vpn = set_disconnect_handler True (set_ready_handler True (OpenVpnClient_new cfg)),
      ss = ShadowsocksInbound_new c (shadowsocks cfg), stop_ran = False\<rparr>"

definition post_io :: "io_task list \<Rightarrow> InstanceRuntime \<Rightarrow> InstanceRuntime" where
  "post_io ts r = r\<lparr>io_tasks := io_tasks r @ ts\<rparr>"

definition start_instance :: "InstanceRuntime \<Rightarrow> InstanceRuntime" where
  "start_instance r = (post_io [StartInstance] r)\<lparr>io_running := True\<rparr>"

text \<open>What the environment answers while a task runs.\<close>

record task_answers =
  profile_file :: "string option"
  profile_refused :: bool
  listen_calls :: listen_answers

definition start_task :: "task_answers \<Rightarrow> InstanceRuntime \<Rightarrow> InstanceRuntime" where
  "start_task ans r =
     (let l = LwipRuntime_start (lwip r)
      in case OpenVpnClient_start (profile_file ans) (profile_refused ans) (vpn r) of
           (None, v) \<Rightarrow> r\<lparr>lwip := l, vpn := v\<rparr>
         | (Some e, v) \<Rightarrow> r\<lparr>lwip := LwipRuntime_stop l, vpn := v\<rparr>)"

text \<open>The two tasks look at the flag of the manager first; an exception of the listeners leaves the task.\<close>

definition start_listeners_task :: "bool \<Rightarrow> task_answers \<Rightarrow> InstanceRuntime \<Rightarrow> exn option \<times> InstanceRuntime" where
  "start_listeners_task active ans r =
     (if \<not> active then (None, r)
      else case ShadowsocksInbound_start (listen_calls ans) (ss r) of (e, s) \<Rightarrow> (e, r\<lparr>ss := s\<rparr>))"

definition stop_listeners_task :: "bool \<Rightarrow> InstanceRuntime \<Rightarrow> InstanceRuntime" where
  "stop_listeners_task active r = (if \<not> active then r else r\<lparr>ss := ShadowsocksInbound_stop (ss r)\<rparr>)"

definition stop_task :: "InstanceRuntime \<Rightarrow> InstanceRuntime" where
  "stop_task r =
     r\<lparr>vpn := OpenVpnClient_stop (set_disconnect_handler False (set_ready_handler False (vpn r))),
       ss := ShadowsocksInbound_stop (ss r), lwip := LwipRuntime_stop (lwip r), stop_ran := True\<rparr>"

definition run_io_task :: "bool \<Rightarrow> task_answers \<Rightarrow> io_task \<Rightarrow> InstanceRuntime \<Rightarrow> exn option \<times> InstanceRuntime" where
  "run_io_task active ans t r =
     (case t of
        StartInstance \<Rightarrow> (None, start_task ans r)
      | StartListeners \<Rightarrow> start_listeners_task active ans r
      | StopListeners \<Rightarrow> (None, stop_listeners_task active r)
      | StopInstance \<Rightarrow> (None, stop_task r))"

text \<open>An exception that leaves a handler ends \<^verbatim>\<open>run()\<close>, and with it the thread.\<close>

definition leave_run :: "exn option \<times> InstanceRuntime \<Rightarrow> exn option \<times> InstanceRuntime" where
  "leave_run er =
     (case er of
        (None, r) \<Rightarrow> (None, r)
      | (Some e, r) \<Rightarrow> if is_ub e then (Some e, r) else (None, r\<lparr>io_running := False\<rparr>))"

definition run_io :: "bool \<Rightarrow> task_answers \<Rightarrow> InstanceRuntime \<Rightarrow> exn option \<times> InstanceRuntime" where
  "run_io active ans r =
     (case io_tasks r of [] \<Rightarrow> (None, r) | t # ts \<Rightarrow> leave_run (run_io_task active ans t (r\<lparr>io_tasks := ts\<rparr>)))"

text \<open>
  An event of the stack: packets it emits go to the client through the output function. An event of
  the client's thread: every notification that finds its handler posts a task.
\<close>

definition forward_packets :: "LwipRuntime \<Rightarrow> LwipRuntime \<Rightarrow> OpenVpnClient \<Rightarrow> OpenVpnClient" where
  "forward_packets l l' v = fold (\<lambda>(out, p). send_l3_packet p) (drop (length (netif_outputs l)) (netif_outputs l')) v"

text \<open>The callers of \<^verbatim>\<open>async_resolve\<close> catch its exceptions; those of the tick leave its handler.\<close>

fun uncaught :: "lwip_event \<Rightarrow> exn option \<Rightarrow> exn option" where
  "uncaught (Resolve ans hst h) (Some e) = (if is_ub e then Some e else None)"
| "uncaught ev e = e"

definition run_lwip_event :: "u32 \<Rightarrow> lwip_event \<Rightarrow> InstanceRuntime \<Rightarrow> exn option \<times> InstanceRuntime" where
  "run_lwip_event n ev r =
     (case lwip_handle ev ((lwip r)\<lparr>next_id := n\<rparr>) of
        (e, l) \<Rightarrow> leave_run (uncaught ev e, r\<lparr>lwip := l, vpn := forward_packets (lwip r) l (vpn r)\<rparr>))"

definition run_vpn_event :: "vpn_event \<Rightarrow> InstanceRuntime \<Rightarrow> exn option \<times> InstanceRuntime" where
  "run_vpn_event ev r =
     (case vpn_handle ev (vpn r) (lwip r) of
        (e, v, l) \<Rightarrow>
          (e, post_io (replicate (ready_calls v - ready_calls (vpn r)) StartListeners @
                 replicate (down_calls v - down_calls (vpn r)) StopListeners) (r\<lparr>vpn := v, lwip := l\<rparr>)))"

section \<open>The manager\<close>

text \<open>
  Where the main thread is: in \<open>stop\<close> it posts, waits and stops the contexts one by one, then it destroys the
  instances. \<open>next_dns_id\<close> is the static counter of \<^verbatim>\<open>async_resolve\<close>, which all instances share.
\<close>

datatype mgr_pc = MgrOutside | MgrPosting nat | MgrWaiting nat | MgrDestroying nat | MgrJoining nat

record MultiInstanceManager =
  manager_config :: ManagerConfig
  manager_running :: bool
  mgr_pc :: mgr_pc
  next_dns_id :: u32
  runtimes :: "InstanceRuntime list"

definition MultiInstanceManager_new :: "ManagerConfig \<Rightarrow> MultiInstanceManager" where
  "MultiInstanceManager_new cfg = \<lparr>manager_config = cfg, manager_running = False, mgr_pc = MgrOutside, next_dns_id = 1, runtimes = []\<rparr>"

definition MultiInstanceManager_start :: "mbedtls \<Rightarrow> MultiInstanceManager \<Rightarrow> MultiInstanceManager" where
  "MultiInstanceManager_start c m =
     (if manager_running m then m
      else m\<lparr>manager_running := True,
             runtimes := runtimes m @ map (\<lambda>cfg. start_instance (InstanceRuntime_new c cfg)) (instances (manager_config m))\<rparr>)"

definition MultiInstanceManager_stop :: "MultiInstanceManager \<Rightarrow> MultiInstanceManager" where
  "MultiInstanceManager_stop m =
     (if \<not> manager_running m then m else m\<lparr>manager_running := False, mgr_pc := MgrPosting 0\<rparr>)"

definition update_runtime :: "nat \<Rightarrow> (InstanceRuntime \<Rightarrow> InstanceRuntime) \<Rightarrow> MultiInstanceManager \<Rightarrow> MultiInstanceManager" where
  "update_runtime i f m = m\<lparr>runtimes := (runtimes m)[i := f (runtimes m ! i)]\<rparr>"

text \<open>
  One step of the main thread inside of \<open>stop\<close>. The wait of at most two seconds may end in any
  state of the task. The destructor of an instance joins its thread, whose context is stopped,
  and destroys the client; when the thread of the client has been joined the interface is stopped
  and removed, and the next instance follows.
\<close>

definition stop_step :: "MultiInstanceManager \<Rightarrow> MultiInstanceManager" where
  "stop_step m =
     (case mgr_pc m of
        MgrPosting i \<Rightarrow>
          if i < length (runtimes m) then
            (update_runtime i (\<lambda>r. (post_io [StopInstance] r)\<lparr>io_work := False\<rparr>) m)\<lparr>mgr_pc := MgrWaiting i\<rparr>
          else m\<lparr>mgr_pc := MgrDestroying 0\<rparr>
      | MgrWaiting i \<Rightarrow> (update_runtime i (\<lambda>r. r\<lparr>io_stopped := True\<rparr>) m)\<lparr>mgr_pc := MgrPosting (Suc i)\<rparr>
      | MgrDestroying i \<Rightarrow>
          if i < length (runtimes m) then
            (update_runtime i (\<lambda>r. r\<lparr>io_running := False, vpn := OpenVpnClient_destroy (vpn r)\<rparr>) m)\<lparr>mgr_pc := MgrJoining i\<rparr>
          else m\<lparr>mgr_pc := MgrOutside, runtimes := []\<rparr>
      | MgrJoining i \<Rightarrow> (update_runtime i (\<lambda>r. r\<lparr>lwip := LwipRuntime_stop (lwip r)\<rparr>) m)\<lparr>mgr_pc := MgrDestroying (Suc i)\<rparr>
      | MgrOutside \<Rightarrow> m)"

section \<open>Events\<close>

datatype mgr_event =
    ManagerStart
  | ManagerStop
  | StopStep
  | RunIo nat task_answers
  | VpnEv nat vpn_event
  | LwipEv nat lwip_event
  | AcceptEv nat bool

text \<open>
  The events of the client that happen on its own thread, and those of the interface that happen on
  the thread of its instance and are not part of a task above.
\<close>

fun on_vpn_thread :: "vpn_event \<Rightarrow> bool" where
  "on_vpn_thread (VpnStart f e) = False"
| "on_vpn_thread VpnStop = False"
| "on_vpn_thread VpnDestroy = False"
| "on_vpn_thread (SetReadyHandler h) = False"
| "on_vpn_thread (SetDisconnectHandler h) = False"
| "on_vpn_thread (SendPacket p) = False"
| "on_vpn_thread _ = True"

fun on_io_thread :: "lwip_event \<Rightarrow> bool" where
  "on_io_thread StartRuntime = False"
| "on_io_thread StopRuntime = False"
| "on_io_thread (ApplyConfig cfg out) = False"
| "on_io_thread (SetOutput out) = False"
| "on_io_thread (PostInject p) = False"
| "on_io_thread (OtherLookups n) = False"
| "on_io_thread _ = True"

definition io_active :: "InstanceRuntime \<Rightarrow> bool" where
  "io_active r \<longleftrightarrow> io_running r \<and> \<not> io_stopped r"

text \<open>The stack is shared: its timers may make an interface send a packet on the thread of any instance.\<close>

fun by_stack :: "lwip_event \<Rightarrow> bool" where
  "by_stack (EmitPacket p) = True"
| "by_stack _ = False"

text \<open>The calls that open sockets leave with an exception, never with undefined behaviour.\<close>

definition socket_errors :: "listen_answers \<Rightarrow> bool" where
  "socket_errors ans \<longleftrightarrow>
     list_all (\<lambda>e. case e of None \<Rightarrow> True | Some x \<Rightarrow> \<not> is_ub x)
       [make_address_error ans, open_error ans, reuse_error ans, bind_error ans, listen_error ans, udp_socket_error ans]"

text \<open>The program starts its manager once; a join ends when the joined thread has ended.\<close>

definition mgr_enabled :: "mgr_event \<Rightarrow> MultiInstanceManager \<Rightarrow> bool" where
  "mgr_enabled ev m =
     (case ev of
        ManagerStart \<Rightarrow> runtimes m = [] \<and> mgr_pc m = MgrOutside
      | ManagerStop \<Rightarrow> mgr_pc m = MgrOutside
      | StopStep \<Rightarrow> (case mgr_pc m of MgrOutside \<Rightarrow> False
          | MgrJoining i \<Rightarrow> vpn_pc (vpn (runtimes m ! i)) \<in> {NotStarted, Finished} | _ \<Rightarrow> True)
      | RunIo i ans \<Rightarrow> i < length (runtimes m) \<and> io_active (runtimes m ! i) \<and> io_tasks (runtimes m ! i) \<noteq> [] \<and>
          socket_errors (listen_calls ans)
      | VpnEv i e \<Rightarrow> i < length (runtimes m) \<and> on_vpn_thread e \<and> vpn_enabled e (vpn (runtimes m ! i))
      | LwipEv i e \<Rightarrow> i < length (runtimes m) \<and> on_io_thread e \<and> lwip_enabled e (lwip (runtimes m ! i)) \<and>
          (io_active (runtimes m ! i) \<or> by_stack e \<and> handlers_alive (vpn (runtimes m ! i)) \<and> list_ex io_active (runtimes m))
      | AcceptEv i ok \<Rightarrow> i < length (runtimes m) \<and> io_active (runtimes m ! i) \<and>
          inbound_enabled (Accepted ok) (ss (runtimes m ! i)))"

definition with_runtime ::
  "nat \<Rightarrow> (InstanceRuntime \<Rightarrow> exn option \<times> InstanceRuntime) \<Rightarrow> MultiInstanceManager \<Rightarrow> exn option \<times> MultiInstanceManager" where
  "with_runtime i f m = (case f (runtimes m ! i) of (e, r) \<Rightarrow> (e, update_runtime i (\<lambda>_. r) m))"

definition mgr_handle :: "mbedtls \<Rightarrow> mgr_event \<Rightarrow> MultiInstanceManager \<Rightarrow> exn option \<times> MultiInstanceManager" where
  "mgr_handle c ev m =
     (case ev of
        ManagerStart \<Rightarrow> (None, MultiInstanceManager_start c m)
      | ManagerStop \<Rightarrow> (None, MultiInstanceManager_stop m)
      | StopStep \<Rightarrow> (None, stop_step m)
      | RunIo i ans \<Rightarrow> with_runtime i (run_io (manager_running m) ans) m
      | VpnEv i e \<Rightarrow> with_runtime i (run_vpn_event e) m
      | LwipEv i e \<Rightarrow>
          (case with_runtime i (run_lwip_event (next_dns_id m) e) m of
             (x, m1) \<Rightarrow> (x, m1\<lparr>next_dns_id := next_id (lwip (runtimes m1 ! i))\<rparr>))
      | AcceptEv i ok \<Rightarrow> (None, update_runtime i (\<lambda>r. r\<lparr>ss := on_accept ok (ss r)\<rparr>) m))"

inductive mgr_step :: "mbedtls \<Rightarrow> MultiInstanceManager \<Rightarrow> MultiInstanceManager \<Rightarrow> bool" for c where
  mgr_event: "mgr_enabled ev m \<Longrightarrow> mgr_handle c ev m = (r, m') \<Longrightarrow>
    (case r of None \<Rightarrow> True | Some e \<Rightarrow> \<not> is_ub e) \<Longrightarrow> mgr_step c m m'"

inductive_cases mgr_stepE: "mgr_step c m m'"

definition mgr_init :: "ManagerConfig \<Rightarrow> MultiInstanceManager \<Rightarrow> bool" where
  "mgr_init cfg m \<longleftrightarrow> m = MultiInstanceManager_new cfg"

abbreviation mgr_reachable :: "mbedtls \<Rightarrow> ManagerConfig \<Rightarrow> MultiInstanceManager \<Rightarrow> bool" where
  "mgr_reachable c cfg \<equiv> reachable (mgr_init cfg) (mgr_step c)"

fun run_manager :: "mbedtls \<Rightarrow> mgr_event list \<Rightarrow> MultiInstanceManager \<Rightarrow> MultiInstanceManager option" where
  "run_manager c [] m = Some m"
| "run_manager c (ev # evs) m =
     (if mgr_enabled ev m then
        (case mgr_handle c ev m of
           (None, m') \<Rightarrow> run_manager c evs m'
         | (Some e, m') \<Rightarrow> if is_ub e then None else run_manager c evs m')
      else None)"

lemma run_manager_reachable:
  "run_manager c evs m = Some m' \<Longrightarrow> mgr_reachable c cfg m \<Longrightarrow> mgr_reachable c cfg m'"
proof (induction evs arbitrary: m)
  case (Cons ev evs)
  obtain r u where h: "mgr_handle c ev m = (r, u)" by fastforce
  with Cons.prems have e: "mgr_enabled ev m" and r: "case r of None \<Rightarrow> True | Some e \<Rightarrow> \<not> is_ub e"
    and rest: "run_manager c evs u = Some m'"
    by (auto split: if_splits option.splits)
  from reach_step [OF Cons.prems(2) mgr_event [OF e h r]] Cons.IH [OF rest] show ?case by blast
qed simp

section \<open>The invariant of an instance\<close>

definition quiet :: "InstanceRuntime \<Rightarrow> bool" where
  "quiet r \<longleftrightarrow>
     \<not> started (ss r) \<and> \<not> acceptor_open (ss r) \<and> udp (ss r) = None \<and> \<not> vpn_running (vpn r) \<and> \<not> running (lwip r)"

text \<open>
  The client is in one of its good states and gets exactly the packets that the stack emits; the
  task that starts the instance is the first one and runs at most once; the task that stops it is
  posted only when the manager is not running, and once it has run nothing is started again.
\<close>

definition inst_inv :: "bool \<Rightarrow> InstanceRuntime \<Rightarrow> bool" where
  "inst_inv active r \<longleftrightarrow>
     loop_inv (vpn r) \<and> packet_inv (vpn r) \<and> sent_packets (vpn r) = map snd (netif_outputs (lwip r)) \<and>
     StartInstance \<notin> set (tl (io_tasks r)) \<and>
     (StopInstance \<in> set (io_tasks r) \<or> stop_ran r \<longrightarrow> \<not> active) \<and>
     (vpn_pc (vpn r) \<noteq> NotStarted \<or> stop_ran r \<longrightarrow> StartInstance \<notin> set (io_tasks r)) \<and>
     (stop_ran r \<longrightarrow> quiet r)"

text \<open>What the events of the client's thread and of the stack do to each other's state.\<close>

lemma apply_addresses_runs:
  "apply_addresses as l = (e, l') \<Longrightarrow> running l' = running l \<and> netif_outputs l' = netif_outputs l"
  by (induction as arbitrary: l) (fastforce split: if_splits sum.splits)+

lemma establish_frame:
  "tun_builder_establish out b l = (rc, l') \<Longrightarrow> running l' = running l \<and> netif_outputs l' = netif_outputs l"
  by (auto simp: tun_builder_establish_def apply_tun_config_and_output_def apply_tun_config_locked_def
      split: prod.splits option.splits dest!: apply_addresses_runs)

lemma tun_start_frame:
  assumes "tun_start ans k v l = (e, w, l')"
  shows "running l' = running l" "netif_outputs l' = netif_outputs l" "sent_packets w = sent_packets v" "vpn_running w = vpn_running v"
  using assms
  by (auto simp: tun_start_def tun_builder_new_def update_tun_def tun_error_def notify_tun_ready_def Let_def
      split: prod.splits if_splits dest!: establish_frame)

lemma vpn_thread_frame:
  assumes "on_vpn_thread ev" "vpn_handle ev v l = (e, w, l')"
  shows "running l' = running l \<and> netif_outputs l' = netif_outputs l \<and> sent_packets w = sent_packets v \<and>
    (vpn_running w \<longrightarrow> vpn_running v)"
proof (cases ev)
  case (TunStart ans k)
  with assms(2) show ?thesis using tun_start_frame by (simp add: vpn_handle_def)
next
  case (LoopStep x)
  with assms(2) show ?thesis by (auto simp: vpn_handle_def loop_defs split: vpn_pc.splits if_splits)
qed (use assms in \<open>auto simp: vpn_handle_def tun_defs loop_defs tun_builder_teardown_def set_packet_output_def tun_send_def
    inject_from_openvpn_def post_inject_l3_packet_def post_task_def split: prod.splits if_splits list.splits\<close>)

text \<open>The stack emits packets, and no event of it but a start makes it run.\<close>

definition lwip_frame :: "LwipRuntime \<Rightarrow> LwipRuntime \<Rightarrow> bool" where
  "lwip_frame l l' \<longleftrightarrow> take (length (netif_outputs l)) (netif_outputs l') = netif_outputs l \<and> (running l' \<longrightarrow> running l)"

lemma lwip_frame_same: "netif_outputs l' = netif_outputs l \<Longrightarrow> running l' = running l \<Longrightarrow> lwip_frame l l'"
  by (simp add: lwip_frame_def)

lemma lookup_frame [simp]:
  "netif_outputs (post_task t l) = netif_outputs l" "running (post_task t l) = running l"
  "netif_outputs (register_query i q p l) = netif_outputs l" "running (register_query i q p l) = running l"
  "netif_outputs (complete_dns_query i err ip l) = netif_outputs l" "running (complete_dns_query i err ip l) = running l"
  by (simp_all add: post_task_def register_query_def complete_dns_query_def Let_def split: option.split)

lemma send_query_frame:
  "netif_outputs (snd (send_query ans hst server q p l)) = netif_outputs l \<and>
   running (snd (send_query ans hst server q p l)) = running l"
  by (simp add: send_query_def Let_def split: sum.split)

lemma async_resolve_frame:
  "netif_outputs (snd (async_resolve ans hst h l)) = netif_outputs l \<and> running (snd (async_resolve ans hst h l)) = running l"
  by (simp add: async_resolve_def send_query_frame Let_def split: sum.split option.split)

lemma dns_recv_frame:
  "netif_outputs (snd (dns_recv p buf l)) = netif_outputs l \<and> running (snd (dns_recv p buf l)) = running l"
  by (simp add: dns_recv_def split: sum.split option.split prod.split)

lemma lwip_io_frame:
  assumes "on_io_thread ev" "lwip_handle ev l = (e, l')"
  shows "lwip_frame l l'"
proof (cases ev)
  case (Resolve ans hst h)
  with assms(2) async_resolve_frame [of ans hst h l] show ?thesis by (auto simp: lwip_handle_def intro: lwip_frame_same)
next
  case (DnsRecv p buf)
  with assms(2) dns_recv_frame [of p buf l] show ?thesis by (auto simp: lwip_handle_def intro: lwip_frame_same)
next
  case (RunPosted alloc)
  with assms(2) show ?thesis
    by (cases "hd (posted_tasks l)") (auto simp: lwip_handle_def inject_l3_packet_def intro!: lwip_frame_same split: if_splits)
next
  case (EmitPacket p)
  with assms(2) show ?thesis
    by (auto simp: lwip_handle_def emit_packet_def lwip_frame_def Let_def split: option.splits if_splits)
qed (use assms in \<open>auto simp: lwip_handle_def on_dns_timer_def complete_dns_query_def post_task_def on_tick_def poll_timeouts_def
    arm_timer_def LwipRuntime_stop_def lwip_frame_def split: option.splits prod.splits if_splits\<close>)

lemma send_l3_packet_fields [simp]:
  "vpn_running (send_l3_packet p v) = vpn_running v" "vpn_pc (send_l3_packet p v) = vpn_pc v"
  "sent_packets (send_l3_packet p v) = sent_packets v @ [p]"
  by (simp_all add: client_defs split: option.split)

lemma send_packets_fields:
  "vpn_running (fold (\<lambda>(out, p). send_l3_packet p) ps v) = vpn_running v \<and>
   vpn_pc (fold (\<lambda>(out, p). send_l3_packet p) ps v) = vpn_pc v \<and>
   sent_packets (fold (\<lambda>(out, p). send_l3_packet p) ps v) = sent_packets v @ map snd ps"
  by (induction ps arbitrary: v) (simp_all add: case_prod_unfold)

lemma send_l3_packet_loop_inv: "loop_inv v \<Longrightarrow> loop_inv (send_l3_packet p v)"
  by (rule loop_inv_view [of _ v]) (simp_all add: loop_view_def client_defs split: option.split)

lemma send_packets_inv:
  "loop_inv v \<Longrightarrow> packet_inv v \<Longrightarrow>
   loop_inv (fold (\<lambda>(out, p). send_l3_packet p) ps v) \<and> packet_inv (fold (\<lambda>(out, p). send_l3_packet p) ps v)"
  by (induction ps arbitrary: v) (simp_all add: send_packet_inv send_l3_packet_loop_inv case_prod_unfold)

section \<open>Preservation\<close>

lemma inst_inv_new: "inst_inv True (start_instance (InstanceRuntime_new c cfg))"
  by (simp add: inst_inv_def start_instance_def post_io_def InstanceRuntime_new_def set_ready_handler_def
      set_disconnect_handler_def OpenVpnClient_new_def LwipRuntime_new_def loop_inv_def packet_inv_def)

lemma inst_inv_stopping: "inst_inv active r \<Longrightarrow> inst_inv False r"
  by (simp add: inst_inv_def)

text \<open>Changes that keep what the invariant looks at.\<close>

lemma inst_inv_same:
  assumes "vpn r' = vpn r" "lwip r' = lwip r" "ss r' = ss r" "io_tasks r' = io_tasks r" "stop_ran r' = stop_ran r" "inst_inv active r"
  shows "inst_inv active r'"
  using assms by (simp add: inst_inv_def quiet_def)

lemma leave_run_inv: "inst_inv active (snd er) \<Longrightarrow> inst_inv active (snd (leave_run er))"
  by (cases er; cases "fst er") (auto simp: leave_run_def intro: inst_inv_same)

lemma set_tl: "set (tl xs) \<subseteq> set xs"
  by (cases xs) auto

lemma post_io_inv:
  assumes "inst_inv active r" "StartInstance \<notin> set ts" "StopInstance \<in> set ts \<longrightarrow> \<not> active"
  shows "inst_inv active (post_io ts r)"
proof -
  have "set (tl (xs @ ts)) \<subseteq> set (tl xs) \<union> set ts" for xs :: "io_task list"
    using set_tl [of ts] by (cases xs) auto
  with assms show ?thesis by (auto simp: inst_inv_def post_io_def quiet_def)
qed

lemma start_frame:
  assumes "OpenVpnClient_start f e v = (x, w)"
  shows "sent_packets w = sent_packets v" "packet_view w = packet_view v"
  using assms by (auto simp: OpenVpnClient_start_def packet_view_def Let_def split: option.splits if_splits)

lemma start_task_inv:
  assumes inv: "inst_inv active (r\<lparr>io_tasks := StartInstance # ts\<rparr>)"
  shows "inst_inv active (start_task ans (r\<lparr>io_tasks := ts\<rparr>))"
proof -
  obtain x w where st: "OpenVpnClient_start (profile_file ans) (profile_refused ans) (vpn r) = (x, w)" by fastforce
  have pc: "vpn_pc (vpn r) = NotStarted" "\<not> stop_ran r" "StartInstance \<notin> set ts"
    using inv by (auto simp: inst_inv_def)
  have "loop_inv w" using start_inv [of "vpn r" "profile_file ans" "profile_refused ans"] inv pc st by (simp add: inst_inv_def)
  moreover have "packet_inv w"
    using start_frame(2) [OF st] inv by (intro packet_inv_view [of w "vpn r"]) (simp_all add: packet_view_def inst_inv_def)
  moreover have "netif_outputs (LwipRuntime_start l) = netif_outputs l" "netif_outputs (LwipRuntime_stop l) = netif_outputs l" for l
    by (simp_all add: LwipRuntime_start_def LwipRuntime_stop_def arm_timer_def)
  moreover have "set (tl ts) \<subseteq> set ts" by (rule set_tl)
  ultimately show ?thesis
    using inv pc st start_frame(1) [OF st] by (cases x) (auto simp: start_task_def inst_inv_def)
qed

lemma listeners_inv:
  assumes inv: "inst_inv active (r\<lparr>io_tasks := t # ts\<rparr>)"
  shows "inst_inv active (snd (start_listeners_task active ans (r\<lparr>io_tasks := ts\<rparr>)))"
    "inst_inv active (stop_listeners_task active (r\<lparr>io_tasks := ts\<rparr>))"
proof -
  have tl: "set (tl ts) \<subseteq> set ts" by (rule set_tl)
  with inv have "inst_inv active (r\<lparr>io_tasks := ts\<rparr>)" by (auto simp: inst_inv_def quiet_def)
  then show "inst_inv active (snd (start_listeners_task active ans (r\<lparr>io_tasks := ts\<rparr>)))"
    "inst_inv active (stop_listeners_task active (r\<lparr>io_tasks := ts\<rparr>))"
    by (auto simp: start_listeners_task_def stop_listeners_task_def inst_inv_def split: prod.split)
qed

lemma stop_frame:
  "packet_view (OpenVpnClient_stop v) = packet_view v" "sent_packets (OpenVpnClient_stop v) = sent_packets v"
  "vpn_pc (OpenVpnClient_stop v) = vpn_pc v" "\<not> vpn_running (OpenVpnClient_stop v)"
  by (simp_all add: OpenVpnClient_stop_def core_stop_def packet_view_def)

lemma handlers_frame:
  "loop_view (set_disconnect_handler a (set_ready_handler b v)) = loop_view v"
  "packet_view (set_disconnect_handler a (set_ready_handler b v)) = packet_view v"
  "core_stops (set_disconnect_handler a (set_ready_handler b v)) = core_stops v"
  by (simp_all add: set_disconnect_handler_def set_ready_handler_def loop_view_def packet_view_def)

lemma inbound_stop_quiet:
  "\<not> started (ShadowsocksInbound_stop s)" "\<not> acceptor_open (ShadowsocksInbound_stop s)" "udp (ShadowsocksInbound_stop s) = None"
  by (simp_all add: ShadowsocksInbound_stop_def Let_def split: option.split)

lemma LwipRuntime_stop_fields [simp]:
  "netif_outputs (LwipRuntime_stop l) = netif_outputs l" "running (LwipRuntime_stop l) = False"
  by (simp_all add: LwipRuntime_stop_def)

lemma stop_task_inv:
  assumes inv: "inst_inv active (r\<lparr>io_tasks := StopInstance # ts\<rparr>)"
  shows "inst_inv active (stop_task (r\<lparr>io_tasks := ts\<rparr>))"
proof -
  define h where "h = set_disconnect_handler False (set_ready_handler False (vpn r))"
  have v: "loop_inv (vpn r)" "packet_inv (vpn r)" "sent_packets (vpn r) = map snd (netif_outputs (lwip r))"
    and t: "StartInstance \<notin> set ts" "\<not> active"
    using inv by (simp_all add: inst_inv_def)
  have "loop_inv h" unfolding h_def by (rule loop_inv_view [OF handlers_frame(1) _ v(1)]) (simp add: handlers_frame(3))
  then have l: "loop_inv (OpenVpnClient_stop h)" by (rule stop_vpn_inv)
  have "packet_view (OpenVpnClient_stop h) = packet_view (vpn r)" by (simp add: stop_frame(1) h_def handlers_frame(2))
  then have p: "packet_inv (OpenVpnClient_stop h)" "sent_packets (OpenVpnClient_stop h) = sent_packets (vpn r)"
    using v(2) by (simp_all add: packet_view_def packet_inv_view [of _ "vpn r"])
  have "quiet (stop_task (r\<lparr>io_tasks := ts\<rparr>))"
    by (simp add: quiet_def stop_task_def inbound_stop_quiet stop_frame(4))
  moreover have "StartInstance \<notin> set (tl ts)" using t(1) set_tl [of ts] by blast
  ultimately show ?thesis
    unfolding inst_inv_def using l p v(3) t by (simp add: stop_task_def h_def [symmetric])
qed

lemma run_io_inv:
  assumes "inst_inv active r"
  shows "inst_inv active (snd (run_io active ans r))"
proof (cases "io_tasks r")
  case (Cons t ts)
  have r: "inst_inv active (r\<lparr>io_tasks := t # ts\<rparr>)" by (rule inst_inv_same [OF _ _ _ _ _ assms]) (simp_all add: Cons)
  have "inst_inv active (snd (run_io_task active ans t (r\<lparr>io_tasks := ts\<rparr>)))"
  proof (cases t)
    case StartInstance
    from start_task_inv [OF r [unfolded StartInstance], of ans] show ?thesis by (simp only: run_io_task_def StartInstance io_task.case snd_conv)
  next
    case StartListeners
    from listeners_inv(1) [OF r, of ans] show ?thesis by (simp only: run_io_task_def StartListeners io_task.case)
  next
    case StopListeners
    from listeners_inv(2) [OF r] show ?thesis by (simp only: run_io_task_def StopListeners io_task.case snd_conv)
  next
    case StopInstance
    from stop_task_inv [OF r [unfolded StopInstance]] show ?thesis by (simp only: run_io_task_def StopInstance io_task.case snd_conv)
  qed
  with Cons show ?thesis by (simp add: run_io_def leave_run_inv)
qed (use assms in \<open>simp add: run_io_def\<close>)

lemma run_vpn_event_inv:
  assumes inv: "inst_inv active r" and ev: "on_vpn_thread ev" "vpn_enabled ev (vpn r)"
  shows "inst_inv active (snd (run_vpn_event ev r))"
proof -
  obtain e v l where h: "vpn_handle ev (vpn r) (lwip r) = (e, v, l)" by (metis prod.exhaust)
  note f = vpn_thread_frame [OF ev(1) h]
  have pc: "vpn_pc (vpn r) \<noteq> NotStarted" using ev by (cases ev) (auto simp: vpn_enabled_def)
  have "loop_inv v" "packet_inv v"
    using inv vpn_handle_loop_inv [OF _ ev(2) h] vpn_handle_packet_inv [OF _ ev(2) h] by (auto simp: inst_inv_def)
  with inv f pc have "inst_inv active (r\<lparr>vpn := v, lwip := l\<rparr>)" by (auto simp: inst_inv_def quiet_def)
  with h show ?thesis by (auto simp: run_vpn_event_def intro!: post_io_inv)
qed

lemma run_lwip_event_inv:
  assumes inv: "inst_inv active r" and ev: "on_io_thread ev"
  shows "inst_inv active (snd (run_lwip_event n ev r))"
proof -
  obtain e l where h: "lwip_handle ev ((lwip r)\<lparr>next_id := n\<rparr>) = (e, l)" by fastforce
  let ?ps = "drop (length (netif_outputs (lwip r))) (netif_outputs l)"
  have f: "take (length (netif_outputs (lwip r))) (netif_outputs l) = netif_outputs (lwip r)" "running l \<longrightarrow> running (lwip r)"
    using lwip_io_frame [OF ev h] by (simp_all add: lwip_frame_def)
  have "netif_outputs l = netif_outputs (lwip r) @ ?ps"
    using f(1) append_take_drop_id [of "length (netif_outputs (lwip r))" "netif_outputs l"] by simp
  then have "map snd (netif_outputs l) = map snd (netif_outputs (lwip r)) @ map snd ?ps" by (metis map_append)
  with inv f(2) send_packets_fields [of ?ps "vpn r"] send_packets_inv [of "vpn r" ?ps]
  have "inst_inv active (r\<lparr>lwip := l, vpn := forward_packets (lwip r) l (vpn r)\<rparr>)"
    by (auto simp: inst_inv_def quiet_def forward_packets_def)
  with h show ?thesis by (simp add: run_lwip_event_def leave_run_inv)
qed

lemma on_accept_inst_inv: "inst_inv active r \<Longrightarrow> inst_inv active (r\<lparr>ss := on_accept ok (ss r)\<rparr>)"
  by (auto simp: inst_inv_def quiet_def on_accept_def accept_loop_def Let_def)

lemma destroy_inst_inv:
  assumes "inst_inv active r"
  shows "inst_inv active (r\<lparr>io_running := False, vpn := OpenVpnClient_destroy (vpn r)\<rparr>)"
proof -
  have "loop_inv (OpenVpnClient_destroy (vpn r))" using assms by (simp add: inst_inv_def destroy_vpn_inv)
  moreover have v: "packet_view (OpenVpnClient_destroy (vpn r)) = packet_view (vpn r)"
    using stop_frame(1) [of "vpn r"] by (simp add: OpenVpnClient_destroy_def packet_view_def)
  then have "packet_inv (OpenVpnClient_destroy (vpn r))" "sent_packets (OpenVpnClient_destroy (vpn r)) = sent_packets (vpn r)"
    using assms by (auto simp: packet_view_def inst_inv_def intro: packet_inv_view [of _ "vpn r"])
  moreover have "vpn_pc (OpenVpnClient_destroy (vpn r)) = vpn_pc (vpn r)" "\<not> vpn_running (OpenVpnClient_destroy (vpn r))"
    using stop_frame by (simp_all add: OpenVpnClient_destroy_def)
  ultimately show ?thesis using assms by (simp add: inst_inv_def quiet_def)
qed

section \<open>The invariant of the manager\<close>

text \<open>
  How far a shutdown has come: the contexts are stopped one after the other, and the destruction
  starts when all of them are. An instance is left behind only when the thread of its client has ended.
\<close>

definition thread_ended :: "InstanceRuntime \<Rightarrow> bool" where
  "thread_ended r \<longleftrightarrow> vpn_pc (vpn r) = NotStarted \<or> vpn_pc (vpn r) = Finished"

definition shutdown_inv :: "MultiInstanceManager \<Rightarrow> bool" where
  "shutdown_inv m \<longleftrightarrow>
     (case mgr_pc m of
        MgrOutside \<Rightarrow> manager_running m \<or> runtimes m = []
      | MgrPosting k \<Rightarrow> list_all io_stopped (take k (runtimes m))
      | MgrWaiting k \<Rightarrow> k < length (runtimes m) \<and> list_all io_stopped (take k (runtimes m))
      | MgrDestroying k \<Rightarrow> list_all io_stopped (runtimes m) \<and> list_all thread_ended (take k (runtimes m))
      | MgrJoining k \<Rightarrow> k < length (runtimes m) \<and> list_all io_stopped (runtimes m) \<and> list_all thread_ended (take k (runtimes m)))"

definition mgr_inv :: "MultiInstanceManager \<Rightarrow> bool" where
  "mgr_inv m \<longleftrightarrow>
     list_all (inst_inv (manager_running m)) (runtimes m) \<and> (mgr_pc m \<noteq> MgrOutside \<longrightarrow> \<not> manager_running m) \<and> shutdown_inv m"

lemma list_all_update: "list_all P xs \<Longrightarrow> (i < length xs \<Longrightarrow> P x) \<Longrightarrow> list_all P (xs[i := x])"
  by (cases "i < length xs") (simp_all add: list_all_length nth_list_update)

lemma update_runtime_fields [simp]:
  "mgr_pc (update_runtime i f m) = mgr_pc m" "manager_running (update_runtime i f m) = manager_running m"
  "runtimes (update_runtime i f m) = (runtimes m)[i := f (runtimes m ! i)]"
  by (simp_all add: update_runtime_def)

text \<open>One instance takes a step while the main thread stays where it is.\<close>

lemma update_shutdown_inv:
  assumes "shutdown_inv m" "i < length (runtimes m)" "io_stopped r \<longleftrightarrow> io_stopped (runtimes m ! i)"
    and "list_all io_stopped (runtimes m) \<Longrightarrow> thread_ended (runtimes m ! i) \<Longrightarrow> thread_ended r"
  shows "shutdown_inv (m\<lparr>runtimes := (runtimes m)[i := r]\<rparr>)"
proof -
  have up: "list_all P (take k ((runtimes m)[i := r]))" if "list_all P (take k (runtimes m))" "P (runtimes m ! i) \<Longrightarrow> P r" for P k
  proof (cases "i < k")
    case True
    with that assms(2) have "P (runtimes m ! i)" by (auto simp: list_all_length)
    with that True show ?thesis by (simp add: take_update_swap list_all_update)
  qed (use that in \<open>simp add: take_update_cancel\<close>)
  from up [of io_stopped "length (runtimes m)"] assms(3)
  have "list_all io_stopped (runtimes m) \<Longrightarrow> list_all io_stopped ((runtimes m)[i := r])" by simp
  with assms up show ?thesis by (cases "mgr_pc m") (simp_all add: shutdown_inv_def)
qed

lemma instance_step_inv:
  assumes inv: "mgr_inv m" and i: "i < length (runtimes m)"
    and "inst_inv (manager_running m) (runtimes m ! i) \<Longrightarrow> inst_inv (manager_running m) r"
    and "io_stopped r \<longleftrightarrow> io_stopped (runtimes m ! i)"
    and "list_all io_stopped (runtimes m) \<Longrightarrow> thread_ended (runtimes m ! i) \<Longrightarrow> thread_ended r"
  shows "mgr_inv (m\<lparr>runtimes := (runtimes m)[i := r]\<rparr>)"
proof -
  have "inst_inv (manager_running m) (runtimes m ! i)" using inv i by (simp add: mgr_inv_def list_all_length)
  with inv assms(3) have "list_all (inst_inv (manager_running m)) ((runtimes m)[i := r])"
    by (intro list_all_update) (simp_all add: mgr_inv_def)
  with inv update_shutdown_inv [OF _ i assms(4,5)] show ?thesis by (simp add: mgr_inv_def)
qed

lemma io_stopped_frame:
  "io_stopped (snd (leave_run er)) = io_stopped (snd er)"
  "io_stopped (snd (run_io_task active ans t r)) = io_stopped r"
  "io_stopped (snd (run_io active ans r)) = io_stopped r"
  "io_stopped (snd (run_vpn_event ev r)) = io_stopped r"
  "io_stopped (snd (run_lwip_event n lev r)) = io_stopped r"
proof -
  have l: "io_stopped (snd (leave_run er)) = io_stopped (snd er)" for er
    by (simp add: leave_run_def split: prod.split option.split)
  have t: "io_stopped (snd (run_io_task active ans t r)) = io_stopped r" for t r
    by (simp add: run_io_task_def start_task_def start_listeners_task_def stop_listeners_task_def stop_task_def Let_def
        split: io_task.split prod.split option.split)
  show "io_stopped (snd (leave_run er)) = io_stopped (snd er)" "io_stopped (snd (run_io_task active ans t r)) = io_stopped r"
    "io_stopped (snd (run_io active ans r)) = io_stopped r"
    using l t by (simp_all add: run_io_def split: list.split)
  show "io_stopped (snd (run_vpn_event ev r)) = io_stopped r" by (simp add: run_vpn_event_def post_io_def split: prod.split)
  show "io_stopped (snd (run_lwip_event n lev r)) = io_stopped r" using l by (simp add: run_lwip_event_def split: prod.split)
qed

lemma vpn_thread_not_ended: "on_vpn_thread ev \<Longrightarrow> vpn_enabled ev (vpn r) \<Longrightarrow> \<not> thread_ended r"
  by (cases ev) (auto simp: vpn_enabled_def thread_ended_def)

lemma no_thread_active: "list_all io_stopped rs \<Longrightarrow> i < length rs \<Longrightarrow> \<not> io_active (rs ! i) \<and> \<not> list_ex io_active rs"
  by (auto simp: list_all_iff list_ex_iff io_active_def)

lemma thread_event_active:
  assumes "mgr_enabled ev m" "ev = RunIo i ans \<or> ev = LwipEv i le \<or> ev = AcceptEv i ok"
  shows "\<not> list_all io_stopped (runtimes m)"
  using assms no_thread_active [of "runtimes m" i] by (auto simp: mgr_enabled_def)

lemma start_mgr_inv:
  assumes "mgr_inv m" "runtimes m = []" "mgr_pc m = MgrOutside"
  shows "mgr_inv (MultiInstanceManager_start c m)"
  using assms inst_inv_new
  by (simp add: MultiInstanceManager_start_def mgr_inv_def shutdown_inv_def list_all_iff)

lemma stop_mgr_inv:
  assumes "mgr_inv m"
  shows "mgr_inv (MultiInstanceManager_stop m)"
proof (cases "manager_running m")
  case True
  have "list_all (inst_inv False) (runtimes m)"
    using assms by (auto simp: mgr_inv_def list_all_iff intro: inst_inv_stopping)
  with True show ?thesis by (simp add: MultiInstanceManager_stop_def mgr_inv_def shutdown_inv_def)
qed (use assms in \<open>simp add: MultiInstanceManager_stop_def\<close>)

lemma post_stop_inv: "inst_inv False r \<Longrightarrow> inst_inv False ((post_io [StopInstance] r)\<lparr>io_work := False\<rparr>)"
  by (rule inst_inv_same [OF _ _ _ _ _ post_io_inv [of False r "[StopInstance]"]]) simp_all

lemma stop_context_inv: "inst_inv False r \<Longrightarrow> inst_inv False (r\<lparr>io_stopped := True\<rparr>)"
  by (rule inst_inv_same [of _ r]) simp_all

lemma remove_interface_inv: "inst_inv False r \<Longrightarrow> inst_inv False (r\<lparr>lwip := LwipRuntime_stop (lwip r)\<rparr>)"
  by (simp add: inst_inv_def quiet_def)

lemma take_Suc_update:
  assumes "list_all P (take k xs)" "k < length xs" "P x"
  shows "list_all P (take (Suc k) (xs[k := x]))"
  using assms by (simp add: take_Suc_conv_app_nth)

lemma stop_step_inv:
  assumes inv: "mgr_inv m" and en: "mgr_enabled StopStep m"
  shows "mgr_inv (stop_step m)"
proof -
  let ?rs = "runtimes m"
  have nr: "\<not> manager_running m" using inv en by (cases "mgr_pc m") (auto simp: mgr_inv_def mgr_enabled_def)
  have all: "list_all (inst_inv False) ?rs" using inv nr by (simp add: mgr_inv_def)
  have nth: "inst_inv False (?rs ! k)" if "k < length ?rs" for k using all that by (simp add: list_all_length)
  have at: "list_all (inst_inv False) (?rs[k := x])" if "inst_inv False x" for k x using all that by (rule list_all_update)
  have sh: "shutdown_inv m" using inv by (simp add: mgr_inv_def)
  show ?thesis
  proof (cases "mgr_pc m")
    case (MgrPosting k)
    with sh have "list_all io_stopped (take k ?rs)" by (simp add: shutdown_inv_def)
    with nr all at [OF post_stop_inv [OF nth], of k] MgrPosting show ?thesis
      by (cases "k < length ?rs") (simp_all add: stop_step_def mgr_inv_def shutdown_inv_def)
  next
    case (MgrWaiting k)
    with sh have "list_all io_stopped (take k ?rs)" "k < length ?rs" by (simp_all add: shutdown_inv_def)
    from take_Suc_update [OF this] nr at [OF stop_context_inv [OF nth [OF this(2)]], of k] MgrWaiting show ?thesis
      by (simp add: stop_step_def mgr_inv_def shutdown_inv_def)
  next
    case (MgrDestroying k)
    with sh have s: "list_all io_stopped ?rs" "list_all thread_ended (take k ?rs)" by (simp_all add: shutdown_inv_def)
    have "list_all io_stopped (?rs[k := (?rs ! k)\<lparr>io_running := False, vpn := OpenVpnClient_destroy (vpn (?rs ! k))\<rparr>])"
      using s(1) by (intro list_all_update) (simp_all add: list_all_length)
    with s nr all at [OF destroy_inst_inv [OF nth], of k] MgrDestroying show ?thesis
      by (cases "k < length ?rs") (simp_all add: stop_step_def mgr_inv_def shutdown_inv_def)
  next
    case (MgrJoining k)
    with sh have s: "list_all io_stopped ?rs" "list_all thread_ended (take k ?rs)" "k < length ?rs" by (simp_all add: shutdown_inv_def)
    have "thread_ended ((?rs ! k)\<lparr>lwip := LwipRuntime_stop (lwip (?rs ! k))\<rparr>)"
      using en MgrJoining by (simp add: mgr_enabled_def thread_ended_def)
    note t = take_Suc_update [OF s(2,3) this]
    have "list_all io_stopped (?rs[k := (?rs ! k)\<lparr>lwip := LwipRuntime_stop (lwip (?rs ! k))\<rparr>])"
      using s(1) by (intro list_all_update) (simp_all add: list_all_length)
    with t nr at [OF remove_interface_inv [OF nth [OF s(3)]], of k] MgrJoining show ?thesis
      by (simp add: stop_step_def mgr_inv_def shutdown_inv_def)
  qed (use en in \<open>simp add: mgr_enabled_def\<close>)
qed

lemma with_runtime_inv:
  assumes "mgr_inv m" "i < length (runtimes m)" "with_runtime i f m = (e, m')"
    and "inst_inv (manager_running m) (runtimes m ! i) \<Longrightarrow> inst_inv (manager_running m) (snd (f (runtimes m ! i)))"
    and "io_stopped (snd (f (runtimes m ! i))) \<longleftrightarrow> io_stopped (runtimes m ! i)"
    and "list_all io_stopped (runtimes m) \<Longrightarrow> thread_ended (runtimes m ! i) \<Longrightarrow> thread_ended (snd (f (runtimes m ! i)))"
  shows "mgr_inv m'"
  using instance_step_inv [OF assms(1,2,4-6)] assms(3)
  by (auto simp: with_runtime_def update_runtime_def split: prod.splits)

lemma next_dns_id_inv: "mgr_inv (m\<lparr>next_dns_id := k\<rparr>) = mgr_inv m"
  by (cases "mgr_pc m") (simp_all add: mgr_inv_def shutdown_inv_def)

text \<open>An event of an instance whose thread or client is not at work cannot happen, so what has ended stays ended.\<close>

lemma instance_event_inv:
  assumes inv: "mgr_inv m" and en: "mgr_enabled ev m" and h: "mgr_handle c ev m = (e, m')"
    and ev: "ev = RunIo i ans \<or> ev = VpnEv i ve \<or> ev = LwipEv i le \<or> ev = AcceptEv i ok"
  shows "mgr_inv m'"
proof -
  have i: "i < length (runtimes m)" using en ev by (auto simp: mgr_enabled_def)
  have act: "\<not> list_all io_stopped (runtimes m)" if "\<And>ve. ev \<noteq> VpnEv i ve"
    using en ev that thread_event_active by blast
  from ev consider (io) "ev = RunIo i ans" | (vpn) "ev = VpnEv i ve" | (lwip) "ev = LwipEv i le" | (accept) "ev = AcceptEv i ok"
    by blast
  then show ?thesis
  proof cases
    case io
    with h have "with_runtime i (run_io (manager_running m) ans) m = (e, m')" by (simp add: mgr_handle_def)
    then show ?thesis by (rule with_runtime_inv [OF inv i]) (use act io in \<open>simp_all add: run_io_inv io_stopped_frame\<close>)
  next
    case vpn
    with en have v: "on_vpn_thread ve" "vpn_enabled ve (vpn (runtimes m ! i))" by (simp_all add: mgr_enabled_def)
    from vpn h have "with_runtime i (run_vpn_event ve) m = (e, m')" by (simp add: mgr_handle_def)
    then show ?thesis
      by (rule with_runtime_inv [OF inv i])
        (use v run_vpn_event_inv [OF _ v] vpn_thread_not_ended [OF v] in \<open>simp_all add: io_stopped_frame\<close>)
  next
    case lwip
    with en have l: "on_io_thread le" by (simp add: mgr_enabled_def)
    from lwip h obtain m1 where "with_runtime i (run_lwip_event (next_dns_id m) le) m = (e, m1)"
      and m': "m' = m1\<lparr>next_dns_id := next_id (InstanceRuntime.lwip (runtimes m1 ! i))\<rparr>"
      by (auto simp: mgr_handle_def split: prod.splits)
    then have "mgr_inv m1"
      by (elim with_runtime_inv [OF inv i]) (use act lwip l in \<open>simp_all add: run_lwip_event_inv io_stopped_frame\<close>)
    with m' show ?thesis by (simp add: next_dns_id_inv)
  next
    case accept
    with h have "m' = m\<lparr>runtimes := (runtimes m)[i := (runtimes m ! i)\<lparr>ss := on_accept ok (ss (runtimes m ! i))\<rparr>]\<rparr>"
      by (simp add: mgr_handle_def update_runtime_def)
    with instance_step_inv [OF inv i] act accept show ?thesis by (simp add: on_accept_inst_inv)
  qed
qed

interpretation manager: invariant_system "mgr_init cfg" "mgr_step c" mgr_inv for cfg c
proof
  show "mgr_inv m" if "mgr_init cfg m" for m
    using that by (simp add: mgr_init_def MultiInstanceManager_new_def mgr_inv_def shutdown_inv_def)
  show "mgr_inv m'" if inv: "mgr_inv m" and step: "mgr_step c m m'" for m m'
    using step
  proof (rule mgr_stepE)
    fix ev r assume en: "mgr_enabled ev m" and h: "mgr_handle c ev m = (r, m')"
    show "mgr_inv m'"
    proof (cases ev)
      case ManagerStart
      with en h start_mgr_inv [OF inv, of c] show ?thesis by (simp add: mgr_enabled_def mgr_handle_def)
    next
      case ManagerStop
      with h stop_mgr_inv [OF inv] show ?thesis by (simp add: mgr_handle_def)
    next
      case StopStep
      with en h stop_step_inv [OF inv] show ?thesis by (simp add: mgr_handle_def)
    qed (use instance_event_inv [OF inv en h] in blast)+
  qed
qed

end
