(* ===== verification/ManagerComposition.thy ===== *)
theory ManagerComposition
  imports MultiInstanceManager
begin

text \<open>
  The instances of the manager are compositions of the components: whatever the threads do, the
  client, the listeners and the interface of an instance only go through states of their own
  transition systems, so that what was shown of them holds inside of the running program.
\<close>

section \<open>Steps of the components\<close>

lemma vpn_reach_event:
  assumes "vpn_reachable cfg v" "vpn_enabled ev v" "vpn_handle ev v l = (e, w, l')" "\<And>x. e = Some x \<Longrightarrow> \<not> is_ub x"
  shows "vpn_reachable cfg w"
  by (rule reach_step [OF assms(1) vpn_event [OF assms(2,3)]]) (use assms(4) in \<open>simp split: option.split\<close>)

lemma lwip_reach_event:
  assumes "lwip_reachable l" "lwip_enabled ev l" "lwip_handle ev l = (e, l')" "\<And>x. e = Some x \<Longrightarrow> \<not> is_ub x"
  shows "lwip_reachable l'"
  by (rule reach_step [OF assms(1) lwip_event [OF assms(2,3)]]) (use assms(4) in \<open>simp split: option.split\<close>)

lemma inbound_reach_event:
  assumes "inbound_reachable c cfg s" "inbound_enabled ev s"
  shows "inbound_reachable c cfg (snd (inbound_handle ev s))"
  using reach_step [OF assms(1) inbound_event [OF assms(2) surjective_pairing]] .

lemma vpn_client_reach:
  assumes "vpn_reachable cfg v" "handlers_alive v"
  shows "vpn_reachable cfg (OpenVpnClient_stop v)" "vpn_reachable cfg (OpenVpnClient_destroy v)"
    "vpn_reachable cfg (set_ready_handler b v)" "vpn_reachable cfg (set_disconnect_handler b v)"
    "vpn_reachable cfg (send_l3_packet p v)"
  using vpn_reach_event [OF assms(1), of VpnStop] vpn_reach_event [OF assms(1), of VpnDestroy]
    vpn_reach_event [OF assms(1), of "SetReadyHandler b"] vpn_reach_event [OF assms(1), of "SetDisconnectHandler b"]
    vpn_reach_event [OF assms(1), of "SendPacket p"] assms(2)
  by (simp_all add: vpn_enabled_def vpn_handle_def)

lemma vpn_start_reach:
  assumes "vpn_reachable cfg v" "handlers_alive v" "vpn_pc v = NotStarted"
  shows "vpn_reachable cfg (snd (OpenVpnClient_start f e v))"
proof -
  obtain x w where st: "OpenVpnClient_start f e v = (x, w)" by fastforce
  then have "\<not> is_ub y" if "x = Some y" for y
    using that by (auto simp: OpenVpnClient_start_def Let_def split: if_splits option.splits)
  with st assms vpn_reach_event [OF assms(1), of "VpnStart f e"] show ?thesis
    by (simp add: vpn_enabled_def vpn_handle_def)
qed

lemma alive_frame [simp]:
  "handlers_alive (OpenVpnClient_stop v) = handlers_alive v" "handlers_alive (set_ready_handler b v) = handlers_alive v"
  "handlers_alive (set_disconnect_handler b v) = handlers_alive v" "handlers_alive (send_l3_packet p v) = handlers_alive v"
  by (simp_all add: client_defs split: option.split)

lemma start_alive: "handlers_alive (snd (OpenVpnClient_start f e v)) = handlers_alive v"
  by (simp add: OpenVpnClient_start_def Let_def split: option.split)

lemma send_packets_alive: "handlers_alive (fold (\<lambda>(out, p). send_l3_packet p) ps v) = handlers_alive v"
  by (induction ps arbitrary: v) (simp_all add: case_prod_unfold)

lemma send_packets_reach:
  "vpn_reachable cfg v \<Longrightarrow> handlers_alive v \<Longrightarrow> vpn_reachable cfg (fold (\<lambda>(out, p). send_l3_packet p) ps v)"
  by (induction ps arbitrary: v) (simp_all add: case_prod_unfold vpn_client_reach)

lemma vpn_thread_alive:
  assumes "on_vpn_thread ev" "vpn_handle ev v l = (e, w, l')"
  shows "handlers_alive w = handlers_alive v"
  using assms
  by (cases ev) (auto simp: vpn_handle_def tun_defs loop_defs split: prod.splits if_splits list.splits vpn_pc.splits)

text \<open>The interface, called by the tasks, by the other instances and by the client.\<close>

lemma lwip_client_reach:
  assumes "lwip_reachable l"
  shows "lwip_reachable (LwipRuntime_start l)" "lwip_reachable (LwipRuntime_stop l)" "lwip_reachable (set_packet_output out l)"
    "lwip_reachable (post_inject_l3_packet p l)"
  using lwip_reach_event [OF assms, of StartRuntime] lwip_reach_event [OF assms, of StopRuntime]
    lwip_reach_event [OF assms, of "SetOutput out"] lwip_reach_event [OF assms, of "PostInject p"]
  by (simp_all add: lwip_enabled_def lwip_handle_def)

lemma next_id_reach: "lwip_reachable l \<Longrightarrow> lwip_reachable (l\<lparr>next_id := n\<rparr>)"
  using lwip_reach_event [of l "OtherLookups (n - next_id l)"] by (simp add: lwip_enabled_def lwip_handle_def)

lemma next_id_enabled: "lwip_enabled ev (l\<lparr>next_id := n\<rparr>) = lwip_enabled ev l"
  by (cases ev) (simp_all add: lwip_enabled_def split: option.split)

lemma apply_addresses_raises: "apply_addresses as l = (Some e, l') \<Longrightarrow> \<not> is_ub e"
proof (induction as arbitrary: l)
  case (Cons a as)
  then show ?case
    by (auto simp: parse_ip_addr_def prefix_to_netmask_def Let_def bind_result_def split: if_splits option.splits sum.splits)
qed simp

lemma establish_reach:
  assumes "lwip_reachable l" "tun_builder_establish out b l = (rc, l')"
  shows "lwip_reachable l'"
proof -
  obtain e where h: "apply_tun_config_and_output (pending b) out l = (e, l')"
    using assms(2) by (auto simp: tun_builder_establish_def split: prod.splits option.splits)
  then have "\<not> is_ub x" if "e = Some x" for x
    using that by (auto simp: apply_tun_config_and_output_def apply_tun_config_locked_def split: prod.splits option.splits
        dest: apply_addresses_raises)
  with h lwip_reach_event [OF assms(1), of "ApplyConfig (pending b) out"] show ?thesis
    by (simp add: lwip_enabled_def lwip_handle_def)
qed

lemma vpn_thread_lwip:
  assumes "lwip_reachable l" "on_vpn_thread ev" "vpn_handle ev v l = (e, w, l')"
  shows "lwip_reachable l'"
proof (cases ev)
  case (TunStart ans k)
  with assms(3) have "l' = l \<or> (\<exists>b rc. tun_builder_establish 0 b l = (rc, l'))"
    by (auto simp: vpn_handle_def tun_start_def Let_def split: prod.splits if_splits)
  with assms(1) establish_reach show ?thesis by metis
next
  case (TunSend buf)
  with assms(1,3) show ?thesis by (auto simp: vpn_handle_def tun_send_def inject_from_openvpn_def lwip_client_reach)
qed (use assms in \<open>auto simp: vpn_handle_def tun_stop_def tun_builder_teardown_def lwip_client_reach split: prod.splits\<close>)

section \<open>Steps of an instance\<close>

definition components_ok :: "mbedtls \<Rightarrow> InstanceRuntime \<Rightarrow> bool" where
  "components_ok c r \<longleftrightarrow>
     vpn_reachable (runtime_config r) (vpn r) \<and> inbound_reachable c (shadowsocks (runtime_config r)) (ss r) \<and>
     lwip_reachable (lwip r)"

text \<open>An instance that is not being destroyed.\<close>

definition instance_ok :: "mbedtls \<Rightarrow> InstanceRuntime \<Rightarrow> bool" where
  "instance_ok c r \<longleftrightarrow> components_ok c r \<and> handlers_alive (vpn r)"

lemma components_same:
  assumes "runtime_config r' = runtime_config r" "vpn r' = vpn r" "ss r' = ss r" "lwip r' = lwip r"
  shows "components_ok c r' = components_ok c r" "instance_ok c r' = instance_ok c r"
  using assms by (simp_all add: components_ok_def instance_ok_def)

lemma new_instance_ok: "instance_ok c (start_instance (InstanceRuntime_new c cfg))"
proof -
  have v: "vpn_reachable cfg (OpenVpnClient_new cfg)" by (rule reach_init) (simp add: vpn_init_def)
  have a: "handlers_alive (OpenVpnClient_new cfg)" by (simp add: OpenVpnClient_new_def)
  have "inbound_reachable c (shadowsocks cfg) (ShadowsocksInbound_new c (shadowsocks cfg))"
    by (rule reach_init) (simp add: inbound_init_def)
  moreover have "lwip_reachable (LwipRuntime_new 1)" by (rule reach_init) (auto simp: lwip_init_def)
  moreover have "vpn_reachable cfg (set_disconnect_handler True (set_ready_handler True (OpenVpnClient_new cfg)))"
    using v a by (simp add: vpn_client_reach)
  ultimately show ?thesis using a
    by (simp add: instance_ok_def components_ok_def start_instance_def post_io_def InstanceRuntime_new_def)
qed

lemma leave_run_ok: "instance_ok c (snd er) \<Longrightarrow> instance_ok c (snd (leave_run er))"
proof (cases er)
  case (Pair e r)
  assume "instance_ok c (snd er)"
  moreover have "instance_ok c (r\<lparr>io_running := False\<rparr>) = instance_ok c r" by (rule components_same(2)) simp_all
  ultimately show ?thesis using Pair by (simp add: leave_run_def split: option.split)
qed

lemma start_task_ok:
  assumes "instance_ok c r" "vpn_pc (vpn r) = NotStarted"
  shows "instance_ok c (start_task ans r)"
proof -
  obtain x w where st: "OpenVpnClient_start (profile_file ans) (profile_refused ans) (vpn r) = (x, w)" by fastforce
  have "vpn_reachable (runtime_config r) w" "handlers_alive w"
    using assms st vpn_start_reach [of "runtime_config r" "vpn r" "profile_file ans" "profile_refused ans"]
      start_alive [of "profile_file ans" "profile_refused ans" "vpn r"]
    by (simp_all add: instance_ok_def components_ok_def)
  with assms(1) st show ?thesis
    by (simp add: instance_ok_def components_ok_def start_task_def lwip_client_reach Let_def split: option.split)
qed

lemma listeners_ok:
  assumes "instance_ok c r"
  shows "instance_ok c (snd (start_listeners_task active ans r))" "instance_ok c (stop_listeners_task active r)"
proof -
  have s: "inbound_reachable c (shadowsocks (runtime_config r)) (ss r)" using assms by (simp add: instance_ok_def components_ok_def)
  have "inbound_reachable c (shadowsocks (runtime_config r)) (snd (ShadowsocksInbound_start (listen_calls ans) (ss r)))"
    "inbound_reachable c (shadowsocks (runtime_config r)) (ShadowsocksInbound_stop (ss r))"
    using inbound_reach_event [OF s, of "InboundStart (listen_calls ans)"] inbound_reach_event [OF s, of InboundStop]
    by (simp_all add: inbound_enabled_def inbound_handle_def)
  with assms show "instance_ok c (snd (start_listeners_task active ans r))" "instance_ok c (stop_listeners_task active r)"
    by (simp_all add: instance_ok_def components_ok_def start_listeners_task_def stop_listeners_task_def case_prod_unfold)
qed

lemma stop_task_ok:
  assumes "instance_ok c r"
  shows "instance_ok c (stop_task r)"
proof -
  have "inbound_reachable c (shadowsocks (runtime_config r)) (ShadowsocksInbound_stop (ss r))"
    using inbound_reach_event [of c _ "ss r" InboundStop] assms
    by (simp add: instance_ok_def components_ok_def inbound_enabled_def inbound_handle_def)
  with assms show ?thesis
    by (simp add: instance_ok_def components_ok_def stop_task_def vpn_client_reach lwip_client_reach)
qed

lemma run_io_ok:
  assumes "instance_ok c r" "inst_inv active r"
  shows "instance_ok c (snd (run_io active ans r))"
proof (cases "io_tasks r")
  case (Cons t ts)
  let ?r = "r\<lparr>io_tasks := ts\<rparr>"
  have "instance_ok c ?r = instance_ok c r" by (rule components_same(2)) simp_all
  with assms(1) have r: "instance_ok c ?r" by blast
  have "instance_ok c (snd (run_io_task active ans t ?r))"
  proof (cases t)
    case StartInstance
    with assms(2) Cons have "vpn_pc (vpn ?r) = NotStarted" by (auto simp: inst_inv_def)
    from start_task_ok [OF r this] StartInstance show ?thesis by (simp add: run_io_task_def)
  qed (use listeners_ok [OF r] stop_task_ok [OF r] in \<open>simp_all add: run_io_task_def\<close>)
  with Cons show ?thesis by (simp add: run_io_def leave_run_ok)
qed (use assms in \<open>simp add: run_io_def\<close>)

lemma accept_ok:
  assumes "instance_ok c r" "inbound_enabled (Accepted ok) (ss r)"
  shows "instance_ok c (r\<lparr>ss := on_accept ok (ss r)\<rparr>)"
  using assms inbound_reach_event [of c _ "ss r" "Accepted ok"]
  by (simp add: instance_ok_def components_ok_def inbound_handle_def)

lemma run_vpn_event_ok:
  assumes "components_ok c r" "on_vpn_thread ev" "vpn_enabled ev (vpn r)" "run_vpn_event ev r = (e, r')"
    "\<And>x. e = Some x \<Longrightarrow> \<not> is_ub x"
  shows "components_ok c r'" "handlers_alive (vpn r') = handlers_alive (vpn r)"
proof -
  obtain v l where h: "vpn_handle ev (vpn r) (lwip r) = (e, v, l)"
    and r': "runtime_config r' = runtime_config r" "vpn r' = v" "lwip r' = l" "ss r' = ss r"
    using assms(4) by (auto simp: run_vpn_event_def post_io_def split: prod.splits)
  with assms(1) vpn_reach_event [OF _ assms(3) h assms(5)] vpn_thread_lwip [OF _ assms(2) h] show "components_ok c r'"
    by (simp add: components_ok_def)
  from vpn_thread_alive [OF assms(2) h] r' show "handlers_alive (vpn r') = handlers_alive (vpn r)" by simp
qed

lemma run_lwip_event_ok:
  assumes "instance_ok c r" "lwip_enabled ev (lwip r)" "run_lwip_event n ev r = (e, r')" "\<And>x. e = Some x \<Longrightarrow> \<not> is_ub x"
  shows "instance_ok c r'"
proof -
  obtain x l where h: "lwip_handle ev ((lwip r)\<lparr>next_id := n\<rparr>) = (x, l)" by fastforce
  define u where "u = r\<lparr>lwip := l, vpn := forward_packets (lwip r) l (vpn r)\<rparr>"
  have lr: "leave_run (uncaught ev x, u) = (e, r')" using assms(3) h by (simp add: run_lwip_event_def u_def)
  have "\<not> is_ub y" if "x = Some y" for y
  proof
    assume "is_ub y"
    with that have "uncaught ev x = Some y" by (cases ev) simp_all
    with lr \<open>is_ub y\<close> assms(4) show False by (simp add: leave_run_def)
  qed
  with h assms(1,2) lwip_reach_event [OF next_id_reach, of "lwip r" ev n] have "lwip_reachable l"
    by (simp add: instance_ok_def components_ok_def next_id_enabled)
  with assms(1) have "instance_ok c u"
    by (simp add: instance_ok_def components_ok_def u_def forward_packets_def send_packets_alive send_packets_reach)
  with leave_run_ok [of c "(uncaught ev x, u)"] lr show ?thesis by simp
qed

section \<open>The manager\<close>

text \<open>The instances that are not being destroyed start at this index.\<close>

fun alive_from :: "mgr_pc \<Rightarrow> nat" where
  "alive_from (MgrDestroying k) = k"
| "alive_from (MgrJoining k) = Suc k"
| "alive_from _ = 0"

abbreviation alive :: "InstanceRuntime \<Rightarrow> bool" where
  "alive r \<equiv> handlers_alive (vpn r)"

definition composition_inv :: "mbedtls \<Rightarrow> MultiInstanceManager \<Rightarrow> bool" where
  "composition_inv c m \<longleftrightarrow>
     mgr_inv m \<and> list_all (components_ok c) (runtimes m) \<and> list_all alive (drop (alive_from (mgr_pc m)) (runtimes m))"

lemma composition_instance_step:
  assumes inv: "composition_inv c m" and i: "i < length (runtimes m)" and "mgr_inv (m\<lparr>runtimes := (runtimes m)[i := r]\<rparr>)"
    and "components_ok c r" "alive (runtimes m ! i) \<Longrightarrow> alive r"
  shows "composition_inv c (m\<lparr>runtimes := (runtimes m)[i := r]\<rparr>)"
proof -
  let ?k = "alive_from (mgr_pc m)"
  have d: "list_all alive (drop ?k (runtimes m))" using inv by (simp add: composition_inv_def)
  have "list_all alive (drop ?k ((runtimes m)[i := r]))"
  proof (cases "i < ?k")
    case False
    then have "runtimes m ! i = drop ?k (runtimes m) ! (i - ?k)" "i - ?k < length (drop ?k (runtimes m))" using i by simp_all
    with d have "alive (runtimes m ! i)" unfolding list_all_length by metis
    with d assms(5) False show ?thesis by (simp add: drop_update_swap list_all_update)
  qed (use d in \<open>simp add: drop_update_cancel\<close>)
  with inv assms(3,4) show ?thesis by (simp add: composition_inv_def list_all_update)
qed

lemma active_instance_ok:
  assumes "composition_inv c m" "\<not> list_all io_stopped (runtimes m)" "i < length (runtimes m)"
  shows "instance_ok c (runtimes m ! i)"
proof -
  have "alive_from (mgr_pc m) = 0"
    using assms(1,2) by (cases "mgr_pc m") (auto simp: composition_inv_def mgr_inv_def shutdown_inv_def)
  with assms show ?thesis by (simp add: composition_inv_def instance_ok_def list_all_length)
qed

lemma with_runtime_eq: "with_runtime i f m = (e, m') \<longleftrightarrow>
    e = fst (f (runtimes m ! i)) \<and> m' = m\<lparr>runtimes := (runtimes m)[i := snd (f (runtimes m ! i))]\<rparr>"
  by (auto simp: with_runtime_def update_runtime_def split: prod.splits)

lemma next_dns_id_composition: "composition_inv c (m\<lparr>next_dns_id := k\<rparr>) = composition_inv c m"
  by (simp add: composition_inv_def next_dns_id_inv)

lemma instance_event_composition:
  assumes inv: "composition_inv c m" and inv': "mgr_inv m'" and en: "mgr_enabled ev m" and h: "mgr_handle c ev m = (e, m')"
    and ub: "\<And>x. e = Some x \<Longrightarrow> \<not> is_ub x"
    and ev: "ev = RunIo i ans \<or> ev = VpnEv i ve \<or> ev = LwipEv i le \<or> ev = AcceptEv i ok"
  shows "composition_inv c m'"
proof -
  let ?r = "runtimes m ! i"
  have i: "i < length (runtimes m)" using en ev by (auto simp: mgr_enabled_def)
  have "\<not> list_all io_stopped (runtimes m)" if "\<And>ve. ev \<noteq> VpnEv i ve"
    using en ev that thread_event_active by blast
  then have ok: "instance_ok c ?r" if "\<And>ve. ev \<noteq> VpnEv i ve" using that active_instance_ok [OF inv _ i] by blast
  have ci: "inst_inv (manager_running m) ?r" "components_ok c ?r"
    using inv i by (simp_all add: composition_inv_def mgr_inv_def list_all_length)
  from ev consider (io) "ev = RunIo i ans" | (vpn) "ev = VpnEv i ve" | (lwip) "ev = LwipEv i le" | (accept) "ev = AcceptEv i ok"
    by blast
  then show ?thesis
  proof cases
    case io
    with h have "m' = m\<lparr>runtimes := (runtimes m)[i := snd (run_io (manager_running m) ans ?r)]\<rparr>"
      by (simp add: mgr_handle_def with_runtime_eq)
    with composition_instance_step [OF inv i] run_io_ok [OF ok ci(1), of ans] io inv' show ?thesis
      by (simp add: instance_ok_def)
  next
    case vpn
    with h have m': "run_vpn_event ve ?r = (e, snd (run_vpn_event ve ?r))"
      "m' = m\<lparr>runtimes := (runtimes m)[i := snd (run_vpn_event ve ?r)]\<rparr>"
      by (simp_all add: mgr_handle_def with_runtime_eq)
    from vpn en have v: "on_vpn_thread ve" "vpn_enabled ve (InstanceRuntime.vpn ?r)" by (simp_all add: mgr_enabled_def)
    from composition_instance_step [OF inv i] run_vpn_event_ok [OF ci(2) v m'(1) ub] inv' m'(2) show ?thesis by simp
  next
    case lwip
    let ?f = "run_lwip_event (next_dns_id m) le"
    obtain k where m': "?f ?r = (e, snd (?f ?r))" "m' = m\<lparr>runtimes := (runtimes m)[i := snd (?f ?r)]\<rparr>\<lparr>next_dns_id := k\<rparr>"
      using lwip h by (cases "?f ?r") (auto simp: mgr_handle_def with_runtime_def update_runtime_def)
    have "lwip_enabled le (InstanceRuntime.lwip ?r)" using lwip en by (simp add: mgr_enabled_def)
    then have "instance_ok c (snd (?f ?r))" using run_lwip_event_ok [OF ok _ m'(1) ub] lwip by simp
    with composition_instance_step [OF inv i] inv' m'(2) show ?thesis
      by (simp add: next_dns_id_composition next_dns_id_inv instance_ok_def)
  next
    case accept
    with h have "m' = m\<lparr>runtimes := (runtimes m)[i := ?r\<lparr>ss := on_accept ok (ss ?r)\<rparr>]\<rparr>"
      by (simp add: mgr_handle_def update_runtime_def)
    moreover from accept en have "inbound_enabled (Accepted ok) (ss ?r)" by (simp add: mgr_enabled_def)
    ultimately show ?thesis
      using composition_instance_step [OF inv i] accept_ok [OF ok, of ok] accept inv' by (simp add: instance_ok_def)
  qed
qed

lemma start_composition:
  assumes "composition_inv c m" "runtimes m = []" "mgr_pc m = MgrOutside"
  shows "composition_inv c (MultiInstanceManager_start c m)"
proof -
  have "list_all (instance_ok c) (map (\<lambda>cfg. start_instance (InstanceRuntime_new c cfg)) cfgs)" for cfgs
    by (simp add: list_all_iff new_instance_ok)
  with assms start_mgr_inv [of m c] show ?thesis
    by (simp add: composition_inv_def MultiInstanceManager_start_def list_all_iff instance_ok_def)
qed

lemma stop_step_composition:
  assumes inv: "composition_inv c m" and inv': "mgr_inv (stop_step m)"
  shows "composition_inv c (stop_step m)"
proof -
  let ?rs = "runtimes m"
  have comp: "list_all (components_ok c) ?rs" and al: "list_all alive (drop (alive_from (mgr_pc m)) ?rs)"
    using inv by (simp_all add: composition_inv_def)
  have nth: "components_ok c (?rs ! k)" if "k < length ?rs" for k using comp that by (simp add: list_all_length)
  have up: "list_all P (?rs[k := x])" if "list_all P ?rs" "k < length ?rs \<Longrightarrow> P x" for P k x
    using that by (rule list_all_update)
  have same: "composition_inv c (stop_step m)"
    if "runtimes (stop_step m) = ?rs[k := x]" "vpn x = vpn (?rs ! k)" "ss x = ss (?rs ! k)" "lwip x = lwip (?rs ! k)"
      "runtime_config x = runtime_config (?rs ! k)" "k < length ?rs" "alive_from (mgr_pc m) = 0" "alive_from (mgr_pc (stop_step m)) = 0"
    for k x
  proof -
    have "components_ok c x" using components_same(1) [OF that(5,2,3,4)] nth that(6) by blast
    moreover have "alive x" using al that(2,6,7) by (simp add: list_all_length)
    ultimately show ?thesis using inv' that(1,7,8) comp al up by (simp add: composition_inv_def)
  qed
  show ?thesis
  proof (cases "mgr_pc m")
    case (MgrPosting k)
    show ?thesis
    proof (cases "k < length ?rs")
      case True
      with MgrPosting show ?thesis
        by (intro same [of k "(post_io [StopInstance] (?rs ! k))\<lparr>io_work := False\<rparr>"]) (simp_all add: stop_step_def post_io_def)
    next
      case False
      with MgrPosting comp al inv' show ?thesis by (simp add: composition_inv_def stop_step_def)
    qed
  next
    case (MgrWaiting k)
    with inv have "k < length ?rs" by (simp add: composition_inv_def mgr_inv_def shutdown_inv_def)
    with MgrWaiting show ?thesis by (intro same [of k "(?rs ! k)\<lparr>io_stopped := True\<rparr>"]) (simp_all add: stop_step_def)
  next
    case (MgrDestroying k)
    have "components_ok c ((?rs ! k)\<lparr>io_running := False, vpn := OpenVpnClient_destroy (vpn (?rs ! k))\<rparr>)" if k: "k < length ?rs"
    proof -
      have "alive (?rs ! k)" using al MgrDestroying k by (simp add: Cons_nth_drop_Suc [symmetric])
      with nth [OF k] show ?thesis by (simp add: components_ok_def vpn_client_reach)
    qed
    moreover have "list_all alive (drop (Suc k) ?rs)" using al MgrDestroying by (auto simp: list_all_iff dest: in_set_dropD) (metis in_set_dropD drop_drop plus_1_eq_Suc)
    ultimately show ?thesis using inv' comp up MgrDestroying
      by (cases "k < length ?rs") (simp_all add: composition_inv_def stop_step_def drop_update_cancel)
  next
    case (MgrJoining k)
    with inv have k: "k < length ?rs" by (simp add: composition_inv_def mgr_inv_def shutdown_inv_def)
    then have "components_ok c ((?rs ! k)\<lparr>lwip := LwipRuntime_stop (lwip (?rs ! k))\<rparr>)"
      using nth [OF k] by (simp add: components_ok_def lwip_client_reach)
    with inv' comp al up MgrJoining show ?thesis by (simp add: composition_inv_def stop_step_def drop_update_cancel)
  qed (use inv in \<open>simp add: stop_step_def\<close>)
qed

interpretation composition: invariant_system "mgr_init cfg" "mgr_step c" "composition_inv c" for cfg c
proof
  show "composition_inv c m" if "mgr_init cfg m" for m
    using that manager.init_invariant [OF that] by (simp add: composition_inv_def mgr_init_def MultiInstanceManager_new_def)
  show "composition_inv c m'" if inv: "composition_inv c m" and step: "mgr_step c m m'" for m m'
  proof -
    have inv': "mgr_inv m'" using inv manager.step_invariant [OF _ step] by (simp add: composition_inv_def)
    from step show ?thesis
    proof (rule mgr_stepE)
      fix ev r assume en: "mgr_enabled ev m" and h: "mgr_handle c ev m = (r, m')"
        and ub: "case r of None \<Rightarrow> True | Some e \<Rightarrow> \<not> is_ub e"
      from ub have ub: "\<And>x. r = Some x \<Longrightarrow> \<not> is_ub x" by simp
      show "composition_inv c m'"
      proof (cases ev)
        case ManagerStart
        with en h start_composition [OF inv] show ?thesis by (simp add: mgr_enabled_def mgr_handle_def)
      next
        case ManagerStop
        with en h inv inv' show ?thesis
          by (auto simp: mgr_enabled_def mgr_handle_def MultiInstanceManager_stop_def composition_inv_def)
      next
        case StopStep
        with h inv' stop_step_composition [OF inv] show ?thesis by (simp add: mgr_handle_def)
      qed (use instance_event_composition [OF inv inv' en h ub] in blast)+
    qed
  qed
qed

end
