(* ===== verification/OpenVpnClientProperties.thy ===== *)
theory OpenVpnClientProperties
  imports OpenVpnClient
begin

text \<open>The properties of the OpenVPN client, with runs of the model as witnesses.\<close>

section \<open>Example runs\<close>

definition vpn_example :: InstanceConfig where
  "vpn_example = default_InstanceConfig\<lparr>ovpn_path := ''a.ovpn'', vpn_username := ''u''\<rparr>"

definition vpn_after :: "vpn_event list \<Rightarrow> (OpenVpnClient \<Rightarrow> bool) \<Rightarrow> bool" where
  "vpn_after evs P =
     (case run_vpn evs (OpenVpnClient_new vpn_example) (LwipRuntime_new 0) of None \<Rightarrow> False | Some (v, lwip) \<Rightarrow> P v)"

lemma vpn_afterE:
  assumes "vpn_after evs P"
  obtains v where "vpn_reachable vpn_example v" and "P v"
proof -
  have "vpn_reachable vpn_example (OpenVpnClient_new vpn_example)"
    by (rule reach_init) (simp add: vpn_init_def)
  with assms that show ?thesis
    by (auto simp: vpn_after_def split: option.splits prod.splits dest: run_vpn_reachable)
qed

text \<open>The first attempt fails, and the thread waits.\<close>

definition example_waiting :: "vpn_event list" where
  "example_waiting =
     [VpnStart (Some ''client'') False, LoopStep False, ConnectThrows, LoopStep False, LoopStep False]"

lemma example_waiting_run:
  "vpn_after example_waiting (\<lambda>v. vpn_pc v = Sleeping 200 \<and> vpn_running v \<and> waits v = [2000])"
  by code_simp

section \<open>The loop\<close>

text \<open>
  (C26) The delay between two connection attempts stays between 2 and 30 seconds, and a wait
  never goes on for more than one tick of 200 milliseconds beyond it.
\<close>

theorem vpn_backoff_bounds:
  assumes "vpn_reachable cfg v"
  shows "2000 \<le> reconnect_delay_ms v \<and> reconnect_delay_ms v \<le> 30000 \<and>
    list_all (\<lambda>d. 2000 \<le> d \<and> d \<le> 30000) (waits v) \<and>
    (case vpn_pc v of Sleeping e \<Rightarrow> 0 \<le> e \<and> e < reconnect_delay_ms v + 200 | _ \<Rightarrow> True)"
  using vpn_client.reachable_invariant [OF assms] by (simp add: loop_inv_def)

theorem vpn_backoff_bounds_witness:
  "\<exists>v. vpn_reachable vpn_example v \<and> vpn_pc v = Sleeping 200 \<and> 200 < reconnect_delay_ms v + 200"
proof -
  obtain v where r: "vpn_reachable vpn_example v" "vpn_pc v = Sleeping 200"
    using example_waiting_run by (rule vpn_afterE) blast
  with vpn_backoff_bounds [OF r(1)] show ?thesis by (intro exI [of _ v]) simp
qed

lemma loop_step_started: "vpn_pc v \<noteq> NotStarted \<Longrightarrow> vpn_pc (loop_step e v) \<noteq> NotStarted"
  by (cases "vpn_pc v") (auto simp: loop_defs)

lemma loop_steps_started: "vpn_pc v \<noteq> NotStarted \<Longrightarrow> vpn_pc (fold loop_step (replicate k e) v) \<noteq> NotStarted"
  by (induction k arbitrary: v) (simp_all add: loop_step_started)

text \<open>
  (C10) The reconnect loop cannot hang: from any point outside of \<^verbatim>\<open>connect()\<close> the thread
  reaches the next connection attempt or its end within 154 of its own steps, each of which
  sleeps for at most 200 milliseconds.
\<close>

theorem vpn_loop_terminates:
  assumes "vpn_reachable cfg v" "vpn_pc v \<noteq> NotStarted"
  shows "\<exists>k \<le> 154. vpn_pc (fold loop_step (replicate k e) v) \<in> {Connecting, Finished}"
proof -
  obtain k where k: "k \<le> steps_left (vpn_pc v) (reconnect_delay_ms v)" "\<not> in_loop (fold loop_step (replicate k e) v)"
    using loop_steps_bounded by blast
  have "k \<le> 154" using k(1) steps_left_bound vpn_client.reachable_invariant [OF assms(1)] le_trans by blast
  moreover have "vpn_pc (fold loop_step (replicate k e) v) \<in> {Connecting, Finished}"
    using k(2) loop_steps_started [OF assms(2), of k e] by (auto simp: in_loop_def)
  ultimately show ?thesis by blast
qed

theorem vpn_loop_terminates_witness:
  "\<exists>v. vpn_pc v = Sleeping 200 \<and> (\<exists>k \<le> 154. vpn_pc (fold loop_step (replicate k False) v) \<in> {Connecting, Finished})"
proof -
  obtain v where r: "vpn_reachable vpn_example v" "vpn_pc v = Sleeping 200"
    using example_waiting_run by (rule vpn_afterE) blast
  then have "vpn_pc v \<noteq> NotStarted" by simp
  from vpn_loop_terminates [OF r(1) this] r(2) show ?thesis by blast
qed

text \<open>
  (C19) Stopping is prompt: once the client is stopped, the thread ends within two of its steps
  unless it is inside of \<^verbatim>\<open>connect()\<close>; and an attempt it is inside of then belongs to a core
  that was told to stop.
\<close>

theorem vpn_stop_ends_thread:
  assumes "vpn_reachable cfg v" "\<not> vpn_running v" "vpn_pc v \<noteq> NotStarted"
  shows "if vpn_pc v = Connecting then impl v \<in> set (core_stops v)
    else vpn_pc (loop_step e2 (loop_step e1 v)) = Finished"
  using assms(2,3) vpn_client.reachable_invariant [OF assms(1)]
  by (cases "vpn_pc v") (simp_all add: loop_inv_def loop_defs keep_going_def)

theorem vpn_stop_ends_thread_witness:
  "\<exists>v. vpn_reachable vpn_example v \<and> vpn_pc v = Sleeping 200 \<and> vpn_pc (loop_step False (loop_step False v)) = Finished"
proof -
  have "vpn_after (example_waiting @ [VpnStop]) (\<lambda>v. vpn_pc v = Sleeping 200 \<and> \<not> vpn_running v)"
    by code_simp
  then obtain v where r: "vpn_reachable vpn_example v" "vpn_pc v = Sleeping 200" "\<not> vpn_running v"
    by (rule vpn_afterE) blast
  then have "vpn_pc v \<noteq> NotStarted" by simp
  from vpn_stop_ends_thread [OF r(1,3) this, of False False] r show ?thesis by (intro exI [of _ v]) simp
qed

section \<open>The delays\<close>

text \<open>A round: an attempt ends, the thread waits and is inside of the next attempt.\<close>

definition returning_round :: "OpenVpnClient \<Rightarrow> OpenVpnClient" where
  "returning_round v = run_loop (connect_returns False v)"

definition throwing_round :: "OpenVpnClient \<Rightarrow> OpenVpnClient" where
  "throwing_round v = run_loop (connect_throws v)"

lemma run_loop_sleeps:
  "vpn_pc v = Sleeping e \<Longrightarrow> keep_going v \<Longrightarrow> run_loop v = run_loop (v\<lparr>vpn_pc := AfterSleep\<rparr>)"
proof (induction "nat (reconnect_delay_ms v - e)" arbitrary: v e rule: less_induct)
  case less
  show ?case
  proof (cases "e < reconnect_delay_ms v")
    case True
    let ?w = "v\<lparr>vpn_pc := Sleeping (e + 200)\<rparr>"
    have "run_loop v = run_loop ?w"
      using less.prems True by (subst run_loop.simps) (simp add: in_loop_def loop_step_def)
    also have "\<dots> = run_loop (?w\<lparr>vpn_pc := AfterSleep\<rparr>)"
      using less.prems True by (intro less.hyps) (auto simp: keep_going_def)
    finally show ?thesis by simp
  next
    case False
    with less.prems show ?thesis by (subst run_loop.simps) (simp add: in_loop_def loop_step_def)
  qed
qed

text \<open>A thread that keeps going and has no cipher problem to react to, inside of an attempt.\<close>

definition steady :: "OpenVpnClient \<Rightarrow> bool" where
  "steady v \<longleftrightarrow> vpn_pc v = Connecting \<and> keep_going v \<and> \<not> needs_downgrade v"

lemma run_loop_round:
  assumes "vpn_pc v = AfterAttempt" "keep_going v" "\<not> needs_downgrade v"
  shows "steady (run_loop v) \<and> reconnect_delay_ms (run_loop v) = min (reconnect_delay_ms v * 2) 30000 \<and>
    waits (run_loop v) = waits v @ [reconnect_delay_ms v]"
proof -
  let ?w = "v\<lparr>vpn_pc := Sleeping 0, waits := waits v @ [reconnect_delay_ms v]\<rparr>"
  let ?x = "replace_impl (using_non_preferred v) False
    (?w\<lparr>vpn_pc := AfterSleep, reconnect_delay_ms := min (reconnect_delay_ms v * 2) 30000\<rparr>)"
  have k: "keep_going ?w" "keep_going (?w\<lparr>vpn_pc := AfterSleep\<rparr>)" "keep_going ?x"
    using assms(2) by (simp_all add: keep_going_def replace_impl_def Let_def)
  have "run_loop v = run_loop ?w"
    using assms by (subst run_loop.simps) (simp add: in_loop_def loop_step_def)
  also have "\<dots> = run_loop (?w\<lparr>vpn_pc := AfterSleep\<rparr>)" using k by (intro run_loop_sleeps) simp_all
  also have "\<dots> = run_loop ?x"
    using k(2) by (subst run_loop.simps) (simp add: in_loop_def loop_step_def)
  also have "\<dots> = run_loop (begin_attempt ?x)"
    using k(3) by (subst run_loop.simps) (simp add: in_loop_def loop_step_def replace_impl_def Let_def)
  also have "\<dots> = begin_attempt ?x" by (subst run_loop.simps) (simp add: in_loop_def begin_attempt_def Let_def)
  finally have "run_loop v = begin_attempt ?x" .
  with assms k(3) show ?thesis
    by (simp add: steady_def begin_attempt_def replace_impl_def keep_going_def Let_def)
qed

lemma returning_rounds:
  "steady v \<Longrightarrow> waits ((returning_round ^^ n) v) = waits v @ replicate n 2000 \<and> steady ((returning_round ^^ n) v)"
proof (induction n)
  case (Suc n)
  let ?u = "(returning_round ^^ n) v"
  have "steady ?u" and w: "waits ?u = waits v @ replicate n 2000" using Suc by auto
  then have "vpn_pc (connect_returns False ?u) = AfterAttempt" "keep_going (connect_returns False ?u)"
    "\<not> needs_downgrade (connect_returns False ?u)" "reconnect_delay_ms (connect_returns False ?u) = 2000"
    "waits (connect_returns False ?u) = waits ?u"
    by (simp_all add: steady_def connect_returns_def keep_going_def Let_def)
  from run_loop_round [OF this(1-3)] this(4,5) w show ?case
    by (simp add: returning_round_def [of ?u] replicate_append_same)
qed simp

lemma throwing_rounds:
  "steady v \<Longrightarrow> reconnect_delay_ms v = 2000 \<Longrightarrow>
   waits ((throwing_round ^^ n) v) = waits v @ map (\<lambda>i. min (2000 * 2 ^ i) 30000) [0..<n] \<and>
   reconnect_delay_ms ((throwing_round ^^ n) v) = min (2000 * 2 ^ n) 30000 \<and> steady ((throwing_round ^^ n) v)"
proof (induction n)
  case (Suc n)
  let ?u = "(throwing_round ^^ n) v"
  have s: "steady ?u" and d: "reconnect_delay_ms ?u = min (2000 * 2 ^ n) 30000"
    and w: "waits ?u = waits v @ map (\<lambda>i. min (2000 * 2 ^ i) 30000) [0..<n]" using Suc by auto
  then have "vpn_pc (connect_throws ?u) = AfterAttempt" "keep_going (connect_throws ?u)" "\<not> needs_downgrade (connect_throws ?u)"
    by (simp_all add: steady_def connect_throws_def keep_going_def)
  from run_loop_round [OF this] d w show ?case
    by (simp add: throwing_round_def [of ?u] connect_throws_def min_def)
qed simp

text \<open>
  (C33) The delays between attempts: while attempts end with an exception the delay doubles up
  to its bound, 2, 4, 8, 16 and then 30 seconds; but an attempt that ends in any other way,
  failed or not, resets it, so that after any number of failed attempts the wait is still 2
  seconds.
\<close>

theorem vpn_delays:
  assumes "steady v" "reconnect_delay_ms v = 2000"
  shows "waits ((throwing_round ^^ n) v) = waits v @ map (\<lambda>i. min (2000 * 2 ^ i) 30000) [0..<n] \<and>
    waits ((returning_round ^^ n) v) = waits v @ replicate n 2000"
  using throwing_rounds [OF assms] returning_rounds [OF assms(1)] by blast

theorem vpn_delays_witness:
  "\<exists>v. vpn_reachable vpn_example v \<and> waits ((throwing_round ^^ 5) v) = [2000, 4000, 8000, 16000, 30000] \<and>
     waits ((returning_round ^^ 5) v) = [2000, 2000, 2000, 2000, 2000]"
proof -
  have "vpn_after [VpnStart (Some ''client'') False, LoopStep False]
      (\<lambda>v. steady v \<and> reconnect_delay_ms v = 2000 \<and> waits v = [])"
    by code_simp
  then obtain v where r: "vpn_reachable vpn_example v" "steady v" "reconnect_delay_ms v = 2000" "waits v = []"
    by (rule vpn_afterE) blast
  from vpn_delays [OF r(2,3), of 5] r(1,4) show ?thesis
    by (intro exI [of _ v]) (simp add: upt_rec numeral_eq_Suc)
qed

section \<open>Packets and callbacks\<close>

text \<open>
  (C28) Packets of the stack reach OpenVPN at most once and in their order; those that are not
  passed on were dropped.
\<close>

theorem vpn_packets_in_order:
  assumes "vpn_reachable cfg v"
  shows "subseq (to_openvpn v @ map snd (openvpn_posts v)) (sent_packets v)"
  using vpn_client.reachable_invariant [OF assms] by (simp add: packet_inv_def)

definition example_tunnel :: "vpn_event list" where
  "example_tunnel =
     [SetReadyHandler True, SetDisconnectHandler True, VpnStart (Some ''client'') False, LoopStep False, NewTun 1500,
      TunStart \<lparr>builder_calls = [], configured = \<lparr>vpn_ip4_addr = None, vpn_ip6_addr = None, vpn_ip4_gw = None,
        vpn_ip6_gw = None, state_mtu = 1500\<rparr>, configure_throws = False, connected_throws = False\<rparr> 0]"

theorem vpn_packets_in_order_witness:
  "\<exists>v. vpn_reachable vpn_example v \<and> to_openvpn v = [[1]] \<and> sent_packets v = [[1], [2]] \<and>
     subseq ([[1]] @ map snd (openvpn_posts v)) [[1], [2]]"
proof -
  have "vpn_after (example_tunnel @ [SendPacket [1], SendPacket [2], RunPost])
      (\<lambda>v. to_openvpn v = [[1]] \<and> sent_packets v = [[1], [2]])"
    by code_simp
  then obtain v where r: "vpn_reachable vpn_example v" "to_openvpn v = [[1]]" "sent_packets v = [[1], [2]]"
    by (rule vpn_afterE) blast
  with vpn_packets_in_order [OF r(1)] show ?thesis by metis
qed

end
