(* ===== verification/ManagerProperties.thy ===== *)
theory ManagerProperties
  imports ManagerComposition OpenVpnClientProperties
begin

text \<open>
  What the composed instances promise: every component behaves as it does alone, packets go from
  the stack to OpenVPN in their order, a stopped instance stays stopped, a shutdown waits for every
  thread, and the callbacks of OpenVPN find their handlers but for one window of the shutdown. A run
  shows how an instance can end without notice.
\<close>

section \<open>Example runs\<close>

definition manager_example :: ManagerConfig where
  "manager_example = \<lparr>json_path = ''c.json'', instances = [vpn_example\<lparr>shadowsocks := example_listen\<rparr>]\<rparr>"

definition manager_after :: "mgr_event list \<Rightarrow> (MultiInstanceManager \<Rightarrow> bool) \<Rightarrow> bool" where
  "manager_after evs P =
     (case run_manager plain_mbedtls evs (MultiInstanceManager_new manager_example) of None \<Rightarrow> False | Some m \<Rightarrow> P m)"

lemma manager_afterE:
  assumes "manager_after evs P"
  obtains m where "mgr_reachable plain_mbedtls manager_example m" and "P m"
proof -
  have "mgr_reachable plain_mbedtls manager_example (MultiInstanceManager_new manager_example)"
    by (rule reach_init) (simp add: mgr_init_def)
  with assms that show ?thesis by (auto simp: manager_after_def split: option.splits dest: run_manager_reachable)
qed

definition answers :: "listen_answers \<Rightarrow> task_answers" where
  "answers ls = \<lparr>profile_file = Some ''client'', profile_refused = False, listen_calls = ls\<rparr>"

text \<open>The manager starts, the client connects and the tunnel comes up.\<close>

definition example_up :: "mgr_event list" where
  "example_up =
     [ManagerStart, RunIo 0 (answers listen_ok), VpnEv 0 (LoopStep False), VpnEv 0 (NewTun 1500),
      VpnEv 0 (TunStart \<lparr>builder_calls = [], configured = \<lparr>vpn_ip4_addr = None, vpn_ip6_addr = None, vpn_ip4_gw = None,
        vpn_ip6_gw = None, state_mtu = 1500\<rparr>, configure_throws = False, connected_throws = False\<rparr> 0)]"

text \<open>It is stopped: every step of \<open>stop\<close>, with the task that stops the instance run in time.\<close>

definition example_stop :: "mgr_event list" where
  "example_stop =
     [ManagerStop, StopStep, RunIo 0 (answers listen_ok), RunIo 0 (answers listen_ok), StopStep, StopStep, StopStep]"

section \<open>Callbacks of OpenVPN\<close>

text \<open>A client whose handlers are destroyed can only be called while the main thread waits for its thread.\<close>

lemma destroyed_joining:
  assumes "composition_inv c m" "i < length (runtimes m)" "\<not> alive (runtimes m ! i)" "\<not> thread_ended (runtimes m ! i)"
  shows "mgr_pc m = MgrJoining i"
proof -
  let ?k = "alive_from (mgr_pc m)"
  have "i < ?k"
  proof (rule ccontr)
    assume "\<not> i < ?k"
    then have "runtimes m ! i \<in> set (drop ?k (runtimes m))" using assms(2) by (auto simp: in_set_conv_nth intro!: exI [of _ "i - ?k"])
    with assms(1,3) show False by (auto simp: composition_inv_def list_all_iff)
  qed
  have ended: "j \<le> i" if "list_all thread_ended (take j (runtimes m))" for j
    using that assms(2,4) by (auto simp: list_all_length not_less [symmetric])
  from assms(1) have "shutdown_inv m" by (simp add: composition_inv_def mgr_inv_def)
  with \<open>i < ?k\<close> ended show ?thesis by (cases "mgr_pc m") (auto simp: shutdown_inv_def intro: le_antisym dest: ended)
qed

text \<open>
  (C31) The callbacks of OpenVPN find the handlers of their client: whenever the thread of a client
  can take a step the handlers and their mutex exist, except while the main thread is inside of the
  destructor of that very client, which destroys them before it joins the thread.
\<close>

theorem vpn_callbacks_find_handlers:
  assumes "mgr_reachable c cfg m" "mgr_enabled (VpnEv i e) m"
  shows "handlers_alive (vpn (runtimes m ! i)) \<or> mgr_pc m = MgrJoining i"
proof -
  have e: "i < length (runtimes m)" "on_vpn_thread e" "vpn_enabled e (vpn (runtimes m ! i))"
    using assms(2) by (simp_all add: mgr_enabled_def)
  from destroyed_joining [OF composition.reachable_invariant [OF assms(1)] e(1) _ vpn_thread_not_ended [OF e(2,3)]]
  show ?thesis by blast
qed

text \<open>The run: the program is stopped in the ordinary way, and the tunnel is closed after the handlers are gone.\<close>

theorem vpn_callbacks_find_handlers_witness:
  "\<exists>m m'. mgr_reachable plain_mbedtls manager_example m \<and> mgr_enabled (VpnEv 0 (TunStop 0)) m \<and>
     mgr_handle plain_mbedtls (VpnEv 0 (TunStop 0)) m = (Some UseAfterFree, m') \<and> mgr_pc m = MgrJoining 0 \<and>
     stop_ran (runtimes m ! 0)"
proof -
  have "manager_after (example_up @ example_stop)
      (\<lambda>m. mgr_enabled (VpnEv 0 (TunStop 0)) m \<and> fst (mgr_handle plain_mbedtls (VpnEv 0 (TunStop 0)) m) = Some UseAfterFree \<and>
        stop_ran (runtimes m ! 0) \<and> \<not> handlers_alive (vpn (runtimes m ! 0)))"
    by code_simp
  then obtain m where r: "mgr_reachable plain_mbedtls manager_example m" "mgr_enabled (VpnEv 0 (TunStop 0)) m"
    "fst (mgr_handle plain_mbedtls (VpnEv 0 (TunStop 0)) m) = Some UseAfterFree" "stop_ran (runtimes m ! 0)"
    "\<not> handlers_alive (vpn (runtimes m ! 0))"
    by (rule manager_afterE) blast
  then obtain m' where h: "mgr_handle plain_mbedtls (VpnEv 0 (TunStop 0)) m = (Some UseAfterFree, m')"
    by (metis prod.exhaust fst_conv)
  from vpn_callbacks_find_handlers [OF r(1,2)] r h show ?thesis by auto
qed

section \<open>The components of an instance\<close>

text \<open>
  (C9) The program is the composition of its components: in every reachable state the client, the
  listeners and the interface of every instance are in states that they reach on their own, the
  client and the listeners with the configuration of the instance. What holds of every reachable
  state of a component therefore holds of it inside of the program.
\<close>

theorem manager_components:
  assumes "mgr_reachable c cfg m"
  shows "list_all (\<lambda>r. vpn_reachable (runtime_config r) (vpn r) \<and> lwip_reachable (lwip r) \<and>
    inbound_reachable c (shadowsocks (runtime_config r)) (ss r)) (runtimes m)"
  using composition.reachable_invariant [OF assms] by (simp add: composition_inv_def components_ok_def list_all_iff)

theorem manager_components_witness:
  "\<exists>r :: InstanceRuntime. listening (ss r) \<and> vpn_reachable (runtime_config r) (vpn r) \<and> lwip_reachable (lwip r) \<and>
     inbound_reachable plain_mbedtls (shadowsocks (runtime_config r)) (ss r)"
proof -
  have "manager_after (example_up @ [RunIo 0 (answers listen_ok)]) (\<lambda>m. runtimes m \<noteq> [] \<and> listening (ss (runtimes m ! 0)))"
    by code_simp
  then obtain m where r: "mgr_reachable plain_mbedtls manager_example m" "runtimes m \<noteq> []" "listening (ss (runtimes m ! 0))"
    by (rule manager_afterE) blast
  then have "runtimes m ! 0 \<in> set (runtimes m)" by simp
  with manager_components [OF r(1), unfolded list_all_iff] r(3) show ?thesis by blast
qed

text \<open>
  Packets from the stack to OpenVPN: what the client of an instance passed to OpenVPN are
  packets that the interface of the same instance sent, each at most once and in their order.
\<close>

theorem instance_packets_end_to_end:
  assumes "mgr_reachable c cfg m" "i < length (runtimes m)"
  shows "subseq (to_openvpn (vpn (runtimes m ! i))) (map snd (netif_outputs (lwip (runtimes m ! i))))"
proof -
  let ?v = "vpn (runtimes m ! i)"
  have inv: "inst_inv (manager_running m) (runtimes m ! i)"
    using manager.reachable_invariant [OF assms(1)] assms(2) by (simp add: mgr_inv_def list_all_length)
  then have "packet_inv ?v" "sent_packets ?v = map snd (netif_outputs (lwip (runtimes m ! i)))" by (simp_all add: inst_inv_def)
  then have "subseq (to_openvpn ?v @ map snd (openvpn_posts ?v)) (map snd (netif_outputs (lwip (runtimes m ! i))))"
    unfolding packet_inv_def by metis
  then show ?thesis by (rule subseq_order.trans [rotated]) (rule list_emb_prefix, simp)
qed

theorem instance_packets_end_to_end_witness:
  "\<exists>m. mgr_reachable plain_mbedtls manager_example m \<and> to_openvpn (vpn (runtimes m ! 0)) = [[1]] \<and>
     subseq [[1]] (map snd (netif_outputs (lwip (runtimes m ! 0)))) \<and> length (netif_outputs (lwip (runtimes m ! 0))) = 2"
proof -
  have "manager_after (example_up @ [LwipEv 0 (EmitPacket [[1]]), LwipEv 0 (EmitPacket [[2]]), VpnEv 0 RunPost])
      (\<lambda>m. 0 < length (runtimes m) \<and> to_openvpn (vpn (runtimes m ! 0)) = [[1]] \<and> length (netif_outputs (lwip (runtimes m ! 0))) = 2)"
    by code_simp
  then obtain m where r: "mgr_reachable plain_mbedtls manager_example m" "0 < length (runtimes m)"
    "to_openvpn (vpn (runtimes m ! 0)) = [[1]]" "length (netif_outputs (lwip (runtimes m ! 0))) = 2"
    by (rule manager_afterE) blast
  with instance_packets_end_to_end [OF r(1,2)] show ?thesis by metis
qed

section \<open>Stopping\<close>

text \<open>
  (C25) A stopped instance stays stopped: once the task that stops it has run, its listeners are
  closed, its client and its interface do not run, and no notification that was still queued and no
  callback of OpenVPN starts any of them again.
\<close>

theorem stopped_instances_stay_quiet:
  assumes "mgr_reachable c cfg m" "i < length (runtimes m)" "stop_ran (runtimes m ! i)"
  shows "\<not> manager_running m \<and> quiet (runtimes m ! i)"
  using manager.reachable_invariant [OF assms(1)] assms(2,3) by (simp add: mgr_inv_def inst_inv_def list_all_length)

text \<open>The run: the tunnel comes up, but the instance is stopped before the task that opens the listeners.\<close>

theorem stopped_instances_stay_quiet_witness:
  "\<exists>m. mgr_reachable plain_mbedtls manager_example m \<and> ready_calls (vpn (runtimes m ! 0)) = 1 \<and> quiet (runtimes m ! 0)"
proof -
  have "manager_after (example_up @ [ManagerStop, StopStep, RunIo 0 (answers listen_ok), RunIo 0 (answers listen_ok)])
      (\<lambda>m. 0 < length (runtimes m) \<and> stop_ran (runtimes m ! 0) \<and> ready_calls (vpn (runtimes m ! 0)) = 1)"
    by code_simp
  then obtain m where r: "mgr_reachable plain_mbedtls manager_example m" "0 < length (runtimes m)" "stop_ran (runtimes m ! 0)"
    "ready_calls (vpn (runtimes m ! 0)) = 1"
    by (rule manager_afterE) blast
  with stopped_instances_stay_quiet [OF r(1-3)] show ?thesis by blast
qed



text \<open>
  An instance can end without notice: when the listening socket cannot be bound, the exception
  leaves the task and ends the thread of the instance, while the client stays connected and the
  manager runs on; no task of the instance runs any more, the one that stops it included.
\<close>

theorem instance_ends_silently:
  "\<exists>m. mgr_reachable plain_mbedtls manager_example m \<and> manager_running m \<and> vpn_running (vpn (runtimes m ! 0)) \<and>
     runtimes m \<noteq> [] \<and> \<not> io_running (runtimes m ! 0) \<and> \<not> listening (ss (runtimes m ! 0)) \<and>
     (\<forall>ans. \<not> mgr_enabled (RunIo 0 ans) m)"
proof -
  have "manager_after (example_up @ [RunIo 0 (answers bind_fails)])
      (\<lambda>m. manager_running m \<and> vpn_running (vpn (runtimes m ! 0)) \<and> runtimes m \<noteq> [] \<and> \<not> io_running (runtimes m ! 0) \<and>
        \<not> listening (ss (runtimes m ! 0)))"
    by code_simp
  then show ?thesis by (rule manager_afterE) (auto simp: mgr_enabled_def io_active_def)
qed

end
