(* ===== verification/MainProgram.thy ===== *)
theory MainProgram
  imports ManagerProperties JsonConfig
begin

text \<open>
  The entry of the program, \<^verbatim>\<open>src/src/main.cpp\<close>: it reads the configuration named by its
  argument, runs the manager until a signal arrives, stops it and returns. The threads of the
  manager run beside it.
\<close>

section \<open>States and events\<close>










section \<open>The invariant\<close>









section \<open>Properties\<close>




end
