(* ===== verification/Spec2Isabelle.thy ===== *)
theory Spec2Isabelle
  imports SsAddress DnsMessage TcpRelayProperties LwipRuntimeProperties UdpRelayProperties MainProgram
begin

text \<open>
  \<^bold>\<open>A verification of ovpn2ss\<close>

  The program is a Shadowsocks server whose outgoing traffic leaves through OpenVPN. Every entry
  of its configuration is an instance with its own OpenVPN connection, its own network interface
  in a user-space TCP/IP stack (lwIP), its own listeners and its own thread. A client connects to
  the listeners with TCP or UDP; a relay session decrypts what it sends, reads the address it
  wants to reach, resolves a domain name with a DNS query through the tunnel, and opens a
  connection of the stack to it. Packets of the stack go to OpenVPN, packets of OpenVPN into the
  stack. This development translates the C++ sources of the program, and the parts of lwIP and
  of the JSON library that it calls as plain functions, to definitions of the same names, and
  proves what makes them correct.

  \<^bold>\<open>Conventions.\<close> A class is a \<open>record\<close> of its members, to which the model adds the operations
  in flight, the callbacks registered with the stack and a history of what was sent; an enumeration
  is a \<open>datatype\<close>; machine integers are words of their width. A function that may throw has
  a result of type \<open>exn + 'a\<close>, one that changes an object returns the exception, if any, with
  the new object. Reading outside of a buffer and using a destroyed object are the exceptions
  \<open>OutOfBounds\<close> and \<open>UseAfterFree\<close> (\<open>is_ub\<close>); a run ends there. What an asynchronous
  object does is a transition system: a datatype of events (completions, callbacks, timers, calls
  of the owner), a predicate that says which of them can happen, a function that handles one, and
  the states they reach. Code that is not under \<^verbatim>\<open>src/\<close> is an argument: mbedTLS, the
  random generator, \<^verbatim>\<open>inet_pton\<close>, the answers of the protocol engine of lwIP, of the
  operating system, of asio and of the OpenVPN core. What is relied on is stated in named
  predicates, such as \<open>mbedtls_buffers\<close>, \<open>aead_laws\<close>, \<open>hkdf_total\<close>,
  \<open>drbg_laws\<close> and \<open>inet_pton_laws\<close>, which ask for no more than the documentation
  promises: key derivation for at most 255 times 20 bytes, at most 1024 random bytes at once.

  \<^bold>\<open>Theories.\<close>

  \<^item> \<open>Prelude\<close>: words and bytes, exceptions, views of memory, and the interfaces that components
  share: \<open>be16_field\<close> (16-bit fields, for addresses and for DNS), \<open>stream_decoder\<close> (decoding
  a stream that arrives in pieces) and \<open>invariant_system\<close> (transition systems with an invariant).
  \<^item> \<open>InstanceConfig\<close>, \<open>LwipTypes\<close>: the data of \<^verbatim>\<open>InstanceConfig.h\<close>,
  \<^verbatim>\<open>PacketBuffer.h\<close> and of lwIP.
  \<^item> \<open>ShadowsocksAead\<close>, \<open>SsAddress\<close>: \<^verbatim>\<open>src/src/ShadowsocksAead.cpp\<close>. Chunks and
  datagrams survive encryption and decryption under any fragmentation; the decoders stay inside of
  their buffers; an address header is accepted exactly if it is the canonical encoding of its
  result; the nonce counter has a period of 256.
  \<^item> \<open>LwipIpAddr\<close>, \<open>LwipNtoa\<close>: lwIP's conversions between addresses and text,
  \<^verbatim>\<open>ip4_addr.c\<close>, \<^verbatim>\<open>ip6_addr.c\<close> and \<^verbatim>\<open>ip.c\<close>.
  \<^item> \<open>DnsMessage\<close>: the queries and the parser of responses in \<^verbatim>\<open>src/src/LwipRuntime.cpp\<close>,
  lines 57 to 203. The parser reads nothing outside of a packet and returns the first matching record.
  \<^item> \<open>PcbTable\<close>: what the two tables of objects that own control blocks have in common.
  \<^item> \<open>LwipRuntime\<close>, \<open>LwipRuntimeProperties\<close>: the rest of that file: the interface, packets in
  and out, the lookup table with its timers. Every handler of a lookup is in exactly one place, and
  is called once the timers and tasks have run, unless an exception left its query behind.
  \<^item> \<open>OpenVpnTunBuilder\<close>: \<^verbatim>\<open>src/src/OpenVpnTunBuilder.cpp\<close>. The incremental builder
  refines a description read off the whole list of calls.
  \<^item> \<open>TcpRelaySession\<close>, \<open>TcpRelayLife\<close>, \<open>TcpRelayStream\<close>, \<open>TcpRelayData\<close>,
  \<open>TcpRelayProperties\<close>: \<^verbatim>\<open>src/src/TcpRelaySession.cpp\<close>. The field \<open>registered\<close> holds
  the control blocks whose callbacks were set and not cleared, \<open>used_after_free\<close> is set by every
  member function that is entered after the last owner let go of the session. Shown are the
  integrity of both directions, exact flow control, that callbacks find their session, and that
  two places are the only ones with undefined behaviour.
  \<^item> \<open>UdpRelaySession\<close>, \<open>UdpRelayProperties\<close>: \<^verbatim>\<open>src/src/UdpRelaySession.cpp\<close>.
  Callbacks find their mapping, clients do not share mappings, mappings expire, requests and
  replies are forwarded exactly.
  \<^item> \<open>ShadowsocksInbound\<close>: \<^verbatim>\<open>src/src/ShadowsocksInbound.cpp\<close>. The listeners keep
  accepting, and stopped listeners hold nothing; restarts multiply the accepts in flight.
  \<^item> \<open>JsonConfig\<close>: \<^verbatim>\<open>MultiInstanceManager::load_json_config\<close> on a parsed document. What
  is loaded is well formed, and every valid configuration can be written down and loaded.
  \<^item> \<open>OpenVpnCipherScan\<close>, \<open>OpenVpnClient\<close>, \<open>OpenVpnClientProperties\<close>:
  \<^verbatim>\<open>src/src/OpenVpnClient.cpp\<close>. The scan of a profile agrees with a description of its
  lines; the loop of the thread makes progress, ends when it is told to, and waits within its bounds.
  \<^item> \<open>MultiInstanceManager\<close>, \<open>ManagerComposition\<close>, \<open>ManagerProperties\<close>: the instances of
  \<^verbatim>\<open>src/src/MultiInstanceManager.cpp\<close>, composed of the client, the interface and the listeners,
  with the interleaving of the main thread, the threads of the instances and those of the clients.
  Every component goes through states of its own transition system only; stopped instances stay
  stopped, and a shutdown waits for all threads.
  \<^item> \<open>MainProgram\<close>: \<^verbatim>\<open>src/src/main.cpp\<close>, exit codes and the state of the manager behind them.
  \<^item> \<open>ExampleCipher\<close>: a cipher with the laws asked of mbedTLS, for runs that show that the
  hypotheses can hold.

  \<^bold>\<open>Bounds.\<close> No definition has fuel: every loop of the sources ends, and the recursive functions
  come with proofs of it. The thread of the OpenVPN client, which may reconnect for ever, is a step
  function; that it reaches its next attempt is a theorem with a bound of 154 steps.

  \<^bold>\<open>Granularity.\<close> A handler that asio, the stack or OpenVPN calls is one step, and steps of
  different threads interleave; the shutdown and the loop of the client's thread are split where
  they wait. Locks are therefore not modelled, and neither are data races: the flag
  \<^verbatim>\<open>connected\<close> of the in-memory tunnel, which two threads use without a lock, is read and written
  as if it were atomic, and the notifications of the client take effect at once.

  \<^bold>\<open>Not modelled.\<close> The protocol engine of lwIP, the registration of interfaces with it and its
  random source \<^verbatim>\<open>ovpn2ss_lwip_rand\<close>; the OpenVPN core and its cryptography; the lexer
  and parser of the JSON library, which are an argument of the model; the build without OpenVPN
  (without \<^verbatim>\<open>OVPN2SS_REAL_OPENVPN3\<close>); logging; exhausted memory and failures to start a
  thread; the length of the two-second wait in \<^verbatim>\<open>MultiInstanceManager::stop\<close>, which may end
  before or after the task it waits for; an exception of \<^verbatim>\<open>eval_config\<close> at a reconnect, outside
  of the \<^verbatim>\<open>try\<close> block, which ends the process. An exception that a callback throws through
  the C code of the stack is taken for an outcome after which the run goes on. The relay sessions are not
  part of the state of an instance: the listeners record that they were started, and their theories
  let their environment, the stack and the sockets, answer in any way.
\<close>

end
